(* ===== verification/Prelude.thy ===== *)
theory Prelude
  imports Main "HOL-Library.State_Monad" "HOL-Library.Word"
begin

text \<open>
  The shared vocabulary of the development.
  \<^item> The computation type: a Go function with effects is a \<open>State_Monad\<close> computation over the
    state of its service; \<open>wp\<close> is its weakest precondition, with one rule per combinator.
  \<^item> SQL tables as lists of rows, with the statements the stores issue (\<open>update_where\<close>,
    \<open>insert_unless\<close>, \<open>select_one\<close>), and the locale of key-preserving row updates that every
    \<open>UPDATE ... WHERE key = $n\<close> statement of the two services is an instance of.
  \<^item> The parts of Go's \<open>strings\<close> and \<open>strconv\<close> packages the program uses.
\<close>

named_theorems wp_rules \<open>weakest preconditions of the model's primitive calls\<close>
named_theorems table_simps \<open>look-ups after a table statement\<close>

section \<open>Computations\<close>

definition modify :: "('s \<Rightarrow> 's) \<Rightarrow> ('s, unit) state" where
  "modify f = State (\<lambda>s. ((), f s))"

definition gets :: "('s \<Rightarrow> 'a) \<Rightarrow> ('s, 'a) state" where
  "gets f = State (\<lambda>s. (f s, s))"

abbreviation skip :: "('s, unit) state" where
  "skip \<equiv> State_Monad.return ()"

abbreviation ret :: "'a \<Rightarrow> ('s, 'a) state" where
  "ret \<equiv> State_Monad.return"

definition wp :: "('s, 'a) state \<Rightarrow> ('a \<Rightarrow> 's \<Rightarrow> bool) \<Rightarrow> 's \<Rightarrow> bool" where
  "wp m Q s = (case run_state m s of (a, s') \<Rightarrow> Q a s')"

section \<open>Tables\<close>

text \<open>
  A table is the list of its rows in insertion order. Each statement returns the number of
  rows it affected, as \<open>pgconn.CommandTag.RowsAffected\<close> does, and the new table.
\<close>

definition update_where :: "('r \<Rightarrow> bool) \<Rightarrow> ('r \<Rightarrow> 'r) \<Rightarrow> 'r list \<Rightarrow> nat \<times> 'r list" where
  "update_where p f rs = (length (filter p rs), map (\<lambda>r. if p r then f r else r) rs)"

definition insert_unless :: "('r \<Rightarrow> bool) \<Rightarrow> 'r \<Rightarrow> 'r list \<Rightarrow> nat \<times> 'r list" where
  "insert_unless clash r rs = (if list_ex clash rs then (0, rs) else (1, rs @ [r]))"

definition select_one :: "('r \<Rightarrow> bool) \<Rightarrow> 'r list \<Rightarrow> 'r option" where
  "select_one p rs = List.find p rs"

section \<open>Go strings\<close>

text \<open>\<open>strings.Cut\<close> on a one-byte separator: the text before it, the text after it, found.\<close>

fun cut :: "char \<Rightarrow> string \<Rightarrow> string \<times> string \<times> bool" where
  "cut c [] = ([], [], False)"
| "cut c (x # xs) =
     (if x = c then ([], xs, True)
      else case cut c xs of (b, a, found) \<Rightarrow> (x # b, a, found))"

text \<open>\<open>strings.Split\<close> on a one-byte separator.\<close>

fun split_on :: "char \<Rightarrow> string \<Rightarrow> string list" where
  "split_on c [] = [[]]"
| "split_on c (x # xs) =
     (if x = c then [] # split_on c xs
      else case split_on c xs of [] \<Rightarrow> [[x]] | y # ys \<Rightarrow> (x # y) # ys)"

text \<open>\<open>strings.HasPrefix\<close>.\<close>

fun has_prefix :: "string \<Rightarrow> string \<Rightarrow> bool" where
  "has_prefix [] s = True"
| "has_prefix (p # ps) [] = False"
| "has_prefix (p # ps) (x # xs) = (p = x \<and> has_prefix ps xs)"

text \<open>
  \<open>strings.TrimSpace\<close> trims \<open>unicode.IsSpace\<close> runes at both ends. A Go string is bytes, so the
  non-ASCII spaces are their UTF-8 encodings.
\<close>

definition space_runes :: "string list" where
  "space_runes =
    [[CHR 0x09], [CHR 0x0A], [CHR 0x0B], [CHR 0x0C], [CHR 0x0D], [CHR 0x20],
     [CHR 0xC2, CHR 0x85], [CHR 0xC2, CHR 0xA0], [CHR 0xE1, CHR 0x9A, CHR 0x80],
     [CHR 0xE2, CHR 0x80, CHR 0x80], [CHR 0xE2, CHR 0x80, CHR 0x81],
     [CHR 0xE2, CHR 0x80, CHR 0x82], [CHR 0xE2, CHR 0x80, CHR 0x83],
     [CHR 0xE2, CHR 0x80, CHR 0x84], [CHR 0xE2, CHR 0x80, CHR 0x85],
     [CHR 0xE2, CHR 0x80, CHR 0x86], [CHR 0xE2, CHR 0x80, CHR 0x87],
     [CHR 0xE2, CHR 0x80, CHR 0x88], [CHR 0xE2, CHR 0x80, CHR 0x89],
     [CHR 0xE2, CHR 0x80, CHR 0x8A], [CHR 0xE2, CHR 0x80, CHR 0xA8],
     [CHR 0xE2, CHR 0x80, CHR 0xA9], [CHR 0xE2, CHR 0x80, CHR 0xAF],
     [CHR 0xE2, CHR 0x81, CHR 0x9F], [CHR 0xE3, CHR 0x80, CHR 0x80]]"

text \<open>Strip runes of a set from the front; the fuel is the length, since every rune has a byte.\<close>

fun strip_front :: "nat \<Rightarrow> string list \<Rightarrow> string \<Rightarrow> string" where
  "strip_front 0 runes s = s"
| "strip_front (Suc n) runes s =
     (case List.find (\<lambda>u. has_prefix u s) runes of
        None \<Rightarrow> s
      | Some u \<Rightarrow> strip_front n runes (drop (length u) s))"

definition trim_space :: "string \<Rightarrow> string" where
  "trim_space s =
     (let l = strip_front (length s) space_runes s
      in rev (strip_front (length l) (map rev space_runes) (rev l)))"

section \<open>Go integers as text\<close>

text \<open>\<open>strconv.FormatUint(n, 10)\<close> and \<open>strconv.FormatInt(n, 10)\<close>.\<close>

definition digit_char :: "nat \<Rightarrow> char" where
  "digit_char d = char_of (48 + d)"

fun show_nat :: "nat \<Rightarrow> string" where
  "show_nat n = (if n < 10 then [digit_char n] else show_nat (n div 10) @ [digit_char (n mod 10)])"

declare show_nat.simps [simp del]

definition show_int :: "int \<Rightarrow> string" where
  "show_int n = (if n < 0 then ''-'' @ show_nat (nat (- n)) else show_nat (nat n))"

text \<open>
  \<open>strconv.ParseUint(s, 10, 64)\<close>: digits only, no sign, no spaces; empty text and overflow are
  errors. \<open>strconv.ParseInt(s, 10, 64)\<close> also takes a sign.
\<close>

definition is_digit :: "char \<Rightarrow> bool" where
  "is_digit c \<longleftrightarrow> 48 \<le> (of_char c :: nat) \<and> (of_char c :: nat) \<le> 57"

definition digits_value :: "string \<Rightarrow> nat" where
  "digits_value s = foldl (\<lambda>n c. 10 * n + (of_char c - 48)) 0 s"

definition parse_digits :: "string \<Rightarrow> nat option" where
  "parse_digits s = (if s \<noteq> [] \<and> list_all is_digit s then Some (digits_value s) else None)"

definition parse_uint64 :: "string \<Rightarrow> 64 word option" where
  "parse_uint64 s =
     (case parse_digits s of
        None \<Rightarrow> None
      | Some n \<Rightarrow> if n < 2 ^ 64 then Some (of_nat n) else None)"

definition parse_int64 :: "string \<Rightarrow> int option" where
  "parse_int64 s =
     (case s of
        [] \<Rightarrow> None
      | c # cs \<Rightarrow>
          if c = CHR ''-'' then
            (case parse_digits cs of
               None \<Rightarrow> None
             | Some n \<Rightarrow> if n \<le> 2 ^ 63 then Some (- int n) else None)
          else
            (case parse_digits (if c = CHR ''+'' then cs else s) of
               None \<Rightarrow> None
             | Some n \<Rightarrow> if n < 2 ^ 63 then Some (int n) else None))"

section \<open>Durations\<close>

text \<open>Instants and durations are \<open>int\<close> nanoseconds, as \<open>time.Duration\<close> and \<open>time.Time\<close> count them.\<close>

type_synonym instant = int
type_synonym duration = int

definition millisecond :: duration where
  "millisecond = 1000000"

definition second :: duration where
  "second = 1000 * millisecond"

definition minute :: duration where
  "minute = 60 * second"

text \<open>\<open>t.Truncate(time.Second)\<close> and \<open>t.Unix()\<close>.\<close>

definition truncate_second :: "instant \<Rightarrow> instant" where
  "truncate_second t = t - t mod second"

definition unix_seconds :: "instant \<Rightarrow> int" where
  "unix_seconds t = t div second"

definition from_unix :: "int \<Rightarrow> instant" where
  "from_unix s = s * second"

text \<open>The zero \<open>time.Time\<close> (January 1, year 1, UTC) and \<open>IsZero\<close>.\<close>

definition zero_time :: instant where
  "zero_time = from_unix (- 62135596800)"

definition is_zero_time :: "instant \<Rightarrow> bool" where
  "is_zero_time t \<longleftrightarrow> t = zero_time"

text \<open>
  \<open>t.UTC().Format(time.RFC3339)\<close>: the civil date of a day number counted from the epoch (years
  start in March, 400-year eras), then the time of day.
\<close>

definition civil_date :: "int \<Rightarrow> int \<times> int \<times> int" where
  "civil_date days =
     (let z = days + 719468;
          era = z div 146097;
          doe = z mod 146097;
          yoe = (doe - doe div 1460 + doe div 36524 - doe div 146096) div 365;
          doy = doe - (365 * yoe + yoe div 4 - yoe div 100);
          mp = (5 * doy + 2) div 153;
          d = doy - (153 * mp + 2) div 5 + 1;
          m = (if mp < 10 then mp + 3 else mp - 9)
      in (yoe + era * 400 + (if m \<le> 2 then 1 else 0), m, d))"

definition pad_int :: "nat \<Rightarrow> int \<Rightarrow> string" where
  "pad_int w n = (let s = show_int n in replicate (w - length s) CHR ''0'' @ s)"

definition format_rfc3339 :: "instant \<Rightarrow> string" where
  "format_rfc3339 t =
     (let s = unix_seconds t; sec = s mod 86400 in
      case civil_date (s div 86400) of (y, m, d) \<Rightarrow>
        pad_int 4 y @ ''-'' @ pad_int 2 m @ ''-'' @ pad_int 2 d @ ''T'' @
        pad_int 2 (sec div 3600) @ '':'' @ pad_int 2 (sec mod 3600 div 60) @ '':'' @
        pad_int 2 (sec mod 60) @ ''Z'')"

section \<open>Quoting and hexadecimal\<close>

text \<open>
  The verb \<open>%q\<close>: quotes and escapes an ASCII string as \<open>strconv.Quote\<close> does. Bytes of multi-byte
  runes are kept as they are, which is what \<open>Quote\<close> does with the printable ones.
\<close>

definition hex_digit :: "nat \<Rightarrow> char" where
  "hex_digit d = (if d < 10 then char_of (48 + d) else char_of (87 + d))"

definition quote_char :: "char \<Rightarrow> string" where
  "quote_char c =
     (let n = of_char c :: nat in
      if n = 34 \<or> n = 92 then [CHR 0x5C, c]
      else if n = 7 then [CHR 0x5C, CHR ''a''] else if n = 8 then [CHR 0x5C, CHR ''b'']
      else if n = 9 then [CHR 0x5C, CHR ''t''] else if n = 10 then [CHR 0x5C, CHR ''n'']
      else if n = 11 then [CHR 0x5C, CHR ''v''] else if n = 12 then [CHR 0x5C, CHR ''f'']
      else if n = 13 then [CHR 0x5C, CHR ''r'']
      else if n < 32 \<or> n = 127 then [CHR 0x5C, CHR ''x'', hex_digit (n div 16), hex_digit (n mod 16)]
      else [c])"

definition go_quote :: "string \<Rightarrow> string" where
  "go_quote s = [CHR 0x22] @ concat (map quote_char s) @ [CHR 0x22]"

text \<open>\<open>hex.Decode\<close>: two hexadecimal digits of either case per byte.\<close>

definition hex_value :: "char \<Rightarrow> nat option" where
  "hex_value c =
     (let n = of_char c :: nat in
      if 48 \<le> n \<and> n \<le> 57 then Some (n - 48)
      else if 97 \<le> n \<and> n \<le> 102 then Some (n - 87)
      else if 65 \<le> n \<and> n \<le> 70 then Some (n - 55) else None)"

fun hex_decode :: "string \<Rightarrow> string option" where
  "hex_decode [] = Some []"
| "hex_decode [c] = None"
| "hex_decode (a # b # cs) =
     (case (hex_value a, hex_value b, hex_decode cs) of
        (Some x, Some y, Some r) \<Rightarrow> Some (char_of (16 * x + y) # r)
      | _ \<Rightarrow> None)"

section \<open>Lemmas: computations\<close>

lemma run_modify [simp]: "run_state (modify f) s = ((), f s)"
  by (simp add: modify_def)

lemma run_gets [simp]: "run_state (gets f) s = (f s, s)"
  by (simp add: gets_def)

lemma wp_return [simp]: "wp (State_Monad.return a) Q = Q a"
  by (rule ext) (simp add: wp_def)

lemma wp_bind [simp]: "wp (State_Monad.bind m f) Q = wp m (\<lambda>a. wp (f a) Q)"
  by (rule ext) (simp add: wp_def split: prod.splits)

lemma wp_modify [simp]: "wp (modify f) Q s = Q () (f s)"
  by (simp add: wp_def)

lemma wp_gets [simp]: "wp (gets f) Q s = Q (f s) s"
  by (simp add: wp_def)

lemma wp_mono:
  assumes "wp m Q s" and "\<And>a s'. Q a s' \<Longrightarrow> R a s'"
  shows "wp m R s"
  using assms by (auto simp: wp_def split: prod.splits)

lemma wp_conj: "wp m (\<lambda>a s'. Q a s' \<and> R a s') s \<longleftrightarrow> wp m Q s \<and> wp m R s"
  by (auto simp: wp_def split: prod.splits)

lemma wp_run: "run_state m s = (a, s') \<Longrightarrow> wp m Q s \<Longrightarrow> Q a s'"
  by (simp add: wp_def)

text \<open>Rules for stepping through a computation without unfolding it.\<close>

lemma wp_runI: "(\<And>a s'. run_state m s = (a, s') \<Longrightarrow> Q a s') \<Longrightarrow> wp m Q s"
  by (auto simp: wp_def)

lemma wp_bindI:
  assumes "wp m R s" and "\<And>a s'. R a s' \<Longrightarrow> wp (f a) Q s'"
  shows "wp (State_Monad.bind m f) Q s"
  unfolding wp_bind by (rule wp_mono [OF assms(1)]) (rule assms(2))

lemma wp_ifI:
  assumes "b \<Longrightarrow> wp m Q s" and "\<not> b \<Longrightarrow> wp n Q s"
  shows "wp (if b then m else n) Q s"
  using assms by simp

lemma wp_sumI:
  assumes "\<And>x. r = Inl x \<Longrightarrow> wp (f x) Q s" and "\<And>y. r = Inr y \<Longrightarrow> wp (g y) Q s"
  shows "wp (case r of Inl x \<Rightarrow> f x | Inr y \<Rightarrow> g y) Q s"
  using assms by (simp split: sum.split)

lemma wp_optionI:
  assumes "r = None \<Longrightarrow> wp f Q s" and "\<And>y. r = Some y \<Longrightarrow> wp (g y) Q s"
  shows "wp (case r of None \<Rightarrow> f | Some y \<Rightarrow> g y) Q s"
  using assms by (simp split: option.split)

section \<open>Lemmas: tables\<close>

lemma find_map_cong:
  assumes "\<And>r. p (f r) = p r"
  shows "List.find p (map f rs) = map_option f (List.find p rs)"
  using assms by (induction rs) auto

lemma find_append:
  "List.find p (xs @ ys) = (case List.find p xs of None \<Rightarrow> List.find p ys | Some x \<Rightarrow> Some x)"
  by (induction xs) auto

lemma find_None_list_ex: "List.find p xs = None \<longleftrightarrow> \<not> list_ex p xs"
  by (induction xs) auto

lemma find_SomeD: "List.find p xs = Some x \<Longrightarrow> x \<in> set xs \<and> p x"
  by (induction xs) (auto split: if_splits)

lemma distinct_find:
  "distinct (map k xs) \<Longrightarrow> x \<in> set xs \<Longrightarrow> List.find (\<lambda>y. k y = k x) xs = Some x"
  by (induction xs) force+

lemma row_unique:
  "distinct (map k xs) \<Longrightarrow> a \<in> set xs \<Longrightarrow> b \<in> set xs \<Longrightarrow> k a = k b \<Longrightarrow> a = b"
  by (metis distinct_map inj_onD)

text \<open>\<open>ORDER BY f, g\<close> as two stable sorts, the major key last.\<close>

definition before :: "('a \<Rightarrow> 'k :: linorder) \<Rightarrow> ('a \<Rightarrow> 'l :: linorder) \<Rightarrow> 'a \<Rightarrow> 'a \<Rightarrow> bool" where
  "before f g a b \<longleftrightarrow> f a < f b \<or> f a = f b \<and> g a \<le> g b"

lemma sorted_before:
  assumes "sorted (map f s)" and "\<And>k. sorted (map g (filter (\<lambda>y. f y = k) s))"
  shows "sorted_wrt (before f g) s"
  using assms
proof (induction s)
  case (Cons a s)
  have "before f g a b" if b: "b \<in> set s" for b
  proof (cases "f a = f b")
    case True
    have "sorted (map g (a # filter (\<lambda>y. f y = f a) s))" using Cons.prems(2) [of "f a"] by simp
    then show ?thesis using True b by (auto simp: before_def)
  next
    case False
    then show ?thesis using Cons.prems(1) b by (force simp: before_def le_less)
  qed
  moreover have "sorted (map g (filter (\<lambda>y. f y = k) s))" for k
    using Cons.prems(2) [of k] by (cases "f a = k") simp_all
  then have "sorted_wrt (before f g) s" using Cons.IH Cons.prems(1) by simp
  ultimately show ?case by simp
qed simp

lemma sort_twice_sorted: "sorted_wrt (before f g) (sort_key f (sort_key g xs))"
proof (rule sorted_before)
  show "sorted (map f (sort_key f (sort_key g xs)))" by simp
  show "sorted (map g (filter (\<lambda>y. f y = k) (sort_key f (sort_key g xs))))" for k
    by (simp add: sort_key_stable sorted_filter)
qed

text \<open>At most one row of a table has a given key, so a keyed statement affects at most one.\<close>

lemma filter_key_distinct:
  assumes "distinct (map k xs)"
  shows "filter (\<lambda>x. k x = v \<and> c x) xs =
    (case List.find (\<lambda>x. k x = v) xs of None \<Rightarrow> [] | Some x \<Rightarrow> if c x then [x] else [])"
  using assms
proof (induction xs)
  case Nil
  then show ?case by simp
next
  case (Cons x xs)
  show ?case
  proof (cases "k x = v")
    case True
    with Cons.prems have "v \<notin> k ` set xs" by auto
    then have "filter (\<lambda>y. k y = v \<and> c y) xs = []" by (force simp: filter_empty_conv)
    with True show ?thesis by simp
  next
    case False
    with Cons show ?thesis by simp
  qed
qed

text \<open>
  The contract of a keyed statement: \<open>UPDATE t SET ... WHERE key = $n AND cond\<close> sets columns other
  than the key. Every row operation of the stores is an interpretation of it.
\<close>

locale keyed_update =
  fixes key :: "'r \<Rightarrow> 'k"
    and set_columns :: "'r \<Rightarrow> 'r"
  assumes key_kept: "key (set_columns r) = key r"
begin

lemma lookup_after:
  "List.find (\<lambda>r. key r = k') (snd (update_where (\<lambda>r. key r = k \<and> c r) set_columns rs)) =
    map_option (\<lambda>r. if key r = k \<and> c r then set_columns r else r)
      (List.find (\<lambda>r. key r = k') rs)"
  unfolding update_where_def snd_conv by (rule find_map_cong) (simp add: key_kept)

lemma keys_after: "map key (snd (update_where p set_columns rs)) = map key rs"
  by (simp add: update_where_def key_kept)

lemma affected:
  assumes "distinct (map key rs)"
  shows "fst (update_where (\<lambda>r. key r = k \<and> c r) set_columns rs) =
    (case List.find (\<lambda>r. key r = k) rs of None \<Rightarrow> 0 | Some r \<Rightarrow> if c r then 1 else 0)"
  using assms by (simp add: update_where_def filter_key_distinct split: option.splits)

end

lemma insert_unless_lookup:
  assumes "\<And>r'. clash r' \<longleftrightarrow> k r' = k r"
  shows "List.find (\<lambda>r'. k r' = v) (snd (insert_unless clash r rs)) =
    (case List.find (\<lambda>r'. k r' = v) rs of
       Some r' \<Rightarrow> Some r'
     | None \<Rightarrow> if v = k r then Some r else None)"
proof (cases "list_ex clash rs")
  case True
  then obtain x where x: "x \<in> set rs" "k x = k r"
    using assms by (auto simp: list_ex_iff)
  then have "v = k r \<Longrightarrow> List.find (\<lambda>r'. k r' = v) rs \<noteq> None"
    by (auto simp: find_None_list_ex list_ex_iff)
  with True show ?thesis by (auto simp: insert_unless_def split: option.splits)
next
  case False
  then show ?thesis by (auto simp: insert_unless_def find_append split: option.splits)
qed

lemma insert_unless_distinct:
  assumes "\<And>r'. clash r' \<longleftrightarrow> k r' = k r" and "distinct (map k rs)"
  shows "distinct (map k (snd (insert_unless clash r rs)))"
  using assms by (auto simp: insert_unless_def list_ex_iff)

section \<open>Lemmas: numbers as text\<close>

lemma of_char_digit_char: "d < 10 \<Longrightarrow> of_char (digit_char d) = (48 + d :: nat)"
  by (simp add: digit_char_def)

lemma is_digit_digit_char: "d < 10 \<Longrightarrow> is_digit (digit_char d)"
  by (simp add: is_digit_def of_char_digit_char)

lemma show_nat_nonempty: "show_nat n \<noteq> []"
  by (subst show_nat.simps) simp

lemma show_nat_digits: "list_all is_digit (show_nat n)"
proof (induction n rule: show_nat.induct)
  case (1 n)
  then show ?case
    by (subst show_nat.simps) (auto simp: is_digit_digit_char)
qed

lemma digits_value_snoc: "digits_value (s @ [c]) = 10 * digits_value s + (of_char c - 48)"
  by (simp add: digits_value_def)

lemma digits_value_show_nat: "digits_value (show_nat n) = n"
proof (induction n rule: show_nat.induct)
  case (1 n)
  show ?case
  proof (cases "n < 10")
    case True
    then show ?thesis
      by (subst show_nat.simps) (simp add: digits_value_def of_char_digit_char)
  next
    case False
    then show ?thesis
      using "1.IH" by (subst show_nat.simps) (simp add: digits_value_snoc of_char_digit_char)
  qed
qed

lemma parse_digits_show_nat: "parse_digits (show_nat n) = Some n"
  by (simp add: parse_digits_def show_nat_nonempty show_nat_digits digits_value_show_nat)

lemma parse_uint64_show_nat: "parse_uint64 (show_nat (unat (w :: 64 word))) = Some w"
proof -
  have "unat w < 2 ^ 64"
    using unsigned_less [of w, where 'a = nat] by simp
  then show ?thesis by (simp add: parse_uint64_def parse_digits_show_nat)
qed

lemma show_nat_inject: "show_nat m = show_nat n \<longleftrightarrow> m = n"
  using digits_value_show_nat by metis

section \<open>Lemmas: strings and durations\<close>

lemma cut_found: "cut c s = (b, a, True) \<Longrightarrow> s = b @ c # a \<and> c \<notin> set b"
  by (induction s arbitrary: b) (auto split: if_splits prod.splits)

lemma cut_not_found: "cut c s = (b, a, False) \<Longrightarrow> b = s \<and> a = [] \<and> c \<notin> set s"
  by (induction s arbitrary: b) (auto split: if_splits prod.splits)

lemma cut_append: "c \<notin> set b \<Longrightarrow> cut c (b @ c # a) = (b, a, True)"
  by (induction b) auto

lemma second_pos [simp]: "0 < second"
  by (simp add: second_def millisecond_def)

lemma truncate_second_from_unix: "truncate_second t = from_unix (unix_seconds t)"
  by (simp add: truncate_second_def from_unix_def unix_seconds_def minus_mod_eq_div_mult)

lemma truncate_second_bounds: "truncate_second t \<le> t \<and> t < truncate_second t + second"
  by (simp add: truncate_second_def)

end
