(* ===== verification/Store.thy ===== *)
theory Store
  imports Prelude
begin

text \<open>
  Package \<open>internal/store\<close>: the deposit bridge's tables (\<open>intents\<close>, \<open>forwards\<close>, \<open>cursors\<close>) and the
  SQL statement of every method of \<open>store.Store\<close>, as a function of \<open>NOW()\<close> and the database. The
  Go method around a statement (its error path) is in theory \<open>Bridge_World\<close>. The lemmas give the
  row-level effect of each statement, the invariants they keep (unique keys, a submission has
  a deadline, one outbound transaction belongs to one deposit), and the intent life cycle.
\<close>

section \<open>Rows\<close>

datatype fwd_status = StatusPending | StatusDone | StatusFailed | StatusPendingRetry | StatusSwept

datatype intent_status = IntentPending | IntentCompleted | IntentExpired | IntentFailed

text \<open>\<open>memo_id\<close> is a \<open>BIGINT\<close>: Go casts \<open>uint64\<close> to \<open>int64\<close> and back, keeping the bits.\<close>

definition to_bigint :: "64 word \<Rightarrow> int" where
  "to_bigint w = sint w"

definition from_bigint :: "int \<Rightarrow> 64 word" where
  "from_bigint i = word_of_int i"

record intent =
  intent_id :: string
  memo_id :: int
  c_address :: string
  intent_pool :: string
  expected_amt :: "string option"
  expires_at :: instant
  intent_status :: intent_status
  external_id :: "string option"
  intent_created_at :: instant
  intent_updated_at :: instant

record forward =
  fwd_id :: nat
  tx_hash :: string
  fwd_memo_id :: int
  from_address :: string
  amount :: string
  asset :: string
  forward_tx :: "string option"
  status :: fwd_status
  retries :: int
  error_text :: "string option"
  created_at :: instant
  updated_at :: instant
  fwd_pool :: "string option"
  submitted_tx :: "string option"
  submitted_until :: "instant option"
  sweep :: bool
  landed_at :: "instant option"
  sweep_reason :: "string option"

record cursor_row =
  cursor_pool :: string
  cursor_token :: string
  cursor_updated_at :: instant

record deposit_db =
  intents :: "intent list"
  forwards :: "forward list"
  cursors :: "cursor_row list"
  next_fwd_id :: nat

text \<open>\<open>COALESCE(pool_address, '')\<close>, as every \<open>SELECT\<close> on \<open>forwards\<close> reads the column.\<close>

definition pool_address :: "forward \<Rightarrow> string" where
  "pool_address r = (case fwd_pool r of None \<Rightarrow> [] | Some p \<Rightarrow> p)"

definition intent_row :: "deposit_db \<Rightarrow> 64 word \<Rightarrow> intent option" where
  "intent_row db m = select_one (\<lambda>i. memo_id i = to_bigint m) (intents db)"

definition fwd_row :: "deposit_db \<Rightarrow> string \<Rightarrow> forward option" where
  "fwd_row db h = select_one (\<lambda>r. tx_hash r = h) (forwards db)"

section \<open>Intents\<close>

text \<open>One attempt of \<open>CreateIntent\<close>: \<open>None\<close> is \<open>ON CONFLICT DO NOTHING\<close> returning no row.\<close>

definition insert_intent ::
  "instant \<Rightarrow> string \<Rightarrow> 64 word \<Rightarrow> string \<Rightarrow> string \<Rightarrow> string option \<Rightarrow> instant \<Rightarrow> string option \<Rightarrow>
   deposit_db \<Rightarrow> string option \<times> deposit_db"
where
  "insert_intent now uuid m c_addr pool expected expires ext db =
     (case insert_unless (\<lambda>i. memo_id i = to_bigint m)
        \<lparr>intent_id = uuid, memo_id = to_bigint m, c_address = c_addr, intent_pool = pool,
         expected_amt = expected, expires_at = expires, intent_status = IntentPending,
         external_id = ext, intent_created_at = now, intent_updated_at = now\<rparr> (intents db)
      of (n, rows) \<Rightarrow> (if n = 0 then None else Some uuid, db\<lparr>intents := rows\<rparr>))"

definition get_intent_by_memo_id :: "64 word \<Rightarrow> deposit_db \<Rightarrow> intent option" where
  "get_intent_by_memo_id m db = intent_row db m"

text \<open>The \<open>UPDATE\<close> of \<open>SetIntentExternalID\<close> (its row count) and the \<open>SELECT\<close> that follows it.\<close>

definition set_external_id_update ::
  "instant \<Rightarrow> 64 word \<Rightarrow> string \<Rightarrow> deposit_db \<Rightarrow> nat \<times> deposit_db"
where
  "set_external_id_update now m ext db =
     (case update_where
        (\<lambda>i. memo_id i = to_bigint m \<and> (external_id i = None \<or> external_id i = Some ext))
        (\<lambda>i. i\<lparr>external_id := Some ext, intent_updated_at := now\<rparr>) (intents db)
      of (n, rows) \<Rightarrow> (n, db\<lparr>intents := rows\<rparr>))"

definition complete_intent_stmt :: "instant \<Rightarrow> 64 word \<Rightarrow> deposit_db \<Rightarrow> unit \<times> deposit_db" where
  "complete_intent_stmt now m db =
     (let (n, rows) = update_where
        (\<lambda>i. memo_id i = to_bigint m \<and> intent_status i \<in> {IntentPending, IntentExpired})
        (\<lambda>i. i\<lparr>intent_status := IntentCompleted, intent_updated_at := now\<rparr>) (intents db)
      in ((), db\<lparr>intents := rows\<rparr>))"

definition fail_intent_stmt :: "instant \<Rightarrow> 64 word \<Rightarrow> deposit_db \<Rightarrow> unit \<times> deposit_db" where
  "fail_intent_stmt now m db =
     (let (n, rows) = update_where
        (\<lambda>i. memo_id i = to_bigint m \<and> intent_status i = IntentPending)
        (\<lambda>i. i\<lparr>intent_status := IntentFailed, intent_updated_at := now\<rparr>) (intents db)
      in ((), db\<lparr>intents := rows\<rparr>))"

definition expire_stale_intents_stmt :: "instant \<Rightarrow> deposit_db \<Rightarrow> nat \<times> deposit_db" where
  "expire_stale_intents_stmt now db =
     (let (n, rows) = update_where
        (\<lambda>i. intent_status i = IntentPending \<and> expires_at i < now)
        (\<lambda>i. i\<lparr>intent_status := IntentExpired, intent_updated_at := now\<rparr>) (intents db)
      in (n, db\<lparr>intents := rows\<rparr>))"

section \<open>Forwards\<close>

definition new_forward ::
  "instant \<Rightarrow> nat \<Rightarrow> string \<Rightarrow> 64 word \<Rightarrow> string \<Rightarrow> string \<Rightarrow> string \<Rightarrow> string \<Rightarrow> instant \<Rightarrow> forward"
where
  "new_forward now i h m pool from_addr amt ass landed =
     \<lparr>fwd_id = i, tx_hash = h, fwd_memo_id = to_bigint m, from_address = from_addr, amount = amt,
      asset = ass, forward_tx = None, status = StatusPending, retries = 0, error_text = None,
      created_at = now, updated_at = now, fwd_pool = Some pool, submitted_tx = None,
      submitted_until = None, sweep = False, landed_at = Some landed, sweep_reason = None\<rparr>"

definition insert_forward_stmt ::
  "instant \<Rightarrow> string \<Rightarrow> 64 word \<Rightarrow> string \<Rightarrow> string \<Rightarrow> string \<Rightarrow> string \<Rightarrow> instant \<Rightarrow>
   deposit_db \<Rightarrow> bool \<times> deposit_db"
where
  "insert_forward_stmt now h m pool from_addr amt ass landed db =
     (case insert_unless (\<lambda>r. tx_hash r = h)
        (new_forward now (next_fwd_id db) h m pool from_addr amt ass landed) (forwards db)
      of (n, rows) \<Rightarrow> (n = 1, db\<lparr>forwards := rows, next_fwd_id := next_fwd_id db + 1\<rparr>))"

text \<open>An \<open>UPDATE forwards ... WHERE tx_hash = $n AND cond\<close> statement and its row count.\<close>

definition update_forward ::
  "string \<Rightarrow> (forward \<Rightarrow> bool) \<Rightarrow> (forward \<Rightarrow> forward) \<Rightarrow> deposit_db \<Rightarrow> nat \<times> deposit_db"
where
  "update_forward h cond f db =
     (case update_where (\<lambda>r. tx_hash r = h \<and> cond r) f (forwards db)
      of (n, rows) \<Rightarrow> (n, db\<lparr>forwards := rows\<rparr>))"

definition touch_row :: "instant \<Rightarrow> forward \<Rightarrow> forward" where
  "touch_row now r = r\<lparr>updated_at := now\<rparr>"

definition claim_new_forward_stmt :: "instant \<Rightarrow> string \<Rightarrow> deposit_db \<Rightarrow> bool \<times> deposit_db" where
  "claim_new_forward_stmt now h db =
     (case update_forward h (\<lambda>r. status r = StatusPending \<and> updated_at r = created_at r)
        (touch_row now) db
      of (n, db') \<Rightarrow> (n = 1, db'))"

definition claim_pending_forward_stmt ::
  "instant \<Rightarrow> string \<Rightarrow> instant \<Rightarrow> deposit_db \<Rightarrow> bool \<times> deposit_db"
where
  "claim_pending_forward_stmt now h seen db =
     (case update_forward h (\<lambda>r. status r = StatusPending \<and> updated_at r = seen)
        (touch_row now) db
      of (n, db') \<Rightarrow> (n = 1, db'))"

definition done_row :: "instant \<Rightarrow> string \<Rightarrow> forward \<Rightarrow> forward" where
  "done_row now x r =
     r\<lparr>status := StatusDone, forward_tx := Some x, submitted_tx := None,
       submitted_until := None, updated_at := now\<rparr>"

definition mark_forward_done_stmt ::
  "instant \<Rightarrow> string \<Rightarrow> string \<Rightarrow> deposit_db \<Rightarrow> unit \<times> deposit_db"
where
  "mark_forward_done_stmt now h x db = ((), snd (update_forward h (\<lambda>_. True) (done_row now x) db))"

definition sweep_row :: "instant \<Rightarrow> string \<Rightarrow> forward \<Rightarrow> forward" where
  "sweep_row now reason r =
     r\<lparr>sweep := True, sweep_reason := Some reason, error_text := Some reason, updated_at := now\<rparr>"

definition mark_sweep_stmt ::
  "instant \<Rightarrow> string \<Rightarrow> string \<Rightarrow> deposit_db \<Rightarrow> unit \<times> deposit_db"
where
  "mark_sweep_stmt now h reason db =
     ((), snd (update_forward h (\<lambda>_. True) (sweep_row now reason) db))"

definition swept_row :: "instant \<Rightarrow> string \<Rightarrow> forward \<Rightarrow> forward" where
  "swept_row now x r =
     r\<lparr>status := StatusSwept, forward_tx := Some x,
       error_text := Some (''swept to recovery: '' @
         (case sweep_reason r of None \<Rightarrow> ''reason not recorded'' | Some s \<Rightarrow> s)),
       submitted_tx := None, submitted_until := None, updated_at := now\<rparr>"

definition mark_swept_stmt ::
  "instant \<Rightarrow> string \<Rightarrow> string \<Rightarrow> deposit_db \<Rightarrow> unit \<times> deposit_db"
where
  "mark_swept_stmt now h x db = ((), snd (update_forward h (\<lambda>_. True) (swept_row now x) db))"

definition submission_row :: "instant \<Rightarrow> string \<Rightarrow> instant \<Rightarrow> forward \<Rightarrow> forward" where
  "submission_row now x until r =
     r\<lparr>submitted_tx := Some x, submitted_until := Some until, updated_at := now\<rparr>"

text \<open>\<open>False\<close> is \<open>RowsAffected() == 0\<close>, which \<open>RecordSubmission\<close> reports as \<open>ErrSubmissionClaimed\<close>.\<close>

definition holds_hash :: "string \<Rightarrow> forward \<Rightarrow> bool" where
  "holds_hash x r \<longleftrightarrow> submitted_tx r = Some x \<or> forward_tx r = Some x"

definition record_submission_stmt ::
  "instant \<Rightarrow> string \<Rightarrow> string \<Rightarrow> instant \<Rightarrow> deposit_db \<Rightarrow> bool \<times> deposit_db"
where
  "record_submission_stmt now h x until db =
     (case update_forward h
        (\<lambda>_. \<not> list_ex (\<lambda>r. tx_hash r \<noteq> h \<and> holds_hash x r) (forwards db))
        (submission_row now x until) db
      of (n, db') \<Rightarrow> (n \<noteq> 0, db'))"

definition clear_row :: "instant \<Rightarrow> forward \<Rightarrow> forward" where
  "clear_row now r = r\<lparr>submitted_tx := None, submitted_until := None, updated_at := now\<rparr>"

definition clear_submission_stmt :: "instant \<Rightarrow> string \<Rightarrow> deposit_db \<Rightarrow> unit \<times> deposit_db" where
  "clear_submission_stmt now h db = ((), snd (update_forward h (\<lambda>_. True) (clear_row now) db))"

definition failed_row :: "instant \<Rightarrow> fwd_status \<Rightarrow> string \<Rightarrow> forward \<Rightarrow> forward" where
  "failed_row now st msg r =
     r\<lparr>status := st, error_text := Some msg, retries := retries r + 1, updated_at := now\<rparr>"

definition mark_forward_failed_stmt ::
  "instant \<Rightarrow> string \<Rightarrow> fwd_status \<Rightarrow> string \<Rightarrow> deposit_db \<Rightarrow> unit \<times> deposit_db"
where
  "mark_forward_failed_stmt now h st msg db =
     ((), snd (update_forward h (\<lambda>_. True) (failed_row now st msg) db))"

definition requeue_row :: "instant \<Rightarrow> string \<Rightarrow> forward \<Rightarrow> forward" where
  "requeue_row now msg r =
     r\<lparr>status := StatusPendingRetry, error_text := Some msg, updated_at := now\<rparr>"

definition requeue_for_contention_stmt ::
  "instant \<Rightarrow> string \<Rightarrow> string \<Rightarrow> deposit_db \<Rightarrow> unit \<times> deposit_db"
where
  "requeue_for_contention_stmt now h msg db =
     ((), snd (update_forward h (\<lambda>_. True) (requeue_row now msg) db))"

definition perm_failed_row :: "instant \<Rightarrow> string \<Rightarrow> forward \<Rightarrow> forward" where
  "perm_failed_row now msg r =
     r\<lparr>status := StatusFailed, error_text := Some msg, updated_at := now\<rparr>"

definition permanently_fail_stmt ::
  "instant \<Rightarrow> string \<Rightarrow> string \<Rightarrow> deposit_db \<Rightarrow> unit \<times> deposit_db"
where
  "permanently_fail_stmt now h msg db =
     ((), snd (update_forward h (\<lambda>_. True) (perm_failed_row now msg) db))"

definition get_forward_by_memo_id_stmt :: "64 word \<Rightarrow> deposit_db \<Rightarrow> forward list" where
  "get_forward_by_memo_id_stmt m db =
     sort_key (\<lambda>r. - created_at r) (filter (\<lambda>r. fwd_memo_id r = to_bigint m) (forwards db))"

definition retryable :: "instant \<Rightarrow> forward \<Rightarrow> bool" where
  "retryable now r \<longleftrightarrow> status r = StatusPendingRetry \<or>
     status r = StatusPending \<and> updated_at r < now - 5 * minute"

text \<open>\<open>ORDER BY retries ASC, created_at ASC LIMIT 200\<close>: two stable sorts, the major key last.\<close>

definition get_pending_retries_stmt :: "instant \<Rightarrow> deposit_db \<Rightarrow> forward list" where
  "get_pending_retries_stmt now db =
     take 200 (sort_key retries (sort_key created_at (filter (retryable now) (forwards db))))"

section \<open>Cursors\<close>

definition get_cursor_stmt :: "string \<Rightarrow> deposit_db \<Rightarrow> string" where
  "get_cursor_stmt pool db =
     (case select_one (\<lambda>c. cursor_pool c = pool) (cursors db) of
        None \<Rightarrow> [] | Some c \<Rightarrow> cursor_token c)"

definition upsert_cursor_stmt :: "instant \<Rightarrow> string \<Rightarrow> string \<Rightarrow> deposit_db \<Rightarrow> unit \<times> deposit_db" where
  "upsert_cursor_stmt now pool tok db =
     (let row = \<lparr>cursor_pool = pool, cursor_token = tok, cursor_updated_at = now\<rparr>
      in ((), db\<lparr>cursors :=
           (if list_ex (\<lambda>c. cursor_pool c = pool) (cursors db)
            then snd (update_where (\<lambda>c. cursor_pool c = pool) (\<lambda>_. row) (cursors db))
            else cursors db @ [row])\<rparr>))"

section \<open>Invariants\<close>

text \<open>The unique indexes of the schema, and the two submission columns set together.\<close>

definition db_wf :: "deposit_db \<Rightarrow> bool" where
  "db_wf db \<longleftrightarrow> distinct (map tx_hash (forwards db)) \<and> distinct (map memo_id (intents db)) \<and>
     distinct (map cursor_pool (cursors db)) \<and>
     (\<forall>r \<in> set (forwards db). submitted_tx r = None \<longleftrightarrow> submitted_until r = None)"

text \<open>One outbound transaction is recorded, in flight or settled, against at most one deposit.\<close>

definition exclusive_hashes :: "deposit_db \<Rightarrow> bool" where
  "exclusive_hashes db \<longleftrightarrow>
     (\<forall>r \<in> set (forwards db). \<forall>s \<in> set (forwards db). \<forall>x.
        holds_hash x r \<longrightarrow> holds_hash x s \<longrightarrow> tx_hash r = tx_hash s)"

section \<open>Lemmas: numbers and look-ups\<close>

lemma from_to_bigint [simp]: "from_bigint (to_bigint w) = w"
  by (simp add: from_bigint_def to_bigint_def)

lemma to_bigint_inject [simp]: "to_bigint a = to_bigint b \<longleftrightarrow> a = b"
  by (metis from_to_bigint)

lemmas row_defs = touch_row_def done_row_def sweep_row_def swept_row_def submission_row_def
  clear_row_def failed_row_def requeue_row_def perm_failed_row_def

lemmas stmt_defs = claim_new_forward_stmt_def claim_pending_forward_stmt_def
  mark_forward_done_stmt_def mark_sweep_stmt_def mark_swept_stmt_def record_submission_stmt_def
  clear_submission_stmt_def mark_forward_failed_stmt_def requeue_for_contention_stmt_def
  permanently_fail_stmt_def

lemma fwd_row_key: "fwd_row db h = Some r \<Longrightarrow> tx_hash r = h \<and> r \<in> set (forwards db)"
  by (auto simp: fwd_row_def select_one_def dest: find_SomeD)

lemma fwd_row_mem:
  "distinct (map tx_hash (forwards db)) \<Longrightarrow> r \<in> set (forwards db) \<Longrightarrow> fwd_row db (tx_hash r) = Some r"
  by (simp add: fwd_row_def select_one_def distinct_find)

lemma fwd_row_None: "fwd_row db h = None \<longleftrightarrow> (\<forall>r \<in> set (forwards db). tx_hash r \<noteq> h)"
  by (auto simp: fwd_row_def select_one_def find_None_list_ex list_ex_iff)

text \<open>
  A row operation on \<open>forwards\<close>: it keeps the key, and sets or clears the two submission columns
  together. The nine \<open>UPDATE forwards\<close> statements of the store are its interpretations.
\<close>

locale forward_op = keyed_update tx_hash set_columns for set_columns :: "forward \<Rightarrow> forward" +
  assumes pair_kept: "(submitted_tx r = None \<longleftrightarrow> submitted_until r = None) \<Longrightarrow>
    (submitted_tx (set_columns r) = None \<longleftrightarrow> submitted_until (set_columns r) = None)"
begin

lemma forwards_after:
  "forwards (snd (update_forward h c set_columns db)) =
    snd (update_where (\<lambda>r. tx_hash r = h \<and> c r) set_columns (forwards db))"
  by (simp add: update_forward_def split: prod.splits)

lemma row_after:
  "fwd_row (snd (update_forward h c set_columns db)) h' =
    (if h' = h then map_option (\<lambda>r. if c r then set_columns r else r) (fwd_row db h)
     else fwd_row db h')"
proof -
  have eq: "fwd_row (snd (update_forward h c set_columns db)) h' =
    map_option (\<lambda>r. if tx_hash r = h \<and> c r then set_columns r else r) (fwd_row db h')"
    by (simp add: fwd_row_def select_one_def forwards_after lookup_after)
  show ?thesis
  proof (cases "fwd_row db h'")
    case None
    with eq show ?thesis by auto
  next
    case (Some r)
    with fwd_row_key have "tx_hash r = h'" by blast
    with eq Some show ?thesis by auto
  qed
qed

lemma count_after:
  assumes "db_wf db"
  shows "fst (update_forward h c set_columns db) =
    (case fwd_row db h of None \<Rightarrow> 0 | Some r \<Rightarrow> if c r then 1 else 0)"
  using assms affected [of "forwards db" h c]
  by (simp add: db_wf_def update_forward_def fwd_row_def select_one_def case_prod_beta)

lemma wf_after:
  assumes "db_wf db"
  shows "db_wf (snd (update_forward h c set_columns db))"
proof -
  have "map tx_hash (forwards (snd (update_forward h c set_columns db))) = map tx_hash (forwards db)"
    by (simp add: forwards_after keys_after)
  moreover have "submitted_tx r = None \<longleftrightarrow> submitted_until r = None"
    if "r \<in> set (forwards (snd (update_forward h c set_columns db)))" for r
    using that assms pair_kept by (auto simp: forwards_after update_where_def db_wf_def)
  ultimately show ?thesis
    using assms by (simp add: db_wf_def update_forward_def split: prod.splits)
qed

end

interpretation touch: forward_op "touch_row now" for now
  by unfold_locales (auto simp: touch_row_def)

interpretation done_op: forward_op "done_row now x" for now x
  by unfold_locales (auto simp: done_row_def)

interpretation sweep_op: forward_op "sweep_row now reason" for now reason
  by unfold_locales (auto simp: sweep_row_def)

interpretation swept_op: forward_op "swept_row now x" for now x
  by unfold_locales (auto simp: swept_row_def)

interpretation submission: forward_op "submission_row now x until" for now x until
  by unfold_locales (auto simp: submission_row_def)

interpretation clear: forward_op "clear_row now" for now
  by unfold_locales (auto simp: clear_row_def)

interpretation failed_op: forward_op "failed_row now st msg" for now st msg
  by unfold_locales (auto simp: failed_row_def)

interpretation requeue: forward_op "requeue_row now msg" for now msg
  by unfold_locales (auto simp: requeue_row_def)

interpretation perm_fail: forward_op "perm_failed_row now msg" for now msg
  by unfold_locales (auto simp: perm_failed_row_def)

section \<open>Lemmas: the row effect of each statement\<close>

lemma insert_forward_row [table_simps]:
  "fwd_row (snd (insert_forward_stmt now h m pool fa amt ass landed db)) h' =
    (case fwd_row db h' of
       Some r \<Rightarrow> Some r
     | None \<Rightarrow> if h' = h then Some (new_forward now (next_fwd_id db) h m pool fa amt ass landed)
               else None)"
proof -
  let ?r = "new_forward now (next_fwd_id db) h m pool fa amt ass landed"
  have key: "tx_hash ?r = h" by (simp add: new_forward_def)
  have "List.find (\<lambda>r. tx_hash r = h') (snd (insert_unless (\<lambda>r. tx_hash r = h) ?r (forwards db))) =
    (case List.find (\<lambda>r. tx_hash r = h') (forwards db) of
       Some r \<Rightarrow> Some r | None \<Rightarrow> if h' = tx_hash ?r then Some ?r else None)"
    by (rule insert_unless_lookup) (simp add: key)
  then show ?thesis
    by (simp add: insert_forward_stmt_def fwd_row_def select_one_def key case_prod_beta)
qed

lemma insert_forward_result:
  "fst (insert_forward_stmt now h m pool fa amt ass landed db) \<longleftrightarrow> fwd_row db h = None"
  by (auto simp: insert_forward_stmt_def insert_unless_def fwd_row_None list_ex_iff)

lemma insert_forward_wf:
  "db_wf db \<Longrightarrow> db_wf (snd (insert_forward_stmt now h m pool fa amt ass landed db))"
  by (auto simp: db_wf_def insert_forward_stmt_def insert_unless_def new_forward_def list_ex_iff
      split: if_splits)

lemma claim_new_row [table_simps]:
  "fwd_row (snd (claim_new_forward_stmt now h db)) h' =
    (if h' = h then map_option (\<lambda>r. if status r = StatusPending \<and> updated_at r = created_at r
        then touch_row now r else r) (fwd_row db h) else fwd_row db h')"
  by (simp add: claim_new_forward_stmt_def case_prod_beta touch.row_after)

lemma claim_pending_row [table_simps]:
  "fwd_row (snd (claim_pending_forward_stmt now h seen db)) h' =
    (if h' = h then map_option (\<lambda>r. if status r = StatusPending \<and> updated_at r = seen
        then touch_row now r else r) (fwd_row db h) else fwd_row db h')"
  by (simp add: claim_pending_forward_stmt_def case_prod_beta touch.row_after)

lemma claim_new_result:
  "db_wf db \<Longrightarrow> fst (claim_new_forward_stmt now h db) \<longleftrightarrow>
    (\<exists>r. fwd_row db h = Some r \<and> status r = StatusPending \<and> updated_at r = created_at r)"
  by (auto simp: claim_new_forward_stmt_def case_prod_beta touch.count_after
      split: option.splits if_splits)

lemma claim_pending_result:
  "db_wf db \<Longrightarrow> fst (claim_pending_forward_stmt now h seen db) \<longleftrightarrow>
    (\<exists>r. fwd_row db h = Some r \<and> status r = StatusPending \<and> updated_at r = seen)"
  by (auto simp: claim_pending_forward_stmt_def case_prod_beta touch.count_after
      split: option.splits if_splits)

lemma record_submission_row [table_simps]:
  "fwd_row (snd (record_submission_stmt now h x until db)) h' =
    (if h' = h \<and> \<not> list_ex (\<lambda>r. tx_hash r \<noteq> h \<and> holds_hash x r) (forwards db)
     then map_option (submission_row now x until) (fwd_row db h) else fwd_row db h')"
  by (simp add: record_submission_stmt_def case_prod_beta submission.row_after
      option.map_ident_strong)

lemma record_submission_result:
  "db_wf db \<Longrightarrow> fst (record_submission_stmt now h x until db) \<longleftrightarrow>
    fwd_row db h \<noteq> None \<and> \<not> list_ex (\<lambda>r. tx_hash r \<noteq> h \<and> holds_hash x r) (forwards db)"
  by (auto simp: record_submission_stmt_def case_prod_beta submission.count_after
      split: option.splits if_splits)

lemma unconditional_rows [table_simps]:
  "fwd_row (snd (mark_forward_done_stmt now h x db)) h' =
    (if h' = h then map_option (done_row now x) (fwd_row db h) else fwd_row db h')"
  "fwd_row (snd (mark_sweep_stmt now h reason db)) h' =
    (if h' = h then map_option (sweep_row now reason) (fwd_row db h) else fwd_row db h')"
  "fwd_row (snd (mark_swept_stmt now h x db)) h' =
    (if h' = h then map_option (swept_row now x) (fwd_row db h) else fwd_row db h')"
  "fwd_row (snd (clear_submission_stmt now h db)) h' =
    (if h' = h then map_option (clear_row now) (fwd_row db h) else fwd_row db h')"
  "fwd_row (snd (mark_forward_failed_stmt now h st msg db)) h' =
    (if h' = h then map_option (failed_row now st msg) (fwd_row db h) else fwd_row db h')"
  "fwd_row (snd (requeue_for_contention_stmt now h msg db)) h' =
    (if h' = h then map_option (requeue_row now msg) (fwd_row db h) else fwd_row db h')"
  "fwd_row (snd (permanently_fail_stmt now h msg db)) h' =
    (if h' = h then map_option (perm_failed_row now msg) (fwd_row db h) else fwd_row db h')"
  by (simp_all add: mark_forward_done_stmt_def mark_sweep_stmt_def mark_swept_stmt_def
      clear_submission_stmt_def mark_forward_failed_stmt_def requeue_for_contention_stmt_def
      permanently_fail_stmt_def done_op.row_after sweep_op.row_after swept_op.row_after
      clear.row_after failed_op.row_after requeue.row_after perm_fail.row_after)

lemma forward_stmts_wf:
  assumes "db_wf db"
  shows "db_wf (snd (claim_new_forward_stmt now h db))"
    and "db_wf (snd (claim_pending_forward_stmt now h seen db))"
    and "db_wf (snd (mark_forward_done_stmt now h x db))"
    and "db_wf (snd (mark_sweep_stmt now h reason db))"
    and "db_wf (snd (mark_swept_stmt now h x db))"
    and "db_wf (snd (record_submission_stmt now h x until db))"
    and "db_wf (snd (clear_submission_stmt now h db))"
    and "db_wf (snd (mark_forward_failed_stmt now h st msg db))"
    and "db_wf (snd (requeue_for_contention_stmt now h msg db))"
    and "db_wf (snd (permanently_fail_stmt now h msg db))"
  using assms
  by (simp_all add: stmt_defs case_prod_beta touch.wf_after done_op.wf_after sweep_op.wf_after
      swept_op.wf_after submission.wf_after clear.wf_after failed_op.wf_after requeue.wf_after
      perm_fail.wf_after)

lemma intent_stmts_wf:
  assumes "db_wf db"
  shows "db_wf (snd (complete_intent_stmt now m db))"
    and "db_wf (snd (fail_intent_stmt now m db))"
    and "db_wf (snd (expire_stale_intents_stmt now db))"
    and "db_wf (snd (set_external_id_update now m ext db))"
    and "db_wf (snd (insert_intent now uuid m ca pool ea ex ext' db))"
    and "db_wf (snd (upsert_cursor_stmt now pool tok db))"
proof -
  have keys: "map memo_id (map (\<lambda>i. if p i then f i else i) is) = map memo_id is"
    if "\<And>i. memo_id (f i) = memo_id i" for p f and "is" :: "intent list"
    using that by auto
  show "db_wf (snd (complete_intent_stmt now m db))"
    and "db_wf (snd (fail_intent_stmt now m db))"
    and "db_wf (snd (expire_stale_intents_stmt now db))"
    and "db_wf (snd (set_external_id_update now m ext db))"
    using assms
    by (simp_all add: db_wf_def complete_intent_stmt_def fail_intent_stmt_def
        expire_stale_intents_stmt_def set_external_id_update_def update_where_def keys
        del: map_map)
  show "db_wf (snd (insert_intent now uuid m ca pool ea ex ext' db))"
    using assms by (auto simp: db_wf_def insert_intent_def insert_unless_def list_ex_iff)
  have "map cursor_pool (map (\<lambda>c. if cursor_pool c = pool
      then \<lparr>cursor_pool = pool, cursor_token = tok, cursor_updated_at = now\<rparr> else c) cs) =
    map cursor_pool cs" for cs
    by auto
  then show "db_wf (snd (upsert_cursor_stmt now pool tok db))"
    using assms
    by (auto simp: db_wf_def upsert_cursor_stmt_def update_where_def list_ex_iff Let_def
        simp del: map_map)
qed

end
