(* ===== verification/Soroban.thy ===== *)
theory Soroban
  imports Prelude
begin

text \<open>
  Soroban values as the source handles them: contract values, host functions and authorization
  entries, with the constructors of the \<open>xdr\<close> package it names and every other arm by its type's
  name. A decoded union always has the arm its discriminant says, so the source's nil checks on
  arms coincide with its type checks.
\<close>

text \<open>An address value: an account, a contract, or another kind by its encoding.\<close>

datatype sc_address = AccountAddress string | ContractAddress string | OtherAddress string

datatype sc_val =
    ScvAddress sc_address
  | ScvI128 (i128_hi: "64 word") (i128_lo: "64 word")
  | ScvU32 "32 word"
  | ScvSymbol string
  | ScvBytes string
  | ScvVec "sc_val list"
  | ScvMap "(sc_val \<times> sc_val) list"
  | ScvVoid
  | ScvOther string

record invoke_args =
  inv_contract :: sc_address
  inv_function :: string
  inv_args :: "sc_val list"

datatype host_function = InvokeContract invoke_args | OtherHostFunction string

record address_creds =
  cred_address :: sc_address
  cred_nonce :: int
  cred_expiration :: "32 word"
  cred_signature :: sc_val

datatype credentials =
    CredAddress address_creds
  | CredAddressV2 address_creds
  | CredSourceAccount
  | CredOther string

datatype authorized_fn = ContractFn invoke_args | OtherAuthorizedFn string

datatype invocation = Invocation (invocation_fn: authorized_fn) (invocation_subs: "invocation list")

record auth_entry =
  entry_creds :: credentials
  entry_root :: invocation

text \<open>\<open>scI128\<close>: a non-negative \<open>i128\<close> that fits in an \<open>int64\<close>.\<close>

definition sc_i128 :: "sc_val \<Rightarrow> string + int" where
  "sc_i128 v =
     (case v of
        ScvI128 hi lo \<Rightarrow>
          if hi \<noteq> 0 \<or> uint lo > 2 ^ 63 - 1 then Inl ''i128 out of range'' else Inr (uint lo)
      | _ \<Rightarrow> Inl ''not an i128'')"

text \<open>\<open>i128\<close>: \<open>xdr.Uint64(n)\<close> of an \<open>int64\<close>, with a zero high part.\<close>

definition i128 :: "int \<Rightarrow> sc_val" where
  "i128 n = ScvI128 0 (word_of_int n)"

text \<open>What \<open>i128\<close> writes for an amount, \<open>scI128\<close> reads back; a negative amount it refuses.\<close>

lemma sc_i128_i128: "0 \<le> n \<Longrightarrow> n < 2 ^ 63 \<Longrightarrow> sc_i128 (i128 n) = Inr n"
  by (simp add: sc_i128_def i128_def uint_word_of_int)

lemma sc_i128_range: "sc_i128 v = Inr n \<Longrightarrow> 0 \<le> n \<and> n < 2 ^ 63"
  by (auto simp: sc_i128_def split: sc_val.splits if_splits)

end
