(* ===== verification/Stellar.thy ===== *)
theory Stellar
  imports Soroban "HOL-Library.Signed_Division"
begin

text \<open>
  The boundary to the Stellar SDK, Horizon and Stellar RPC, none of which is in the repository.
  Data that crosses it is given its own types here (transactions as the source fills them in,
  responses as it reads them); what the SDK computes is a field of the record \<open>sdk\<close>, a parameter
  of every definition that uses it. Signatures are kept as the list of signing addresses.
\<close>

section \<open>Fixed-width arithmetic\<close>

text \<open>Go's \<open>int64\<close> arithmetic wraps; \<open>int64 x\<close> is the value a 64-bit result \<open>x\<close> is read back as.\<close>

definition int64 :: "int \<Rightarrow> int" where
  "int64 x = sint (word_of_int x :: 64 word)"

definition max_int64 :: int where
  "max_int64 = 2 ^ 63 - 1"

section \<open>Results and responses\<close>

text \<open>The \<open>xdr.TransactionResultCode\<close> values the source names, and every other one by number.\<close>

datatype result_code = TxFeeBumpInnerSuccess | TxFeeBumpInnerFailed | TxInsufficientFee | TxBadSeq
  | TxTooEarly | TxTooLate | TxInternalError | OtherCode int

record tx_result =
  result_code :: result_code
  inner_code :: "result_code option"
  fee_charged :: int

text \<open>Decoding base64 XDR: the base64 error, the unmarshal error, or the value.\<close>

datatype 'a xdr_decode = BadBase64 string | BadXDR string | Decoded 'a

datatype tx_status = TxSuccess | TxFailed | TxNotFound | TxOtherStatus string

record tx_response =
  tx_status :: tx_status
  result_xdr :: string
  latest_ledger_close_time :: int
  oldest_ledger_close_time :: int

datatype send_status = SendPENDING | SendDUPLICATE | SendTRY_AGAIN_LATER | SendERROR | SendOther string

record send_response =
  send_status :: send_status
  send_hash :: string
  error_result_xdr :: string

record sim_response =
  sim_error :: string
  sim_data_xdr :: string
  min_resource_fee :: int

record hz_balance =
  bal_code :: string
  bal_issuer :: string
  is_authorized :: "bool option"

text \<open>\<open>hz_sequence\<close> is the outcome of \<open>GetSequenceNumber\<close> on the account Horizon returned.\<close>

record hz_account =
  hz_sequence :: "string + int"
  hz_balances :: "hz_balance list"

section \<open>Transactions\<close>

datatype asset = NativeAsset | CreditAsset (asset_code: string) (asset_issuer: string)

record keypair =
  kp_address :: string
  kp_seed :: string

datatype operation =
    PaymentToContract (op_passphrase: string) (op_dest: string) (op_amount: string) (op_asset: asset)
      (op_source: string)
  | Payment (op_dest: string) (op_amount: string) (op_asset: asset) (op_source: string)
  | InvokeHostFunction (op_host_function: host_function) (op_auth: "auth_entry list")

record soroban_data =
  resource_fee :: int
  footprint :: string

record tx_envelope =
  env_source :: string
  env_seq :: int
  env_ops :: "operation list"
  env_memo :: "string option"
  env_fee :: "32 word"
  env_max_time :: int
  env_soroban :: "soroban_data option"

record signed_tx =
  stx_env :: tx_envelope
  stx_signers :: "string list"

record fee_bump =
  fb_source :: string
  fb_fee :: int
  fb_inner :: signed_tx
  fb_signers :: "string list"

text \<open>An XDR envelope as \<open>ToXDR\<close> gives it: a v1 transaction, or another envelope type by name.\<close>

datatype xdr_envelope = EnvTx signed_tx | EnvOtherType string

text \<open>\<open>txnbuild.MinBaseFee\<close>, in stroops.\<close>

definition min_base_fee :: int where
  "min_base_fee = 100"

section \<open>The SDK\<close>

record sdk =
  code_string :: "result_code \<Rightarrow> string"
  decode_result_xdr :: "string \<Rightarrow> tx_result xdr_decode"
  decode_soroban_data :: "string \<Rightarrow> soroban_data xdr_decode"
  payment_to_contract_error :: "operation \<Rightarrow> string option"
  new_transaction_error :: "tx_envelope \<Rightarrow> string option"
  marshal_base64 :: "tx_envelope \<Rightarrow> string + string"
  tx_from_xdr :: "string \<Rightarrow> string + tx_envelope option"
  sign_error :: "string \<Rightarrow> keypair list \<Rightarrow> tx_envelope \<Rightarrow> string option"
  tx_base64 :: "signed_tx \<Rightarrow> string + string"
  tx_hash_hex :: "string \<Rightarrow> signed_tx \<Rightarrow> string + string"
  set_address_error :: "string \<Rightarrow> string option"
  fb_marshal_base64 :: "fee_bump \<Rightarrow> string + string"
  fb_from_xdr :: "string \<Rightarrow> string + fee_bump option"
  fb_sign_error :: "string \<Rightarrow> keypair \<Rightarrow> fee_bump \<Rightarrow> string option"
  fb_base64 :: "fee_bump \<Rightarrow> string + string"
  fb_hash_hex :: "string \<Rightarrow> fee_bump \<Rightarrow> string + string"

text \<open>\<open>tx.Sign\<close>: the SDK signs with every key, or fails.\<close>

definition sign_tx :: "sdk \<Rightarrow> string \<Rightarrow> keypair list \<Rightarrow> tx_envelope \<Rightarrow> string + signed_tx" where
  "sign_tx k passphrase keys env =
     (case sign_error k passphrase keys env of
        Some m \<Rightarrow> Inl m
      | None \<Rightarrow> Inr \<lparr>stx_env = env, stx_signers = map kp_address keys\<rparr>)"

definition sign_fee_bump :: "sdk \<Rightarrow> string \<Rightarrow> keypair \<Rightarrow> fee_bump \<Rightarrow> string + fee_bump" where
  "sign_fee_bump k passphrase kp fb =
     (case fb_sign_error k passphrase kp fb of
        Some m \<Rightarrow> Inl m
      | None \<Rightarrow> Inr (fb\<lparr>fb_signers := fb_signers fb @ [kp_address kp]\<rparr>))"

text \<open>
  An answer of \<open>ERROR\<close> or \<open>TRY_AGAIN_LATER\<close> to \<open>sendTransaction\<close> means the transaction was not queued;
  any other answer, or none, leaves that open.
\<close>

definition may_be_queued :: "string + send_response \<Rightarrow> bool" where
  "may_be_queued r \<longleftrightarrow>
     (case r of Inl m \<Rightarrow> True
      | Inr resp \<Rightarrow> send_status resp \<noteq> SendERROR \<and> send_status resp \<noteq> SendTRY_AGAIN_LATER)"

text \<open>The inner transaction's code for a fee-bump result, as both services read it.\<close>

definition effective_code :: "tx_result \<Rightarrow> result_code" where
  "effective_code r =
     (if result_code r = TxFeeBumpInnerFailed \<or> result_code r = TxFeeBumpInnerSuccess
      then (case inner_code r of None \<Rightarrow> result_code r | Some c \<Rightarrow> c)
      else result_code r)"

lemma int64_id: "- (2 ^ 63) \<le> x \<Longrightarrow> x < 2 ^ 63 \<Longrightarrow> int64 x = x"
  by (simp add: int64_def int_word_sint)

lemma int64_mod: "int64 x = (x + 2 ^ 63) mod 2 ^ 64 - 2 ^ 63"
  by (simp add: int64_def int_word_sint)

end
