(* ===== verification/Runtime.thy ===== *)
theory Runtime
  imports Stellar
begin

text \<open>
  What surrounds a running service. Every call that leaves the process (a SQL statement, an RPC
  or Horizon request, a clock read, a \<open>select\<close> on a context) is answered by the record \<open>runtime\<close>,
  indexed by the number of the call, so no two calls need agree and every theorem holds for all
  answers. \<open>tick\<close> counts the calls. A database statement can fail without effect, or take effect
  with its answer lost (\<open>DbLost\<close>). A crash of the process after call \<open>n\<close> leaves the same stored
  state as a runtime in which every later statement and send fails, so crashes are covered too.
\<close>

datatype db_reply = DbOk | DbErr string | DbLost string

record runtime =
  db_reply :: "nat \<Rightarrow> db_reply"
  db_now :: "nat \<Rightarrow> instant"
  clock :: "nat \<Rightarrow> instant"
  ctx_done :: "nat \<Rightarrow> bool"
  ctx_err :: "nat \<Rightarrow> string"
  random_uint63 :: "nat \<Rightarrow> nat"
  random_uuid :: "nat \<Rightarrow> string"
  random_token :: "nat \<Rightarrow> string + string"
  random_jitter :: "nat \<Rightarrow> nat"
  account_detail :: "nat \<Rightarrow> string \<Rightarrow> string + hz_account"
  simulate_transaction :: "nat \<Rightarrow> string \<Rightarrow> string + sim_response"
  send_transaction :: "nat \<Rightarrow> string \<Rightarrow> string + send_response"
  poll_transaction :: "nat \<Rightarrow> string \<Rightarrow> string + tx_response"
  get_transaction :: "nat \<Rightarrow> string \<Rightarrow> string + tx_response"

record base_world =
  tick :: nat

text \<open>The number of the next external call.\<close>

definition next_call :: "('w base_world_scheme, nat) state" where
  "next_call = State (\<lambda>w. (tick w, w\<lparr>tick := Suc (tick w)\<rparr>))"

text \<open>One external question: the runtime's answer to the current call.\<close>

definition ask :: "(nat \<Rightarrow> 'a) \<Rightarrow> ('w base_world_scheme, 'a) state" where
  "ask answer = State (\<lambda>w. (answer (tick w), w\<lparr>tick := Suc (tick w)\<rparr>))"

text \<open>
  A SQL statement against the part of the world that \<open>get\<close> reads and \<open>put\<close> replaces. \<open>NOW()\<close> is
  the database clock at the call.
\<close>

definition db_stmt ::
  "runtime \<Rightarrow> ('w base_world_scheme \<Rightarrow> 'd) \<Rightarrow>
   (('d \<Rightarrow> 'd) \<Rightarrow> 'w base_world_scheme \<Rightarrow> 'w base_world_scheme) \<Rightarrow>
   (instant \<Rightarrow> 'd \<Rightarrow> 'a \<times> 'd) \<Rightarrow> ('w base_world_scheme, string + 'a) state"
where
  "db_stmt e get put stmt = State (\<lambda>w.
     (let n = tick w; w' = w\<lparr>tick := Suc n\<rparr>; (a, d) = stmt (db_now e n) (get w) in
      case db_reply e n of
        DbOk \<Rightarrow> (Inr a, put (\<lambda>_. d) w')
      | DbErr m \<Rightarrow> (Inl m, w')
      | DbLost m \<Rightarrow> (Inl m, put (\<lambda>_. d) w')))"

text \<open>Prefix an error, as \<open>fmt.Errorf("prefix: %w", err)\<close> does.\<close>

definition wrap_err :: "string \<Rightarrow> string + 'a \<Rightarrow> string + 'a" where
  "wrap_err p r = (case r of Inl m \<Rightarrow> Inl (p @ m) | Inr a \<Rightarrow> Inr a)"

lemma wp_ask [simp]: "wp (ask f) Q w = Q (f (tick w)) (w\<lparr>tick := Suc (tick w)\<rparr>)"
  by (simp add: wp_def ask_def)

text \<open>
  A statement ends in one of three ways: applied and acknowledged, refused, or applied with the
  acknowledgement lost. \<open>NOW()\<close> is the clock at the call in each.
\<close>

lemma wp_db_stmt:
  assumes "\<And>a. a = fst (stmt (db_now e (tick w)) (get w)) \<Longrightarrow>
      Q (Inr a) (put (\<lambda>_. snd (stmt (db_now e (tick w)) (get w))) (w\<lparr>tick := Suc (tick w)\<rparr>))"
    and "\<And>m. Q (Inl m) (w\<lparr>tick := Suc (tick w)\<rparr>)"
    and "\<And>m. Q (Inl m) (put (\<lambda>_. snd (stmt (db_now e (tick w)) (get w))) (w\<lparr>tick := Suc (tick w)\<rparr>))"
  shows "wp (db_stmt e get put stmt) Q w"
  using assms
  by (simp add: wp_def db_stmt_def Let_def case_prod_beta split: db_reply.splits)

section \<open>A concrete runtime\<close>

text \<open>Every statement and call succeeds, and every transaction looked up has landed.\<close>

definition demo_runtime :: runtime where
  "demo_runtime =
     (let landed = \<lparr>tx_status = TxSuccess, result_xdr = [], latest_ledger_close_time = 200,
                    oldest_ledger_close_time = 0\<rparr>
      in \<lparr>db_reply = (\<lambda>n. DbOk), db_now = int, clock = (\<lambda>n. 0), ctx_done = (\<lambda>n. False), ctx_err = (\<lambda>n. []),
          random_uint63 = (\<lambda>n. n), random_uuid = (\<lambda>n. show_nat n), random_token = (\<lambda>n. Inr (show_nat n)),
          random_jitter = (\<lambda>n. n),
          account_detail = (\<lambda>n a. Inr \<lparr>hz_sequence = Inr 7, hz_balances = []\<rparr>),
          simulate_transaction = (\<lambda>n b. Inl ''no''),
          send_transaction = (\<lambda>n b. Inr \<lparr>send_status = SendPENDING, send_hash = ''OUT'', error_result_xdr = []\<rparr>),
          poll_transaction = (\<lambda>n x. Inr landed), get_transaction = (\<lambda>n x. Inr landed)\<rparr>)"

end
