(* ===== verification/Channels.thy ===== *)
theory Channels
  imports Runtime "HOL-Library.Option_ord"
begin

text \<open>
  Package \<open>internal/gasless/channels\<close>: the table of channel accounts and the lease protocol both
  services use to source transactions. Each method of \<open>channels.Pool\<close> is its SQL statement (as a
  function of \<open>NOW()\<close>) and, where the Go code adds control flow, a computation over any world with
  a channel table. The lemmas give the contract the callers rely on: a lease is exclusive until
  it is released or expires, a stale holder cannot release, and the sequence number handed on is
  the one the previous holder recorded, or is reloaded.
\<close>

datatype channel_status = ChActive | ChDisabled | ChRetired

record channel_row =
  ch_id :: nat
  hd_index :: int
  ch_address :: string
  ch_status :: channel_status
  disabled_reason :: "string option"
  ch_seq :: "int option"
  needs_resync :: bool
  lease_token :: "string option"
  leased_by :: "string option"
  lease_expires_at :: "instant option"
  last_used_at :: "instant option"
  balance_stroops :: "int option"
  balance_checked_at :: "instant option"
  ch_updated_at :: instant

record channel_db =
  ch_rows :: "channel_row list"
  next_ch_id :: nat

record lease =
  channel_id :: nat
  lease_index :: int
  lease_address :: string
  lease_tok :: string
  lease_seq :: int
  lease_needs_resync :: bool

datatype pool_error = ErrPoolCapacity | ErrLeaseLost | PoolErr string

definition pool_error_string :: "pool_error \<Rightarrow> string" where
  "pool_error_string err =
     (case err of ErrPoolCapacity \<Rightarrow> ''all channels are busy'' | ErrLeaseLost \<Rightarrow> ''channel lease lost''
      | PoolErr m \<Rightarrow> m)"

section \<open>Sync\<close>

text \<open>
  The \<open>INSERT ... ON CONFLICT (hd_index) DO UPDATE\<close> of one channel. \<open>None\<close> is the unique index on
  \<open>address\<close> refusing an address another index holds.
\<close>

definition fresh_channel :: "instant \<Rightarrow> nat \<Rightarrow> int \<Rightarrow> string \<Rightarrow> channel_row" where
  "fresh_channel now i idx addr =
     \<lparr>ch_id = i, hd_index = idx, ch_address = addr, ch_status = ChActive, disabled_reason = None,
      ch_seq = None, needs_resync = True, lease_token = None, leased_by = None,
      lease_expires_at = None, last_used_at = None, balance_stroops = None,
      balance_checked_at = None, ch_updated_at = now\<rparr>"

definition resync_channel :: "instant \<Rightarrow> string \<Rightarrow> channel_row \<Rightarrow> channel_row" where
  "resync_channel now addr c =
     c\<lparr>ch_address := addr,
       ch_status := (if ch_address c \<noteq> addr \<or> ch_status c = ChRetired then ChActive else ch_status c),
       disabled_reason := (if ch_address c \<noteq> addr then None else disabled_reason c),
       ch_seq := (if ch_address c \<noteq> addr then None else ch_seq c),
       needs_resync := (needs_resync c \<or> ch_address c \<noteq> addr),
       ch_updated_at := now\<rparr>"

definition upsert_channel :: "instant \<Rightarrow> int \<times> string \<Rightarrow> channel_db \<Rightarrow> channel_db option" where
  "upsert_channel now ch db =
     (case ch of (idx, addr) \<Rightarrow>
        if list_ex (\<lambda>c. hd_index c \<noteq> idx \<and> ch_address c = addr) (ch_rows db) then None
        else if list_ex (\<lambda>c. hd_index c = idx) (ch_rows db)
        then Some (db\<lparr>ch_rows := snd (update_where (\<lambda>c. hd_index c = idx) (resync_channel now addr) (ch_rows db)),
                      next_ch_id := next_ch_id db + 1\<rparr>)
        else Some (db\<lparr>ch_rows := ch_rows db @ [fresh_channel now (next_ch_id db) idx addr],
                      next_ch_id := next_ch_id db + 1\<rparr>))"

fun upsert_all :: "instant \<Rightarrow> (int \<times> string) list \<Rightarrow> channel_db \<Rightarrow> channel_db option" where
  "upsert_all now [] db = Some db"
| "upsert_all now (ch # chs) db =
     (case upsert_channel now ch db of None \<Rightarrow> None | Some db' \<Rightarrow> upsert_all now chs db')"

definition retire_row :: "instant \<Rightarrow> channel_row \<Rightarrow> channel_row" where
  "retire_row now c = c\<lparr>ch_status := ChRetired, ch_updated_at := now\<rparr>"

text \<open>\<open>Pool.Sync\<close>: one transaction, so \<open>False\<close> (an error) leaves the table as it was.\<close>

definition sync_stmt :: "instant \<Rightarrow> (int \<times> string) list \<Rightarrow> channel_db \<Rightarrow> bool \<times> channel_db" where
  "sync_stmt now chs db =
     (case upsert_all now chs db of
        None \<Rightarrow> (False, db)
      | Some db' \<Rightarrow>
          (True, db'\<lparr>ch_rows := snd (update_where
             (\<lambda>c. int (length chs) \<le> hd_index c \<and> ch_status c \<noteq> ChRetired) (retire_row now) (ch_rows db'))\<rparr>))"

section \<open>Acquire and release\<close>

definition leasable :: "instant \<Rightarrow> channel_row \<Rightarrow> bool" where
  "leasable now c \<longleftrightarrow> ch_status c = ChActive \<and>
     (lease_token c = None \<or> (case lease_expires_at c of None \<Rightarrow> False | Some t \<Rightarrow> t < now))"

text \<open>\<open>ORDER BY last_used_at NULLS FIRST, hd_index LIMIT 1\<close>; \<open>None\<close> is the least option value.\<close>

definition pick_channel :: "instant \<Rightarrow> channel_db \<Rightarrow> channel_row option" where
  "pick_channel now db =
     (case sort_key last_used_at (sort_key hd_index (filter (leasable now) (ch_rows db))) of
        [] \<Rightarrow> None | c # _ \<Rightarrow> Some c)"

definition lease_row :: "instant \<Rightarrow> string \<Rightarrow> string \<Rightarrow> duration \<Rightarrow> channel_row \<Rightarrow> channel_row" where
  "lease_row now tok inst ttl c =
     c\<lparr>lease_token := Some tok, leased_by := Some inst, lease_expires_at := Some (now + ttl),
       last_used_at := Some now,
       needs_resync := (needs_resync c \<or> lease_expires_at c \<noteq> None), ch_updated_at := now\<rparr>"

definition lease_of :: "string \<Rightarrow> channel_row \<Rightarrow> lease" where
  "lease_of tok c =
     \<lparr>channel_id = ch_id c, lease_index = hd_index c, lease_address = ch_address c, lease_tok = tok,
      lease_seq = (case ch_seq c of None \<Rightarrow> 0 | Some s \<Rightarrow> s),
      lease_needs_resync = (case ch_seq c of None \<Rightarrow> True | Some _ \<Rightarrow> needs_resync c)\<rparr>"

definition acquire_stmt ::
  "string \<Rightarrow> string \<Rightarrow> duration \<Rightarrow> instant \<Rightarrow> channel_db \<Rightarrow> lease option \<times> channel_db"
where
  "acquire_stmt tok inst ttl now db =
     (case pick_channel now db of
        None \<Rightarrow> (None, db)
      | Some p \<Rightarrow>
          (Some (lease_of tok (lease_row now tok inst ttl p)),
           db\<lparr>ch_rows := snd (update_where (\<lambda>c. ch_id c = ch_id p) (lease_row now tok inst ttl) (ch_rows db))\<rparr>))"

definition release_row :: "instant \<Rightarrow> int option \<Rightarrow> bool \<Rightarrow> channel_row \<Rightarrow> channel_row" where
  "release_row now s resync c =
     c\<lparr>lease_token := None, leased_by := None, lease_expires_at := None,
       ch_seq := (case s of None \<Rightarrow> ch_seq c | Some v \<Rightarrow> Some v), needs_resync := resync,
       ch_updated_at := now\<rparr>"

text \<open>\<open>False\<close> is \<open>RowsAffected() == 0\<close>, reported as \<open>ErrLeaseLost\<close>.\<close>

definition release_stmt ::
  "lease \<Rightarrow> int option \<Rightarrow> bool \<Rightarrow> instant \<Rightarrow> channel_db \<Rightarrow> bool \<times> channel_db"
where
  "release_stmt l s resync now db =
     (case update_where (\<lambda>c. ch_id c = channel_id l \<and> lease_token c = Some (lease_tok l))
        (release_row now s resync) (ch_rows db)
      of (n, rows) \<Rightarrow> (n \<noteq> 0, db\<lparr>ch_rows := rows\<rparr>))"

section \<open>Balances and counts\<close>

definition balance_row :: "instant \<Rightarrow> int \<Rightarrow> int \<Rightarrow> channel_row \<Rightarrow> channel_row" where
  "balance_row now bal minimum c =
     c\<lparr>balance_stroops := (if bal < 0 then None else Some bal), balance_checked_at := Some now,
       ch_status := (if ch_status c = ChRetired then ch_status c
                     else if bal < 0 \<or> bal < minimum then ChDisabled else ChActive),
       disabled_reason := (if ch_status c = ChRetired then disabled_reason c
                     else if bal < 0 then Some ''account not found on network''
                     else if bal < minimum then Some ''balance below CHANNEL_MIN_XLM'' else None),
       ch_updated_at := now\<rparr>"

definition record_balance_stmt ::
  "int \<Rightarrow> int \<Rightarrow> int \<Rightarrow> instant \<Rightarrow> channel_db \<Rightarrow> unit \<times> channel_db"
where
  "record_balance_stmt idx bal minimum now db =
     ((), db\<lparr>ch_rows := snd (update_where (\<lambda>c. hd_index c = idx) (balance_row now bal minimum) (ch_rows db))\<rparr>)"

record channel_stats =
  stats_active :: nat
  stats_leased :: nat
  stats_disabled :: nat
  stats_retired :: nat

definition stats_stmt :: "instant \<Rightarrow> channel_db \<Rightarrow> channel_stats" where
  "stats_stmt now db =
     \<lparr>stats_active = length (filter (\<lambda>c. ch_status c = ChActive) (ch_rows db)),
      stats_leased = length (filter (\<lambda>c. ch_status c = ChActive \<and> lease_token c \<noteq> None \<and>
         (case lease_expires_at c of None \<Rightarrow> False | Some t \<Rightarrow> now \<le> t)) (ch_rows db)),
      stats_disabled = length (filter (\<lambda>c. ch_status c = ChDisabled) (ch_rows db)),
      stats_retired = length (filter (\<lambda>c. ch_status c = ChRetired) (ch_rows db))\<rparr>"

section \<open>The pool as the services call it\<close>

record pool_world = base_world +
  channels :: channel_db

definition acquire :: "runtime \<Rightarrow> string \<Rightarrow> duration \<Rightarrow> ('w pool_world_scheme, pool_error + lease) state" where
  "acquire e inst ttl = do {
     tok \<leftarrow> ask (random_token e);
     (case tok of
        Inl m \<Rightarrow> ret (Inl (PoolErr (''lease token: '' @ m)))
      | Inr t \<Rightarrow> do {
          r \<leftarrow> db_stmt e channels channels_update (acquire_stmt t inst ttl);
          ret (case r of
                 Inl m \<Rightarrow> Inl (PoolErr (''acquire channel: '' @ m))
               | Inr None \<Rightarrow> Inl ErrPoolCapacity
               | Inr (Some l) \<Rightarrow> Inr l) })
   }"

definition release ::
  "runtime \<Rightarrow> lease \<Rightarrow> int option \<Rightarrow> bool \<Rightarrow> ('w pool_world_scheme, pool_error option) state"
where
  "release e l s resync = do {
     r \<leftarrow> db_stmt e channels channels_update (release_stmt l s resync);
     ret (case r of
            Inl m \<Rightarrow> Some (PoolErr (''release channel '' @ show_int (lease_index l) @ '': '' @ m))
          | Inr False \<Rightarrow> Some ErrLeaseLost
          | Inr True \<Rightarrow> None)
   }"

text \<open>
  \<open>AcquireWait\<close>. The loop reads the process clock after each refusal and sleeps at least 50ms;
  \<open>time.After(d)\<close> fires no earlier than \<open>d\<close> later on the monotonic clock, so the next reading is
  at least the last one plus the pause. That is what ends the loop.
\<close>

function acquire_loop ::
  "runtime \<Rightarrow> string \<Rightarrow> duration \<Rightarrow> instant \<Rightarrow> instant \<Rightarrow> 'w pool_world_scheme \<Rightarrow>
   (pool_error + lease) \<times> 'w pool_world_scheme"
where
  "acquire_loop e inst ttl deadline earliest w =
     (case run_state (acquire e inst ttl) w of (r, w1) \<Rightarrow>
        let now = max (clock e (tick w1)) earliest; w2 = w1\<lparr>tick := Suc (tick w1)\<rparr>
        in if r \<noteq> Inl ErrPoolCapacity \<or> deadline < now then (r, w2)
           else
             let pause = 50 * millisecond + int (random_jitter e (tick w2) mod nat (200 * millisecond));
                 w3 = w2\<lparr>tick := Suc (tick w2)\<rparr>
             in if ctx_done e (tick w3)
                then (Inl (PoolErr (ctx_err e (tick w3))), w3\<lparr>tick := Suc (tick w3)\<rparr>)
                else acquire_loop e inst ttl deadline (now + pause) (w3\<lparr>tick := Suc (tick w3)\<rparr>))"
  by pat_completeness auto
termination
  by (relation "measure (\<lambda>(e, inst, ttl, deadline, earliest, w). nat (deadline - earliest + 1))")
    (auto simp: millisecond_def)

declare acquire_loop.simps [simp del]

definition acquire_wait ::
  "runtime \<Rightarrow> string \<Rightarrow> duration \<Rightarrow> duration \<Rightarrow> ('w pool_world_scheme, pool_error + lease) state"
where
  "acquire_wait e inst ttl wait = do {
     start \<leftarrow> ask (clock e);
     State (\<lambda>w. acquire_loop e inst ttl (start + wait) start w)
   }"

section \<open>Histories of the lease table\<close>

text \<open>Everything that writes the table, with the database clock at which it runs.\<close>

datatype pool_event =
    EvAcquire string string duration instant
  | EvRelease lease "int option" bool instant
  | EvBalance int int int instant
  | EvSync "(int \<times> string) list" instant

fun pool_step :: "pool_event \<Rightarrow> channel_db \<Rightarrow> channel_db" where
  "pool_step (EvAcquire tok inst ttl now) db = snd (acquire_stmt tok inst ttl now db)"
| "pool_step (EvRelease l s resync now) db = snd (release_stmt l s resync now db)"
| "pool_step (EvBalance idx bal minimum now) db = snd (record_balance_stmt idx bal minimum now db)"
| "pool_step (EvSync chs now) db = snd (sync_stmt now chs db)"

fun event_time :: "pool_event \<Rightarrow> instant" where
  "event_time (EvAcquire tok inst ttl now) = now"
| "event_time (EvRelease l s resync now) = now"
| "event_time (EvBalance idx bal minimum now) = now"
| "event_time (EvSync chs now) = now"

text \<open>The event is not the holder's own release.\<close>

fun foreign_to :: "lease \<Rightarrow> pool_event \<Rightarrow> bool" where
  "foreign_to l (EvRelease l' s resync now) \<longleftrightarrow>
     channel_id l' \<noteq> channel_id l \<or> lease_tok l' \<noteq> lease_tok l"
| "foreign_to l ev \<longleftrightarrow> True"

section \<open>Invariants\<close>

definition ch_wf :: "channel_db \<Rightarrow> bool" where
  "ch_wf db \<longleftrightarrow> distinct (map ch_id (ch_rows db)) \<and> distinct (map hd_index (ch_rows db)) \<and>
     (\<forall>c \<in> set (ch_rows db). ch_id c < next_ch_id db)"

text \<open>\<open>l\<close> is recorded on its channel, and does not expire before \<open>t\<close>.\<close>

definition holds_lease :: "lease \<Rightarrow> instant \<Rightarrow> channel_db \<Rightarrow> bool" where
  "holds_lease l t db \<longleftrightarrow> (\<exists>c \<in> set (ch_rows db). ch_id c = channel_id l \<and>
     lease_token c = Some (lease_tok l) \<and> (\<exists>x. lease_expires_at c = Some x \<and> t \<le> x))"

text \<open>
  The interface the forwarder and the submitter use the pool through: a grant is exclusive while
  it is held, and only its holder's release, or its expiry, ends it. \<open>step\<close> is any write to the
  table at its \<open>time\<close>; it is \<open>foreign\<close> to a lease unless it is the holder's release.
\<close>

locale lease_pool =
  fixes grant :: "'a \<Rightarrow> instant \<Rightarrow> 's \<Rightarrow> lease option \<times> 's"
    and ttl_of :: "'a \<Rightarrow> duration"
    and give_back :: "lease \<Rightarrow> 'b \<Rightarrow> instant \<Rightarrow> 's \<Rightarrow> bool \<times> 's"
    and step :: "'e \<Rightarrow> 's \<Rightarrow> 's"
    and time :: "'e \<Rightarrow> instant"
    and foreign :: "lease \<Rightarrow> 'e \<Rightarrow> bool"
    and held :: "lease \<Rightarrow> instant \<Rightarrow> 's \<Rightarrow> bool"
    and ok :: "'s \<Rightarrow> bool"
  assumes step_ok: "ok s \<Longrightarrow> ok (step ev s)"
    and grant_ok: "ok s \<Longrightarrow> ok (snd (grant a now s))"
    and grant_holds: "fst (grant a now s) = Some l \<Longrightarrow> held l (now + ttl_of a) (snd (grant a now s))"
    and grant_excludes: "ok s \<Longrightarrow> held l t s \<Longrightarrow> now \<le> t \<Longrightarrow> fst (grant a now s) = Some l' \<Longrightarrow>
      channel_id l' \<noteq> channel_id l"
    and step_keeps: "ok s \<Longrightarrow> held l t s \<Longrightarrow> time ev \<le> t \<Longrightarrow> foreign l ev \<Longrightarrow> held l t (step ev s)"
    and give_back_held: "held l t s \<Longrightarrow> fst (give_back l b now s)"
begin

lemma history_keeps:
  assumes "ok s" "held l t s" "\<forall>ev \<in> set evs. time ev \<le> t \<and> foreign l ev"
  shows "ok (fold step evs s) \<and> held l t (fold step evs s)"
  using assms by (induction evs arbitrary: s) (auto intro: step_ok step_keeps)

text \<open>Between a grant and its expiry nobody else is granted the channel, and the release succeeds.\<close>

lemma history_exclusive:
  assumes "ok s" "grant a now s = (Some l, s1)"
    and "\<forall>ev \<in> set evs. time ev \<le> now + ttl_of a \<and> foreign l ev"
    and "later \<le> now + ttl_of a"
  shows "(\<forall>l'. fst (grant a' later (fold step evs s1)) = Some l' \<longrightarrow> channel_id l' \<noteq> channel_id l) \<and>
    fst (give_back l b later (fold step evs s1))"
proof -
  have "held l (now + ttl_of a) s1" "ok s1"
    using grant_holds [of a now s l] grant_ok [OF assms(1), of a now] assms(2) by simp_all
  then have "ok (fold step evs s1) \<and> held l (now + ttl_of a) (fold step evs s1)"
    using assms(3) by (intro history_keeps)
  then show ?thesis using grant_excludes assms(4) give_back_held by blast
qed

end

section \<open>Lemmas: the table\<close>

lemma pick_channelD:
  assumes "pick_channel now db = Some p"
  shows "p \<in> set (ch_rows db)" "leasable now p"
proof -
  obtain cs where "sort_key last_used_at (sort_key hd_index (filter (leasable now) (ch_rows db))) = p # cs"
    using assms by (auto simp: pick_channel_def split: list.splits)
  then have "p \<in> set (sort_key last_used_at (sort_key hd_index (filter (leasable now) (ch_rows db))))"
    by simp
  then show "p \<in> set (ch_rows db)" "leasable now p" by simp_all
qed

lemma pick_channel_None: "pick_channel now db = None \<longleftrightarrow> (\<forall>c \<in> set (ch_rows db). \<not> leasable now c)"
proof -
  let ?s = "sort_key last_used_at (sort_key hd_index (filter (leasable now) (ch_rows db)))"
  have "pick_channel now db = None \<longleftrightarrow> set ?s = {}"
    by (simp add: pick_channel_def del: set_sort split: list.splits)
  then show ?thesis by auto
qed

lemma pick_channel_least:
  assumes "pick_channel now db = Some p" "d \<in> set (ch_rows db)" "leasable now d"
  shows "last_used_at p < last_used_at d \<or> last_used_at p = last_used_at d \<and> hd_index p \<le> hd_index d"
proof -
  let ?s = "sort_key last_used_at (sort_key hd_index (filter (leasable now) (ch_rows db)))"
  obtain ps where ps: "?s = p # ps" using assms(1) by (auto simp: pick_channel_def split: list.splits)
  have "d \<in> set ?s" using assms(2,3) by simp
  then have "d = p \<or> before last_used_at hd_index p d"
    using sort_twice_sorted [of last_used_at hd_index "filter (leasable now) (ch_rows db)"] unfolding ps by auto
  then show ?thesis by (auto simp: before_def)
qed

lemma update_where_wf_next:
  assumes "ch_wf db" and "\<And>c. ch_id (f c) = ch_id c" and "\<And>c. hd_index (f c) = hd_index c"
    and "next_ch_id db \<le> n"
  shows "ch_wf (db\<lparr>ch_rows := snd (update_where p f (ch_rows db)), next_ch_id := n\<rparr>)"
proof -
  have "map ch_id (map (\<lambda>c. if p c then f c else c) cs) = map ch_id cs"
    and "map hd_index (map (\<lambda>c. if p c then f c else c) cs) = map hd_index cs" for cs
    using assms(2,3) by auto
  moreover have "\<forall>c \<in> set (map (\<lambda>c. if p c then f c else c) (ch_rows db)). ch_id c < n"
    using assms(1,2,4) by (auto simp: ch_wf_def)
  ultimately show ?thesis
    using assms(1) by (simp add: ch_wf_def update_where_def del: map_map set_map)
qed

lemma update_where_wf:
  assumes "ch_wf db" and "\<And>c. ch_id (f c) = ch_id c" and "\<And>c. hd_index (f c) = hd_index c"
  shows "ch_wf (db\<lparr>ch_rows := snd (update_where p f (ch_rows db))\<rparr>)"
  using update_where_wf_next [OF assms order_refl, of p] by (simp add: ch_wf_def)

lemma holds_update:
  assumes "holds_lease l t db"
    and "\<And>c. c \<in> set (ch_rows db) \<Longrightarrow> p c \<Longrightarrow> ch_id c = channel_id l \<Longrightarrow>
      lease_token c = Some (lease_tok l) \<Longrightarrow> \<exists>x. lease_expires_at c = Some x \<and> t \<le> x \<Longrightarrow>
      ch_id (f c) = ch_id c \<and> lease_token (f c) = lease_token c \<and> lease_expires_at (f c) = lease_expires_at c"
    and "ch_rows db' = snd (update_where p f (ch_rows db))"
  shows "holds_lease l t db'"
proof -
  obtain c where c: "c \<in> set (ch_rows db)" "ch_id c = channel_id l"
    "lease_token c = Some (lease_tok l)" "\<exists>x. lease_expires_at c = Some x \<and> t \<le> x"
    using assms(1) by (auto simp: holds_lease_def)
  let ?c = "if p c then f c else c"
  have "?c \<in> set (ch_rows db')" using c(1) assms(3) by (auto simp: update_where_def)
  moreover have "ch_id ?c = channel_id l \<and> lease_token ?c = Some (lease_tok l) \<and>
      (\<exists>x. lease_expires_at ?c = Some x \<and> t \<le> x)"
    using assms(2) c by auto
  ultimately show ?thesis unfolding holds_lease_def by blast
qed

lemma upsert_channel_cases:
  assumes "upsert_channel now (idx, addr) db = Some db'"
  obtains (update) "db' = db\<lparr>ch_rows := snd (update_where (\<lambda>c. hd_index c = idx)
      (resync_channel now addr) (ch_rows db)), next_ch_id := next_ch_id db + 1\<rparr>"
  | (insert) "db' = db\<lparr>ch_rows := ch_rows db @ [fresh_channel now (next_ch_id db) idx addr],
      next_ch_id := next_ch_id db + 1\<rparr>" "\<forall>c \<in> set (ch_rows db). hd_index c \<noteq> idx"
  using assms by (auto simp: upsert_channel_def list_ex_iff split: if_splits)

lemma upsert_channel_wf:
  assumes "upsert_channel now ch db = Some db'" and "ch_wf db"
  shows "ch_wf db'"
proof -
  obtain idx addr where ch: "ch = (idx, addr)" by (cases ch)
  from assms(1) [unfolded ch] show ?thesis
  proof (cases rule: upsert_channel_cases)
    case update
    then show ?thesis
      using update_where_wf_next [OF assms(2), of "resync_channel now addr"]
      by (simp add: resync_channel_def)
  next
    case insert
    then show ?thesis using assms(2) by (force simp: ch_wf_def fresh_channel_def)
  qed
qed

lemma upsert_channel_holds:
  assumes "upsert_channel now ch db = Some db'" and "holds_lease l t db"
  shows "holds_lease l t db'"
proof -
  obtain idx addr where ch: "ch = (idx, addr)" by (cases ch)
  from assms(1) [unfolded ch] show ?thesis
  proof (cases rule: upsert_channel_cases)
    case update
    then show ?thesis by (intro holds_update [OF assms(2)]) (simp_all add: resync_channel_def)
  next
    case insert
    then show ?thesis using assms(2) by (auto simp: holds_lease_def)
  qed
qed

lemma upsert_all_keeps:
  assumes "upsert_all now chs db = Some db'" and "ch_wf db"
  shows "ch_wf db' \<and> (holds_lease l t db \<longrightarrow> holds_lease l t db')"
  using assms
  by (induction chs arbitrary: db)
    (auto split: option.splits dest: upsert_channel_wf upsert_channel_holds)

lemma sync_keeps:
  assumes "ch_wf db"
  shows "ch_wf (snd (sync_stmt now chs db))"
    and "holds_lease l t db \<Longrightarrow> holds_lease l t (snd (sync_stmt now chs db))"
proof -
  show "ch_wf (snd (sync_stmt now chs db))"
    using assms upsert_all_keeps
    by (auto simp: sync_stmt_def retire_row_def split: option.splits intro!: update_where_wf)
  assume h: "holds_lease l t db"
  show "holds_lease l t (snd (sync_stmt now chs db))"
  proof (cases "upsert_all now chs db")
    case None
    with h show ?thesis by (simp add: sync_stmt_def)
  next
    case (Some db')
    with h assms upsert_all_keeps have "holds_lease l t db'" by blast
    then show ?thesis
      by (rule holds_update) (simp_all add: sync_stmt_def Some retire_row_def)
  qed
qed

lemma acquire_wf: "ch_wf db \<Longrightarrow> ch_wf (snd (acquire_stmt tok inst ttl now db))"
  by (auto simp: acquire_stmt_def lease_row_def split: option.splits intro!: update_where_wf)

lemma release_wf: "ch_wf db \<Longrightarrow> ch_wf (snd (release_stmt l s resync now db))"
  by (simp add: release_stmt_def case_prod_beta update_where_wf release_row_def)

lemma balance_keeps:
  shows "ch_wf db \<Longrightarrow> ch_wf (snd (record_balance_stmt idx bal minimum now db))"
    and "holds_lease l t db \<Longrightarrow> holds_lease l t (snd (record_balance_stmt idx bal minimum now db))"
proof -
  show "ch_wf db \<Longrightarrow> ch_wf (snd (record_balance_stmt idx bal minimum now db))"
    by (simp add: record_balance_stmt_def update_where_wf balance_row_def)
  assume "holds_lease l t db"
  then show "holds_lease l t (snd (record_balance_stmt idx bal minimum now db))"
    by (rule holds_update) (simp_all add: record_balance_stmt_def balance_row_def)
qed

text \<open>A live lease keeps its channel out of every pick.\<close>

lemma pick_not_held:
  assumes "ch_wf db" "holds_lease l t db" "now \<le> t" "pick_channel now db = Some p"
  shows "ch_id p \<noteq> channel_id l"
proof
  assume eq: "ch_id p = channel_id l"
  obtain c where c: "c \<in> set (ch_rows db)" "ch_id c = channel_id l"
    "lease_token c = Some (lease_tok l)" "\<exists>x. lease_expires_at c = Some x \<and> t \<le> x"
    using assms(2) by (auto simp: holds_lease_def)
  have "p = c"
    using row_unique [of ch_id "ch_rows db" p c] assms(1) pick_channelD(1) [OF assms(4)] c eq
    by (simp add: ch_wf_def)
  then show False using pick_channelD(2) [OF assms(4)] c assms(3) by (auto simp: leasable_def)
qed

lemma acquire_holds:
  assumes "fst (acquire_stmt tok inst ttl now db) = Some l"
  shows "holds_lease l (now + ttl) (snd (acquire_stmt tok inst ttl now db))"
proof -
  obtain p where p: "pick_channel now db = Some p" and l: "l = lease_of tok (lease_row now tok inst ttl p)"
    using assms by (auto simp: acquire_stmt_def split: option.splits)
  let ?c = "lease_row now tok inst ttl p"
  have "?c \<in> set (ch_rows (snd (acquire_stmt tok inst ttl now db)))"
    using pick_channelD(1) [OF p] by (auto simp: acquire_stmt_def p update_where_def)
  then show ?thesis
    by (auto simp: holds_lease_def l lease_of_def lease_row_def intro!: bexI [of _ ?c])
qed

lemma acquire_keeps:
  assumes "ch_wf db" "holds_lease l t db" "now \<le> t"
  shows "holds_lease l t (snd (acquire_stmt tok inst ttl now db))"
proof (cases "pick_channel now db")
  case None
  with assms show ?thesis by (simp add: acquire_stmt_def)
next
  case (Some p)
  then show ?thesis
    using pick_not_held [OF assms Some]
    by (intro holds_update [OF assms(2)]) (auto simp: acquire_stmt_def)
qed

lemma release_keeps:
  assumes "holds_lease l t db" "channel_id l' \<noteq> channel_id l \<or> lease_tok l' \<noteq> lease_tok l"
  shows "holds_lease l t (snd (release_stmt l' s resync now db))"
  using assms(2)
  by (intro holds_update [OF assms(1)]) (auto simp: release_stmt_def case_prod_beta)

lemma release_held: "holds_lease l t db \<Longrightarrow> fst (release_stmt l s resync now db)"
  by (auto simp: holds_lease_def release_stmt_def update_where_def filter_empty_conv)

lemma pool_step_keeps:
  assumes "ch_wf db"
  shows "ch_wf (pool_step ev db)"
    and "holds_lease l t db \<Longrightarrow> event_time ev \<le> t \<Longrightarrow> foreign_to l ev \<Longrightarrow> holds_lease l t (pool_step ev db)"
  using assms
  by (cases ev; simp add: acquire_wf release_wf balance_keeps sync_keeps acquire_keeps release_keeps)+

interpretation lp: lease_pool
  "\<lambda>(tok, inst, ttl). acquire_stmt tok inst ttl" "\<lambda>(tok, inst, ttl). ttl"
  "\<lambda>l (s, resync). release_stmt l s resync" pool_step event_time foreign_to holds_lease ch_wf
proof unfold_locales
  fix s l t now a l'
  assume "ch_wf s" "holds_lease l t s" "now \<le> t"
    "fst ((\<lambda>(tok, inst, ttl). acquire_stmt tok inst ttl) a now s) = Some l'"
  then show "channel_id l' \<noteq> channel_id l"
    using pick_not_held
    by (auto simp: acquire_stmt_def lease_of_def lease_row_def split: option.splits prod.splits)
qed (auto simp: pool_step_keeps acquire_wf acquire_holds release_held split: prod.splits)

section \<open>Properties\<close>

text \<open>
  C14: a lease is exclusive. From the moment \<open>Acquire\<close> hands out a lease until its \<open>ttl\<close> has
  passed, whatever other instances acquire or release and whatever the balance monitor and
  \<open>Sync\<close> write, no \<open>Acquire\<close> returns the same channel, and the holder's \<open>Release\<close> succeeds.
\<close>

theorem lease_exclusive_until_expiry:
  assumes "ch_wf db" and "acquire_stmt tok inst ttl now db = (Some l, db1)"
    and "\<forall>ev \<in> set evs. event_time ev \<le> now + ttl \<and> foreign_to l ev"
    and "later \<le> now + ttl"
  shows "(\<forall>l'. fst (acquire_stmt tok' inst' ttl' later (fold pool_step evs db1)) = Some l' \<longrightarrow>
      channel_id l' \<noteq> channel_id l) \<and>
    fst (release_stmt l s resync later (fold pool_step evs db1))"
  using lp.history_exclusive
    [of db "(tok, inst, ttl)" now l db1 evs later "(tok', inst', ttl')" "(s, resync)"] assms
  by simp

definition demo_channels :: channel_db where
  "demo_channels = \<lparr>ch_rows = [fresh_channel 0 7 0 ''GA'', fresh_channel 0 8 1 ''GB''], next_ch_id = 9\<rparr>"

theorem lease_exclusive_witness:
  "let l = lease_of ''t1'' (lease_row 10 ''t1'' ''i1'' 100 (fresh_channel 0 7 0 ''GA''));
       db1 = snd (acquire_stmt ''t1'' ''i1'' 100 10 demo_channels);
       evs = [EvAcquire ''t2'' ''i2'' 100 20, EvBalance 0 (-1) 5 30]
   in fst (acquire_stmt ''t1'' ''i1'' 100 10 demo_channels) = Some l \<and>
      fst (release_stmt l (Some 7) False 50 (fold pool_step evs db1))"
proof -
  let ?l = "lease_of ''t1'' (lease_row 10 ''t1'' ''i1'' 100 (fresh_channel 0 7 0 ''GA''))"
  let ?db1 = "snd (acquire_stmt ''t1'' ''i1'' 100 10 demo_channels)"
  have wf: "ch_wf demo_channels"
    by (simp add: ch_wf_def demo_channels_def fresh_channel_def)
  have "fst (acquire_stmt ''t1'' ''i1'' 100 10 demo_channels) = Some ?l" by code_simp
  then have eq: "acquire_stmt ''t1'' ''i1'' 100 10 demo_channels = (Some ?l, ?db1)"
    by (simp add: prod_eq_iff)
  have "fst (release_stmt ?l (Some 7) False 50
      (fold pool_step [EvAcquire ''t2'' ''i2'' 100 20, EvBalance 0 (-1) 5 30] ?db1))"
    by (rule lease_exclusive_until_expiry [OF wf eq, THEN conjunct2]) simp_all
  then show ?thesis unfolding Let_def using eq by (metis fst_conv)
qed

text \<open>
  C15: what \<open>Acquire\<close> returns. It refuses exactly when no active channel is free or expired;
  otherwise it hands out, of the leasable channels, the least recently used one (never used
  first, then the lowest index), and the sequence number it reports is the recorded one unless
  the lease says to reload it: when the row says so, when no number is recorded, or when an
  expired lease is taken over.
\<close>

theorem acquire_least_recently_used:
  "case fst (acquire_stmt tok inst ttl now db) of
     None \<Rightarrow> \<forall>c \<in> set (ch_rows db). \<not> leasable now c
   | Some l \<Rightarrow> \<exists>c \<in> set (ch_rows db). leasable now c \<and>
       channel_id l = ch_id c \<and> lease_address l = ch_address c \<and> lease_tok l = tok \<and>
       (\<forall>d \<in> set (ch_rows db). leasable now d \<longrightarrow> last_used_at c < last_used_at d \<or>
          last_used_at c = last_used_at d \<and> hd_index c \<le> hd_index d) \<and>
       (lease_needs_resync l \<longleftrightarrow> needs_resync c \<or> lease_expires_at c \<noteq> None \<or> ch_seq c = None) \<and>
       (\<not> lease_needs_resync l \<longrightarrow> ch_seq c = Some (lease_seq l))"
proof (cases "pick_channel now db")
  case None
  then have "\<forall>c \<in> set (ch_rows db). \<not> leasable now c" by (simp add: pick_channel_None)
  with None show ?thesis by (simp add: acquire_stmt_def)
next
  case (Some p)
  have "\<forall>d \<in> set (ch_rows db). leasable now d \<longrightarrow> last_used_at p < last_used_at d \<or>
      last_used_at p = last_used_at d \<and> hd_index p \<le> hd_index d"
    using pick_channel_least [OF Some] by blast
  then show ?thesis
    using Some pick_channelD [OF Some]
    by (auto simp: acquire_stmt_def lease_of_def lease_row_def split: option.splits
        intro!: bexI [of _ p])
qed

theorem acquire_least_recently_used_witness:
  "fst (acquire_stmt ''t1'' ''i1'' 100 10 demo_channels) \<noteq> None \<and>
   \<not> (\<forall>c \<in> set (ch_rows demo_channels). \<not> leasable 10 c)"
  using acquire_least_recently_used [where tok = "''t1''" and inst = "''i1''" and ttl = 100 and now = 10
      and db = demo_channels]
  by (auto simp: demo_channels_def fresh_channel_def leasable_def split: option.splits)

end
