(* ===== verification/Bridge_World.thy ===== *)
theory Bridge_World
  imports Store Channels
begin

text \<open>
  The state of the running deposit bridge and the components the forwarder is built on: the
  methods of \<open>store.Store\<close> around the statements of theory \<open>Store\<close>, with their error paths, and
  \<open>internal/service/forwarder/sequence.go\<close>, the in-memory sequencer of the pool accounts.

  \<open>queued\<close> is a ghost log: a pair \<open>(deposit, outbound hash)\<close> for every send whose answer leaves it
  possible that the transaction entered the network's queue. No operation reads it.
\<close>

section \<open>World\<close>

record pool_sequence =
  ps_next :: int
  ps_loaded :: bool
  ps_send_locks :: int

record bridge_world = pool_world +
  dep :: deposit_db
  seqs :: "string \<rightharpoonup> pool_sequence"
  queued :: "(string \<times> string) list"

type_synonym 'a bridge = "(bridge_world, 'a) state"

definition dep_stmt :: "runtime \<Rightarrow> (instant \<Rightarrow> deposit_db \<Rightarrow> 'a \<times> deposit_db) \<Rightarrow> (string + 'a) bridge" where
  "dep_stmt e stmt = db_stmt e dep dep_update stmt"

text \<open>A \<open>SELECT\<close>: the answer, and the tables unchanged.\<close>

definition dep_query :: "runtime \<Rightarrow> (instant \<Rightarrow> deposit_db \<Rightarrow> 'a) \<Rightarrow> (string + 'a) bridge" where
  "dep_query e q = dep_stmt e (\<lambda>now db. (q now db, db))"

section \<open>Store methods\<close>

datatype store_error = ErrNoRows | ErrExternalIDConflict | ErrSubmissionClaimed | StoreErr string

definition store_error_text :: "store_error \<Rightarrow> string" where
  "store_error_text err =
     (case err of
        ErrNoRows \<Rightarrow> ''no rows in result set''
      | ErrExternalIDConflict \<Rightarrow> ''intent already bound to a different external_id''
      | ErrSubmissionClaimed \<Rightarrow> ''outbound transaction already belongs to another forward''
      | StoreErr m \<Rightarrow> m)"

text \<open>\<open>rand.Int64\<close> is a non-negative 63-bit number.\<close>

fun create_intent_tries ::
  "runtime \<Rightarrow> nat \<Rightarrow> string \<Rightarrow> string \<Rightarrow> string option \<Rightarrow> instant \<Rightarrow> string option \<Rightarrow>
   (string + intent) bridge"
where
  "create_intent_tries e 0 c_addr pool expected expires ext =
     ret (Inl ''create intent: could not generate unique memo_id'')"
| "create_intent_tries e (Suc n) c_addr pool expected expires ext = do {
     m \<leftarrow> ask (\<lambda>t. of_nat (random_uint63 e t mod 2 ^ 63));
     uuid \<leftarrow> ask (random_uuid e);
     r \<leftarrow> dep_stmt e (\<lambda>now. insert_intent now uuid m c_addr pool expected expires ext);
     (case r of
        Inl err \<Rightarrow> ret (Inl (''create intent: '' @ err))
      | Inr None \<Rightarrow> create_intent_tries e n c_addr pool expected expires ext
      | Inr (Some i) \<Rightarrow>
          ret (Inr \<lparr>intent_id = i, memo_id = to_bigint m, c_address = c_addr, intent_pool = pool,
            expected_amt = expected, expires_at = expires, intent_status = IntentPending,
            external_id = ext, intent_created_at = zero_time, intent_updated_at = zero_time\<rparr>))
   }"

definition create_intent ::
  "runtime \<Rightarrow> string \<Rightarrow> string \<Rightarrow> string option \<Rightarrow> instant \<Rightarrow> string option \<Rightarrow> (string + intent) bridge"
where
  "create_intent e = create_intent_tries e 5"

definition get_intent :: "runtime \<Rightarrow> 64 word \<Rightarrow> (store_error + intent) bridge" where
  "get_intent e m = do {
     r \<leftarrow> dep_query e (\<lambda>_. get_intent_by_memo_id m);
     ret (case r of Inl err \<Rightarrow> Inl (StoreErr err) | Inr None \<Rightarrow> Inl ErrNoRows | Inr (Some i) \<Rightarrow> Inr i)
   }"

definition set_intent_external_id :: "runtime \<Rightarrow> 64 word \<Rightarrow> string \<Rightarrow> (store_error option) bridge" where
  "set_intent_external_id e m ext = do {
     r \<leftarrow> dep_stmt e (\<lambda>now. set_external_id_update now m ext);
     (case r of
        Inl err \<Rightarrow> ret (Some (StoreErr (''set intent external_id: '' @ err)))
      | Inr n \<Rightarrow>
          if n = 1 then ret None
          else do {
            q \<leftarrow> dep_query e (\<lambda>_. get_intent_by_memo_id m);
            ret (Some (case q of
                   Inl err \<Rightarrow> StoreErr err
                 | Inr None \<Rightarrow> ErrNoRows
                 | Inr (Some _) \<Rightarrow> ErrExternalIDConflict)) })
   }"

text \<open>A method whose only result is an error: \<open>None\<close> is \<open>nil\<close>.\<close>

definition exec :: "runtime \<Rightarrow> string \<Rightarrow> (instant \<Rightarrow> deposit_db \<Rightarrow> 'a \<times> deposit_db) \<Rightarrow> (string option) bridge" where
  "exec e prefix stmt = do {
     r \<leftarrow> dep_stmt e stmt;
     ret (case r of Inl err \<Rightarrow> Some (prefix @ err) | Inr _ \<Rightarrow> None)
   }"

definition complete_intent :: "runtime \<Rightarrow> 64 word \<Rightarrow> (string option) bridge" where
  "complete_intent e m = exec e ''complete intent: '' (\<lambda>now. complete_intent_stmt now m)"

definition fail_intent :: "runtime \<Rightarrow> 64 word \<Rightarrow> (string option) bridge" where
  "fail_intent e m = exec e ''fail intent: '' (\<lambda>now. fail_intent_stmt now m)"

definition expire_stale_intents :: "runtime \<Rightarrow> (string + nat) bridge" where
  "expire_stale_intents e = do {
     r \<leftarrow> dep_stmt e expire_stale_intents_stmt;
     ret (wrap_err ''expire stale intents: '' r)
   }"

definition insert_forward ::
  "runtime \<Rightarrow> string \<Rightarrow> 64 word \<Rightarrow> string \<Rightarrow> string \<Rightarrow> string \<Rightarrow> string \<Rightarrow> instant \<Rightarrow> (string + bool) bridge"
where
  "insert_forward e h m pool from_addr amt ass landed = do {
     r \<leftarrow> dep_stmt e (\<lambda>now. insert_forward_stmt now h m pool from_addr amt ass landed);
     ret (wrap_err ''insert forward: '' r)
   }"

definition claim_new_forward :: "runtime \<Rightarrow> string \<Rightarrow> (string + bool) bridge" where
  "claim_new_forward e h = do {
     r \<leftarrow> dep_stmt e (\<lambda>now. claim_new_forward_stmt now h);
     ret (wrap_err ''claim new forward: '' r)
   }"

definition claim_pending_forward :: "runtime \<Rightarrow> string \<Rightarrow> instant \<Rightarrow> (string + bool) bridge" where
  "claim_pending_forward e h seen = do {
     r \<leftarrow> dep_stmt e (\<lambda>now. claim_pending_forward_stmt now h seen);
     ret (wrap_err ''claim pending forward: '' r)
   }"

definition mark_forward_done :: "runtime \<Rightarrow> string \<Rightarrow> string \<Rightarrow> (string option) bridge" where
  "mark_forward_done e h x = exec e ''mark forward done: '' (\<lambda>now. mark_forward_done_stmt now h x)"

definition mark_sweep :: "runtime \<Rightarrow> string \<Rightarrow> string \<Rightarrow> (string option) bridge" where
  "mark_sweep e h reason = exec e ''mark sweep: '' (\<lambda>now. mark_sweep_stmt now h reason)"

definition mark_swept :: "runtime \<Rightarrow> string \<Rightarrow> string \<Rightarrow> (string option) bridge" where
  "mark_swept e h x = exec e ''mark swept: '' (\<lambda>now. mark_swept_stmt now h x)"

definition record_submission :: "runtime \<Rightarrow> string \<Rightarrow> string \<Rightarrow> instant \<Rightarrow> (store_error option) bridge" where
  "record_submission e h x until = do {
     r \<leftarrow> dep_stmt e (\<lambda>now. record_submission_stmt now h x until);
     ret (case r of
            Inl err \<Rightarrow> Some (StoreErr (''record submission: '' @ err))
          | Inr False \<Rightarrow> Some ErrSubmissionClaimed
          | Inr True \<Rightarrow> None)
   }"

definition clear_submission :: "runtime \<Rightarrow> string \<Rightarrow> (string option) bridge" where
  "clear_submission e h = exec e ''clear submission: '' (\<lambda>now. clear_submission_stmt now h)"

definition mark_forward_failed :: "runtime \<Rightarrow> string \<Rightarrow> fwd_status \<Rightarrow> string \<Rightarrow> (string option) bridge" where
  "mark_forward_failed e h st msg =
     exec e ''mark forward failed: '' (\<lambda>now. mark_forward_failed_stmt now h st msg)"

definition requeue_for_contention :: "runtime \<Rightarrow> string \<Rightarrow> string \<Rightarrow> (string option) bridge" where
  "requeue_for_contention e h msg =
     exec e ''requeue for contention: '' (\<lambda>now. requeue_for_contention_stmt now h msg)"

definition permanently_fail :: "runtime \<Rightarrow> string \<Rightarrow> string \<Rightarrow> (string option) bridge" where
  "permanently_fail e h msg =
     exec e ''permanently fail forward: '' (\<lambda>now. permanently_fail_stmt now h msg)"

definition get_forward_by_memo_id :: "runtime \<Rightarrow> 64 word \<Rightarrow> (string + forward list) bridge" where
  "get_forward_by_memo_id e m = do {
     r \<leftarrow> dep_query e (\<lambda>_. get_forward_by_memo_id_stmt m);
     ret (wrap_err ''get forwards: '' r)
   }"

definition get_pending_retries :: "runtime \<Rightarrow> (string + forward list) bridge" where
  "get_pending_retries e = do {
     r \<leftarrow> dep_query e get_pending_retries_stmt;
     ret (wrap_err ''get pending retries: '' r)
   }"

definition get_cursor :: "runtime \<Rightarrow> string \<Rightarrow> (string + string) bridge" where
  "get_cursor e pool = do {
     r \<leftarrow> dep_query e (\<lambda>_. get_cursor_stmt pool);
     ret (wrap_err ''get cursor: '' r)
   }"

definition upsert_cursor :: "runtime \<Rightarrow> string \<Rightarrow> string \<Rightarrow> (string option) bridge" where
  "upsert_cursor e pool tok = exec e ''upsert cursor: '' (\<lambda>now. upsert_cursor_stmt now pool tok)"

section \<open>Sequencer\<close>

definition new_pool_sequence :: pool_sequence where
  "new_pool_sequence = \<lparr>ps_next = 0, ps_loaded = False, ps_send_locks = 0\<rparr>"

text \<open>\<open>forPool\<close>: the account's entry, created on first use.\<close>

definition for_pool :: "string \<Rightarrow> (string \<rightharpoonup> pool_sequence) \<Rightarrow> pool_sequence" where
  "for_pool addr m = (case m addr of None \<Rightarrow> new_pool_sequence | Some ps \<Rightarrow> ps)"

definition modify_pool :: "string \<Rightarrow> (pool_sequence \<Rightarrow> pool_sequence) \<Rightarrow> unit bridge" where
  "modify_pool addr f = modify (\<lambda>w. w\<lparr>seqs := (seqs w)(addr \<mapsto> f (for_pool addr (seqs w)))\<rparr>)"

definition seed_locked :: "runtime \<Rightarrow> string \<Rightarrow> (string option) bridge" where
  "seed_locked e addr = do {
     r \<leftarrow> ask (\<lambda>n. account_detail e n addr);
     (case r of
        Inl err \<Rightarrow> ret (Some (''fetch pool account '' @ addr @ '': '' @ err))
      | Inr acct \<Rightarrow>
          (case hz_sequence acct of
             Inl err \<Rightarrow> ret (Some (''parse sequence for '' @ addr @ '': '' @ err))
           | Inr current \<Rightarrow> do {
               modify_pool addr (\<lambda>ps. ps\<lparr>ps_next := int64 (current + 1), ps_loaded := True\<rparr>);
               ret None }))
   }"

definition seq_next :: "runtime \<Rightarrow> string \<Rightarrow> (string + int) bridge" where
  "seq_next e addr = do {
     modify_pool addr id;
     loaded \<leftarrow> gets (\<lambda>w. ps_loaded (for_pool addr (seqs w)));
     err \<leftarrow> (if loaded then ret None else seed_locked e addr);
     (case err of
        Some m \<Rightarrow> ret (Inl m)
      | None \<Rightarrow> do {
          seq \<leftarrow> gets (\<lambda>w. ps_next (for_pool addr (seqs w)));
          modify_pool addr (\<lambda>ps. ps\<lparr>ps_next := int64 (ps_next ps + 1)\<rparr>);
          ret (Inr seq) })
   }"

definition resync :: "string \<Rightarrow> unit bridge" where
  "resync addr = modify_pool addr (\<lambda>ps. ps\<lparr>ps_loaded := False\<rparr>)"

text \<open>\<open>lockSend\<close> and the function it returns. The count of holders is 0 or 1 in any run.\<close>

definition lock_send :: "string \<Rightarrow> unit bridge" where
  "lock_send addr = modify_pool addr (\<lambda>ps. ps\<lparr>ps_send_locks := ps_send_locks ps + 1\<rparr>)"

definition unlock_send :: "string \<Rightarrow> unit bridge" where
  "unlock_send addr = modify_pool addr (\<lambda>ps. ps\<lparr>ps_send_locks := ps_send_locks ps - 1\<rparr>)"

section \<open>Rules for the statements\<close>

lemma wp_dep_stmt:
  assumes "\<And>w'. queued w' = queued w \<Longrightarrow> seqs w' = seqs w \<Longrightarrow> channels w' = channels w \<Longrightarrow>
      tick w' = Suc (tick w) \<Longrightarrow> dep w' = snd (stmt (db_now e (tick w)) (dep w)) \<Longrightarrow>
      Q (Inr (fst (stmt (db_now e (tick w)) (dep w)))) w'"
    and "\<And>m w'. queued w' = queued w \<Longrightarrow> seqs w' = seqs w \<Longrightarrow> channels w' = channels w \<Longrightarrow>
      tick w' = Suc (tick w) \<Longrightarrow>
      dep w' = dep w \<or> dep w' = snd (stmt (db_now e (tick w)) (dep w)) \<Longrightarrow> Q (Inl m) w'"
  shows "wp (dep_stmt e stmt) Q w"
  unfolding dep_stmt_def by (rule wp_db_stmt) (simp_all add: assms)

lemma wp_exec:
  assumes "\<And>r w'. queued w' = queued w \<Longrightarrow>
      dep w' = dep w \<or> dep w' = snd (stmt (db_now e (tick w)) (dep w)) \<Longrightarrow> Q r w'"
  shows "wp (exec e p stmt) Q w"
  unfolding exec_def wp_bind by (rule wp_dep_stmt) (simp_all add: assms split: sum.split)

lemma wp_dep_query:
  assumes "\<And>r w'. queued w' = queued w \<Longrightarrow> dep w' = dep w \<Longrightarrow> Q r w'"
  shows "wp (dep_query e q) Q w"
  unfolding dep_query_def by (rule wp_dep_stmt) (simp_all add: assms)

end
