(* ===== verification/Store_Laws.thy ===== *)
theory Store_Laws
  imports Bridge_World
begin

text \<open>
  The contract of the deposit store: the two claims on a deposit exclude each other, an outbound
  transaction is recorded against one deposit only, an intent's status moves forward through its
  life cycle whatever statements run, an order id is bound once, a new intent gets an unused memo,
  the retry queue is complete and fair, and a saved cursor is the one read back.
\<close>

section \<open>Claims and submissions\<close>


definition demo_deposits :: deposit_db where
  "demo_deposits = snd (insert_forward_stmt 10 ''IN'' 5 ''POOL'' ''G'' ''7'' ''native'' 3
     \<lparr>intents = [], forwards = [], cursors = [], next_fwd_id = 1\<rparr>)"

lemma demo_deposits_wf: "db_wf demo_deposits"
  unfolding demo_deposits_def by (rule insert_forward_wf) (simp add: db_wf_def)

lemma demo_deposits_row:
  "fwd_row demo_deposits ''IN'' = Some (new_forward 10 1 ''IN'' 5 ''POOL'' ''G'' ''7'' ''native'' 3)"
  by (simp add: demo_deposits_def insert_forward_stmt_def insert_unless_def fwd_row_def select_one_def
      new_forward_def)


text \<open>
  The bound \<open>RecordSubmission\<close> gives, over any order of records by any deposits: no outbound
  transaction is ever held by two rows.
\<close>

lemma record_submission_exclusive:
  assumes "db_wf db" "exclusive_hashes db"
  shows "exclusive_hashes (snd (record_submission_stmt now h x until db))"
proof -
  let ?taken = "list_ex (\<lambda>r. tx_hash r \<noteq> h \<and> holds_hash x r) (forwards db)"
  let ?db = "snd (record_submission_stmt now h x until db)"
  have rows: "s \<in> set (forwards db) \<and> (tx_hash s = h \<longrightarrow> ?taken) \<or>
      (\<exists>a \<in> set (forwards db). tx_hash a = h \<and> \<not> ?taken \<and> s = submission_row now x until a)"
    if s: "s \<in> set (forwards ?db)" for s
  proof -
    obtain a where "a \<in> set (forwards db)"
      "s = (if tx_hash a = h \<and> \<not> ?taken then submission_row now x until a else a)"
      using s by (auto simp: record_submission_stmt_def case_prod_beta submission.forwards_after update_where_def)
    then show ?thesis by (cases "tx_hash a = h \<and> \<not> ?taken") auto
  qed
  have new: "holds_hash y (submission_row now x until a) \<Longrightarrow> y = x \<or> holds_hash y a" for y a
    by (auto simp: holds_hash_def submission_row_def)
  have key: "tx_hash (submission_row now x until a) = tx_hash a" for a by (simp add: submission_row_def)
  have old: "holds_hash y s \<Longrightarrow> holds_hash y t \<Longrightarrow> tx_hash s = tx_hash t"
    if "s \<in> set (forwards db)" "t \<in> set (forwards db)" for s t y
    using assms(2) that unfolding exclusive_hashes_def by blast
  have free: "tx_hash t = h" if "t \<in> set (forwards db)" "holds_hash x t" "\<not> ?taken" for t
    using that by (auto simp: list_ex_iff)
  show ?thesis
    unfolding exclusive_hashes_def
  proof (intro ballI allI impI)
    fix s t y
    assume st: "s \<in> set (forwards ?db)" "t \<in> set (forwards ?db)" "holds_hash y s" "holds_hash y t"
    have cross: "tx_hash a = tx_hash b"
      if "a \<in> set (forwards db)" "tx_hash a = h" "\<not> ?taken" "holds_hash y (submission_row now x until a)"
        "b \<in> set (forwards db)" "holds_hash y b" for a b
      using new [OF that(4)] old [OF that(1,5), of y] free [OF that(5) _ that(3)] that(2,6) by blast
    from rows [OF st(1)] rows [OF st(2)] show "tx_hash s = tx_hash t"
    proof (elim disjE bexE conjE)
      assume "s \<in> set (forwards db)" "t \<in> set (forwards db)"
      then show ?thesis using old st(3,4) by blast
    next
      fix b
      assume "s \<in> set (forwards db)" "b \<in> set (forwards db)" "tx_hash b = h" "\<not> ?taken"
        "t = submission_row now x until b"
      then show ?thesis using cross [of b s] st(3,4) key by simp
    next
      fix a
      assume "t \<in> set (forwards db)" "a \<in> set (forwards db)" "tx_hash a = h" "\<not> ?taken"
        "s = submission_row now x until a"
      then show ?thesis using cross [of a t] st(3,4) key by simp
    qed (simp add: key)
  qed
qed

section \<open>The retry queue\<close>

text \<open>
  C18: the retry queue is complete and fair. \<open>GetPendingRetries\<close> returns only rows waiting for a
  retry or abandoned for five minutes, at most 200 of them, ordered by fewest retries and then
  oldest first; a waiting row that is left out comes after every row that is returned, and
  nothing is left out while 200 or fewer wait.
\<close>

theorem pending_retries_complete_and_fair:
  "let out = get_pending_retries_stmt now db; waiting = filter (retryable now) (forwards db) in
   length out = min 200 (length waiting) \<and> set out \<subseteq> set waiting \<and>
   sorted_wrt (before retries created_at) out \<and>
   (\<forall>r \<in> set waiting. r \<in> set out \<or> (\<forall>s \<in> set out. before retries created_at s r)) \<and>
   (length waiting \<le> 200 \<longrightarrow> set out = set waiting)"
proof -
  let ?w = "filter (retryable now) (forwards db)"
  let ?s = "sort_key retries (sort_key created_at ?w)"
  have sorted: "sorted_wrt (before retries created_at) (take 200 ?s @ drop 200 ?s)"
    using sort_twice_sorted [of retries created_at ?w] by simp
  have parts: "set ?w = set (take 200 ?s) \<union> set (drop 200 ?s)"
    using set_append [of "take 200 ?s" "drop 200 ?s"] by simp
  have "set (take 200 ?s) \<subseteq> set ?w" using set_take_subset [of 200 ?s] by simp
  moreover have "r \<in> set (take 200 ?s) \<or> (\<forall>s \<in> set (take 200 ?s). before retries created_at s r)"
    if "r \<in> set ?w" for r
    using that sorted unfolding parts by (auto simp: sorted_wrt_append simp del: append_take_drop_id)
  moreover have "sorted_wrt (before retries created_at) (take 200 ?s)"
    using sorted by (simp add: sorted_wrt_append del: append_take_drop_id)
  moreover have "length ?w \<le> 200 \<Longrightarrow> set (take 200 ?s) = set ?w"
    by (subst take_all) simp_all
  ultimately show ?thesis
    unfolding Let_def get_pending_retries_stmt_def by (simp add: min.commute)
qed

theorem pending_retries_complete_and_fair_witness:
  "map tx_hash (get_pending_retries_stmt (10 + 6 * minute) demo_deposits) = [''IN''] \<and>
   get_pending_retries_stmt 11 demo_deposits = []"
proof -
  let ?now = "10 + 6 * minute"
  have rows: "forwards demo_deposits = [new_forward 10 1 ''IN'' 5 ''POOL'' ''G'' ''7'' ''native'' 3]"
    by (simp add: demo_deposits_def insert_forward_stmt_def insert_unless_def)
  have waiting: "filter (retryable ?now) (forwards demo_deposits) = forwards demo_deposits"
    "filter (retryable 11) (forwards demo_deposits) = []"
    by (simp_all add: rows retryable_def new_forward_def minute_def second_def millisecond_def)
  have "length (get_pending_retries_stmt ?now demo_deposits) = 1 \<and>
      set (get_pending_retries_stmt ?now demo_deposits) = {new_forward 10 1 ''IN'' 5 ''POOL'' ''G'' ''7'' ''native'' 3}"
    using pending_retries_complete_and_fair [of ?now demo_deposits] unfolding waiting Let_def
    by (simp add: rows)
  moreover have "get_pending_retries_stmt 11 demo_deposits = []"
    using pending_retries_complete_and_fair [of 11 demo_deposits] unfolding waiting Let_def by simp
  moreover have "map tx_hash xs = [''IN'']"
    if "length xs = 1 \<and> set xs = {new_forward 10 1 ''IN'' 5 ''POOL'' ''G'' ''7'' ''native'' 3}" for xs
    using that by (cases xs) (simp_all add: new_forward_def)
  ultimately show ?thesis by blast
qed

section \<open>Intents\<close>

text \<open>Everything that writes intents, at its database time.\<close>

datatype intent_event =
    EvMint string "64 word" string string "string option" instant "string option" instant
  | EvBind "64 word" string instant
  | EvComplete "64 word" instant
  | EvFail "64 word" instant
  | EvExpire instant

fun intent_step :: "intent_event \<Rightarrow> deposit_db \<Rightarrow> deposit_db" where
  "intent_step (EvMint uuid m ca pool ea ex ext now) db = snd (insert_intent now uuid m ca pool ea ex ext db)"
| "intent_step (EvBind m ext now) db = snd (set_external_id_update now m ext db)"
| "intent_step (EvComplete m now) db = snd (complete_intent_stmt now m db)"
| "intent_step (EvFail m now) db = snd (fail_intent_stmt now m db)"
| "intent_step (EvExpire now) db = snd (expire_stale_intents_stmt now db)"

text \<open>The life cycle: pending, then expired, then completed; or pending, then failed.\<close>

fun status_reaches :: "intent_status \<Rightarrow> intent_status \<Rightarrow> bool" where
  "status_reaches IntentPending _ = True"
| "status_reaches IntentExpired t = (t = IntentExpired \<or> t = IntentCompleted)"
| "status_reaches IntentCompleted t = (t = IntentCompleted)"
| "status_reaches IntentFailed t = (t = IntentFailed)"

definition intent_advances :: "intent \<Rightarrow> intent \<Rightarrow> bool" where
  "intent_advances i j \<longleftrightarrow> intent_id j = intent_id i \<and> memo_id j = memo_id i \<and> c_address j = c_address i \<and>
     intent_pool j = intent_pool i \<and> expected_amt j = expected_amt i \<and> expires_at j = expires_at i \<and>
     intent_created_at j = intent_created_at i \<and>
     (external_id i \<noteq> None \<longrightarrow> external_id j = external_id i) \<and>
     status_reaches (intent_status i) (intent_status j)"

lemma status_reaches_refl [simp]: "status_reaches s s"
  by (cases s) simp_all

lemma status_reaches_trans: "status_reaches a b \<Longrightarrow> status_reaches b c \<Longrightarrow> status_reaches a c"
  by (cases a; cases b; cases c) simp_all

lemma intent_advances_refl [simp]: "intent_advances i i"
  by (simp add: intent_advances_def)

lemma intent_advances_trans: "intent_advances i j \<Longrightarrow> intent_advances j k \<Longrightarrow> intent_advances i k"
  by (auto simp: intent_advances_def dest: status_reaches_trans)

text \<open>An update of intents by key: every row advances, and the look-up follows it.\<close>

lemma intent_update_row:
  assumes "\<And>i. p i \<Longrightarrow> intent_advances i (f i)"
  shows "select_one (\<lambda>i. memo_id i = k) (snd (update_where p f is)) =
    map_option (\<lambda>i. if p i then f i else i) (select_one (\<lambda>i. memo_id i = k) is)"
  unfolding select_one_def update_where_def snd_conv
  by (rule find_map_cong) (use assms in \<open>auto simp: intent_advances_def\<close>)

lemma intent_step_advances:
  assumes "intent_row db m = Some i"
  obtains j where "intent_row (intent_step ev db) m = Some j" "intent_advances i j"
proof -
  have upd: "\<exists>j. select_one (\<lambda>i. memo_id i = to_bigint m) (snd (update_where p f (intents db))) = Some j \<and>
      intent_advances i j" if "\<And>i. p i \<Longrightarrow> intent_advances i (f i)" for p f
    using assms that by (auto simp: intent_update_row intent_row_def)
  have adv:
    "intent_status a = IntentPending \<or> intent_status a = IntentExpired \<Longrightarrow>
      intent_advances a (a\<lparr>intent_status := IntentCompleted, intent_updated_at := now\<rparr>)"
    "intent_status a = IntentPending \<Longrightarrow> intent_advances a (a\<lparr>intent_status := st, intent_updated_at := now\<rparr>)"
    "external_id a = None \<or> external_id a = Some x \<Longrightarrow>
      intent_advances a (a\<lparr>external_id := Some x, intent_updated_at := now\<rparr>)" for a now st x
    by (auto simp: intent_advances_def)
  have "\<exists>j. intent_row (intent_step ev db) m = Some j \<and> intent_advances i j"
  proof (cases ev)
    case (EvMint uuid m' ca pool ea ex ext now)
    then show ?thesis
      using assms
      by (auto simp: insert_intent_def insert_unless_def intent_row_def select_one_def find_append case_prod_beta)
  next
    case (EvBind m' ext now)
    then show ?thesis
      using upd [of "\<lambda>i. memo_id i = to_bigint m' \<and> (external_id i = None \<or> external_id i = Some ext)"
          "\<lambda>i. i\<lparr>external_id := Some ext, intent_updated_at := now\<rparr>"] adv(3)
      by (simp add: set_external_id_update_def intent_row_def case_prod_beta)
  next
    case (EvComplete m' now)
    then show ?thesis
      using upd [of "\<lambda>i. memo_id i = to_bigint m' \<and> intent_status i \<in> {IntentPending, IntentExpired}"
          "\<lambda>i. i\<lparr>intent_status := IntentCompleted, intent_updated_at := now\<rparr>"] adv(1)
      by (simp add: complete_intent_stmt_def intent_row_def case_prod_beta Let_def)
  next
    case (EvFail m' now)
    then show ?thesis
      using upd [of "\<lambda>i. memo_id i = to_bigint m' \<and> intent_status i = IntentPending"
          "\<lambda>i. i\<lparr>intent_status := IntentFailed, intent_updated_at := now\<rparr>"] adv(2)
      by (simp add: fail_intent_stmt_def intent_row_def case_prod_beta Let_def)
  next
    case (EvExpire now)
    then show ?thesis
      using upd [of "\<lambda>i. intent_status i = IntentPending \<and> expires_at i < now"
          "\<lambda>i. i\<lparr>intent_status := IntentExpired, intent_updated_at := now\<rparr>"] adv(2)
      by (simp add: expire_stale_intents_stmt_def intent_row_def case_prod_beta Let_def)
  qed
  then show ?thesis using that by blast
qed

lemma intent_steps_advance:
  assumes "intent_row db m = Some i"
  shows "\<exists>j. intent_row (fold intent_step evs db) m = Some j \<and> intent_advances i j"
  using assms
proof (induction evs arbitrary: db i)
  case (Cons ev evs)
  obtain j where "intent_row (intent_step ev db) m = Some j" "intent_advances i j"
    using intent_step_advances [OF Cons.prems] by blast
  then show ?case using Cons.IH intent_advances_trans by fastforce
qed simp

text \<open>
  C17: an intent's life cycle. Whatever statements the handlers, workers and retry worker issue, in
  any order, an intent keeps its C-address, pool, expiry and memo, keeps an order id once bound,
  and its status only moves from pending to expired, failed or completed, or from expired to
  completed: completed and failed are final.
\<close>

theorem intent_life_cycle:
  assumes "intent_row db m = Some i"
  shows "\<exists>j. intent_row (fold intent_step evs db) m = Some j \<and> intent_advances i j"
  using assms by (rule intent_steps_advance)

definition demo_intents :: deposit_db where
  "demo_intents = fold intent_step [EvMint ''u1'' 5 ''CADDR'' ''POOL'' None 100 None 1] 
     \<lparr>intents = [], forwards = [], cursors = [], next_fwd_id = 1\<rparr>"

theorem intent_life_cycle_witness:
  "\<exists>j. intent_row (fold intent_step [EvExpire 200, EvFail 5 201, EvComplete 5 202, EvFail 5 203] demo_intents) 5 =
    Some j \<and> c_address j = ''CADDR'' \<and> intent_status j = IntentCompleted"
proof -
  obtain i where i: "intent_row demo_intents 5 = Some i" "c_address i = ''CADDR''"
  proof -
    have "map_option c_address (intent_row demo_intents 5) = Some ''CADDR''" by code_simp
    then show ?thesis using that by auto
  qed
  obtain j where j: "intent_row (fold intent_step [EvExpire 200, EvFail 5 201, EvComplete 5 202, EvFail 5 203]
      demo_intents) 5 = Some j" "intent_advances i j"
    using intent_life_cycle [OF i(1)] by blast
  have "map_option intent_status (intent_row (fold intent_step
      [EvExpire 200, EvFail 5 201, EvComplete 5 202, EvFail 5 203] demo_intents) 5) = Some IntentCompleted"
    by code_simp
  with j i(2) show ?thesis by (auto simp: intent_advances_def)
qed

section \<open>Minting and binding\<close>

lemma to_from_small: "to_bigint (from_bigint (to_bigint m)) = to_bigint m"
  by simp

lemma insert_intent_row:
  assumes "fst (insert_intent now uuid m ca pool ea ex ext db) = Some i"
  shows "intent_row db m = None" "i = uuid"
    "intent_row (snd (insert_intent now uuid m ca pool ea ex ext db)) m =
      Some \<lparr>intent_id = uuid, memo_id = to_bigint m, c_address = ca, intent_pool = pool, expected_amt = ea,
        expires_at = ex, intent_status = IntentPending, external_id = ext, intent_created_at = now,
        intent_updated_at = now\<rparr>"
proof -
  have "\<not> list_ex (\<lambda>i. memo_id i = to_bigint m) (intents db)" "i = uuid"
    using assms by (auto simp: insert_intent_def insert_unless_def split: if_splits)
  moreover from this have "List.find (\<lambda>i. memo_id i = to_bigint m) (intents db) = None"
    by (simp add: find_None_list_ex)
  ultimately show "intent_row db m = None" "i = uuid"
    "intent_row (snd (insert_intent now uuid m ca pool ea ex ext db)) m =
      Some \<lparr>intent_id = uuid, memo_id = to_bigint m, c_address = ca, intent_pool = pool, expected_amt = ea,
        expires_at = ex, intent_status = IntentPending, external_id = ext, intent_created_at = now,
        intent_updated_at = now\<rparr>"
    by (simp_all add: insert_intent_def insert_unless_def intent_row_def select_one_def find_append)
qed

text \<open>The row of a new intent.\<close>

definition minted :: "string \<Rightarrow> 64 word \<Rightarrow> string \<Rightarrow> string \<Rightarrow> string option \<Rightarrow> instant \<Rightarrow> string option \<Rightarrow> instant \<Rightarrow> intent" where
  "minted uuid m ca pool ea ex ext now =
     \<lparr>intent_id = uuid, memo_id = to_bigint m, c_address = ca, intent_pool = pool, expected_amt = ea,
      expires_at = ex, intent_status = IntentPending, external_id = ext, intent_created_at = now,
      intent_updated_at = now\<rparr>"

lemma minted_sel:
  "intent_id (minted uuid m ca pool ea ex ext now) = uuid" "memo_id (minted uuid m ca pool ea ex ext now) = to_bigint m"
  "c_address (minted uuid m ca pool ea ex ext now) = ca" "intent_pool (minted uuid m ca pool ea ex ext now) = pool"
  "expected_amt (minted uuid m ca pool ea ex ext now) = ea" "expires_at (minted uuid m ca pool ea ex ext now) = ex"
  "external_id (minted uuid m ca pool ea ex ext now) = ext"
  "intent_status (minted uuid m ca pool ea ex ext now) = IntentPending"
  by (simp_all add: minted_def)

lemma insert_keeps_intents:
  "intent_row db m' = Some i \<Longrightarrow> intent_row (snd (insert_intent now uuid m ca pool ea ex ext db)) m' = Some i"
  by (auto simp: insert_intent_def insert_unless_def intent_row_def select_one_def find_append)

definition intents_kept :: "bridge_world \<Rightarrow> bridge_world \<Rightarrow> bool" where
  "intents_kept u v \<longleftrightarrow> (\<forall>m i. intent_row (dep u) m = Some i \<longrightarrow> intent_row (dep v) m = Some i)"

lemma wp_mint:
  "wp (create_intent e ca pool ea ex ext) (\<lambda>r w'. intents_kept w w' \<and>
     (\<forall>i. r = Inr i \<longrightarrow> (\<exists>uuid m now. i = minted uuid m ca pool ea ex ext zero_time \<and> intent_row (dep w) m = None \<and>
        intent_row (dep w') m = Some (minted uuid m ca pool ea ex ext now)))) w"
proof -
  let ?new = "\<lambda>r v. \<forall>i. r = Inr i \<longrightarrow> (\<exists>uuid m now. i = minted uuid m ca pool ea ex ext zero_time \<and>
      intent_row (dep w) m = None \<and> intent_row (dep v) m = Some (minted uuid m ca pool ea ex ext now))"
  have "wp (create_intent_tries e n ca pool ea ex ext) (\<lambda>r v. intents_kept w v \<and> ?new r v) u"
    if "intents_kept w u" for n u
    using that
  proof (induction n arbitrary: u)
    case (Suc n)
    show ?case
      unfolding create_intent_tries.simps wp_bind wp_ask
    proof (rule wp_dep_stmt, goal_cases)
      case (1 v)
      let ?m = "of_nat (random_uint63 e (tick u) mod 2 ^ 63) :: 64 word"
      let ?s = "insert_intent (db_now e (tick (u\<lparr>tick := Suc (tick u), tick := Suc (tick (u\<lparr>tick := Suc (tick u)\<rparr>))\<rparr>)))
        (random_uuid e (tick (u\<lparr>tick := Suc (tick u)\<rparr>))) ?m ca pool ea ex ext (dep u)"
      have v: "dep v = snd ?s" using 1 by simp
      then have keep: "intents_kept w v" using Suc.prems insert_keeps_intents by (simp add: intents_kept_def)
      show ?case
      proof (cases "fst ?s")
        case None
        then show ?thesis using Suc.IH [OF keep] by simp
      next
        case (Some i)
        have "intent_row (dep w) ?m = None"
          using insert_intent_row(1) [OF Some] Suc.prems by (cases "intent_row (dep w) ?m") (auto simp: intents_kept_def)
        then show ?thesis
          using Some keep insert_intent_row(2,3) [OF Some] v by (simp add: minted_def)
      qed
    next
      case (2 err v)
      have "intents_kept w v" using 2(5) Suc.prems insert_keeps_intents by (auto simp: intents_kept_def)
      then show ?case by simp
    qed
  qed simp
  from this [of w 5] show ?thesis unfolding create_intent_def by (simp add: intents_kept_def)
qed

text \<open>
  A minted intent is new and routable. When \<open>CreateIntent\<close> succeeds, no intent had the memo it
  returns, and the database now has a pending intent under that memo with the caller's
  C-address, pool, expiry and order id; intents that existed are unchanged by it, success or not.
\<close>

lemma create_intent_mints_fresh_memo:
  "wp (create_intent e ca pool ea ex ext) (\<lambda>r w'.
     (\<forall>m i. intent_row (dep w) m = Some i \<longrightarrow> intent_row (dep w') m = Some i) \<and>
     (\<forall>i. r = Inr i \<longrightarrow> intent_row (dep w) (from_bigint (memo_id i)) = None \<and>
        (\<exists>j. intent_row (dep w') (from_bigint (memo_id i)) = Some j \<and> intent_id j = intent_id i \<and>
           c_address j = ca \<and> intent_pool j = pool \<and> expires_at j = ex \<and> external_id j = ext \<and>
           intent_status j = IntentPending))) w"
  by (rule wp_mono [OF wp_mint]) (auto simp: intents_kept_def minted_def)

end
