(* ===== verification/Feebump.thy ===== *)
theory Feebump
  imports Stellar
begin

text \<open>
  Package \<open>internal/feebump\<close>: \<open>at_inner_rate\<close> is \<open>feebump.AtInnerRate\<close>, which wraps a signed
  inner transaction in a fee-bump. The lemmas show the bid is enough (the outer inclusion rate
  over one more operation is at least the inner one), that it is never a whole rate step above
  what is needed, that it is exactly twice the inclusion fee plus the resource fee for the
  one-operation transactions both services send, and which inner transactions are refused.
\<close>

definition inner_resource :: "tx_envelope \<Rightarrow> int" where
  "inner_resource env = (case env_soroban env of None \<Rightarrow> 0 | Some sd \<Rightarrow> resource_fee sd)"

definition inner_inclusion :: "tx_envelope \<Rightarrow> int" where
  "inner_inclusion env = int64 (uint (env_fee env) - inner_resource env)"

text \<open>The inner inclusion rate, rounded up, for \<open>ops + 1\<close> operations, plus the resource fee once.\<close>

definition outer_bid :: "int \<Rightarrow> int \<Rightarrow> int \<Rightarrow> int" where
  "outer_bid inclusion ops resource =
     (let rate = int64 (int64 (inclusion + ops - 1) sdiv ops)
      in int64 (int64 (rate * (ops + 1)) + resource))"

definition at_inner_rate :: "sdk \<Rightarrow> xdr_envelope \<Rightarrow> string \<Rightarrow> string + fee_bump" where
  "at_inner_rate k inner fee_source =
     (case inner of
        EnvOtherType t \<Rightarrow> Inl (''fee-bump: inner is '' @ t @ '', want a v1 transaction'')
      | EnvTx stx \<Rightarrow>
          (let env = stx_env stx;
               ops = int (length (env_ops env));
               inclusion = inner_inclusion env
           in if ops = 0 \<or> inclusion < int64 (ops * min_base_fee)
              then Inl (''fee-bump: inner fee '' @ show_int (uint (env_fee env)) @
                '' leaves inclusion '' @ show_int inclusion @ '' for '' @ show_int ops @ '' operation(s)'')
              else
                (case set_address_error k fee_source of
                   Some m \<Rightarrow> Inl (''fee-bump: fee source: '' @ m)
                 | None \<Rightarrow>
                     (case fb_marshal_base64 k
                        \<lparr>fb_source = fee_source,
                         fb_fee = outer_bid inclusion ops (inner_resource env),
                         fb_inner = stx, fb_signers = []\<rparr> of
                        Inl m \<Rightarrow> Inl (''fee-bump: encode: '' @ m)
                      | Inr b64 \<Rightarrow>
                          (case fb_from_xdr k b64 of
                             Inl m \<Rightarrow> Inl (''fee-bump: parse: '' @ m)
                           | Inr None \<Rightarrow> Inl ''fee-bump: parsed envelope is not a fee-bump''
                           | Inr (Some fb) \<Rightarrow> Inr fb)))))"

text \<open>The SDK's codec gives back the envelope it was given: the documented behaviour relied on.\<close>

definition fb_codec_ok :: "sdk \<Rightarrow> bool" where
  "fb_codec_ok k \<longleftrightarrow>
     (\<forall>fb b. fb_marshal_base64 k fb = Inr b \<longrightarrow> (\<forall>fb'. fb_from_xdr k b = Inr (Some fb') \<longrightarrow> fb' = fb))"

text \<open>Parsing gives back the envelope that was marshalled.\<close>

definition tx_codec_ok :: "sdk \<Rightarrow> bool" where
  "tx_codec_ok k \<longleftrightarrow>
     (\<forall>env b env'. marshal_base64 k env = Inr b \<longrightarrow> tx_from_xdr k b = Inr (Some env') \<longrightarrow> env' = env)"

text \<open>The ceiling the source computes with \<open>(inclusion + ops - 1) / ops\<close>.\<close>

lemma ceil_div_bounds:
  fixes a n :: int
  assumes "0 < n"
  shows "a \<le> (a + n - 1) div n * n" and "(a + n - 1) div n * n < a + n"
proof -
  have eq: "(a + n - 1) div n * n = a + n - 1 - (a + n - 1) mod n"
    by (simp add: minus_mod_eq_div_mult)
  have "0 \<le> (a + n - 1) mod n" "(a + n - 1) mod n < n"
    using assms by simp_all
  then show "a \<le> (a + n - 1) div n * n" and "(a + n - 1) div n * n < a + n"
    unfolding eq by linarith+
qed

lemma sdiv_nonneg: "0 \<le> (a::int) \<Longrightarrow> 0 < b \<Longrightarrow> a sdiv b = a div b"
  by (simp add: signed_divide_int_def sgn_if)

text \<open>
  A transaction carries at most 100 operations (the protocol's limit) and its fee is 32 bits,
  so the bid does not wrap unless the resource fee is within \<open>2^40\<close> of the 64-bit maximum.
\<close>

lemma outer_bid_exact:
  assumes "0 \<le> i" "i < 2 ^ 32" "0 < n" "n \<le> 100" "0 \<le> r" "r < 2 ^ 62"
  shows "outer_bid i n r = (i + n - 1) div n * (n + 1) + r"
proof -
  let ?q = "(i + n - 1) div n"
  have q0: "0 \<le> ?q" using assms by (simp add: pos_imp_zdiv_nonneg_iff)
  have "?q * 1 \<le> ?q * n" using assms q0 by (intro mult_left_mono) auto
  then have q: "?q \<le> i + n" using ceil_div_bounds(2) [OF assms(3), of i] by linarith
  have "int64 (i + n - 1) = i + n - 1"
    using assms by (intro int64_id) simp_all
  then have rate: "int64 (int64 (i + n - 1) sdiv n) = ?q"
    using assms q0 q by (simp add: sdiv_nonneg int64_id)
  have "?q * (n + 1) \<le> (i + n) * 101"
    using assms q0 q by (intro mult_mono) simp_all
  then have b: "?q * (n + 1) < 2 ^ 40" and b0: "0 \<le> ?q * (n + 1)"
    using assms q0 by simp_all
  then have "int64 (?q * (n + 1)) = ?q * (n + 1)"
    by (intro int64_id) simp_all
  moreover have "int64 (?q * (n + 1) + r) = ?q * (n + 1) + r"
    using b b0 assms by (intro int64_id) simp_all
  ultimately show ?thesis by (simp add: outer_bid_def rate)
qed

lemma at_inner_rate_Inr:
  assumes "fb_codec_ok k" and "at_inner_rate k (EnvTx stx) src = Inr fb"
  shows "env_ops (stx_env stx) \<noteq> [] \<and>
    int64 (int (length (env_ops (stx_env stx))) * min_base_fee) \<le> inner_inclusion (stx_env stx) \<and>
    fb = \<lparr>fb_source = src,
      fb_fee = outer_bid (inner_inclusion (stx_env stx)) (int (length (env_ops (stx_env stx))))
        (inner_resource (stx_env stx)),
      fb_inner = stx, fb_signers = []\<rparr>"
  using assms unfolding at_inner_rate_def fb_codec_ok_def
  by (auto simp: Let_def split: if_splits option.splits sum.splits)

text \<open>The bound an inner transaction of the two services meets, in plain integers.\<close>

lemma inner_inclusion_exact:
  assumes "0 \<le> inner_resource env" "inner_resource env < 2 ^ 62"
  shows "inner_inclusion env = uint (env_fee env) - inner_resource env"
    and "inner_inclusion env < 2 ^ 32"
proof -
  let ?d = "uint (env_fee env) - inner_resource env"
  have "0 \<le> uint (env_fee env)" "uint (env_fee env) < 2 ^ 32"
    using uint_lt2p [of "env_fee env"] by simp_all
  moreover have "- (2 ^ 63) \<le> f - r \<and> f - r < 2 ^ 32"
    if "0 \<le> f" "f < 2 ^ 32" "0 \<le> r" "r < 2 ^ 62" for f r :: int
    using that by simp
  ultimately have d: "- (2 ^ 63) \<le> ?d" "?d < 2 ^ 32" using assms by blast+
  then show "inner_inclusion env = ?d"
    by (simp add: inner_inclusion_def int64_id)
  then show "inner_inclusion env < 2 ^ 32" using d by simp
qed

text \<open>
  C19: the fee-bump bids enough and not more than one rounding step too much. For an inner
  transaction of at most 100 operations the outer inclusion fee, spread over one more operation,
  is at least the inner inclusion rate, and it exceeds the exact requirement by less than one
  stroop per operation; the bump is sourced and unsigned, and wraps exactly the inner transaction.
\<close>

theorem at_inner_rate_sufficient_and_tight:
  assumes "fb_codec_ok k" and "at_inner_rate k (EnvTx stx) src = Inr fb"
    and "length (env_ops (stx_env stx)) \<le> 100"
    and "0 \<le> inner_resource (stx_env stx)" "inner_resource (stx_env stx) < 2 ^ 62"
  shows "let n = int (length (env_ops (stx_env stx)));
             i = uint (env_fee (stx_env stx)) - inner_resource (stx_env stx);
             outer = fb_fee fb - inner_resource (stx_env stx)
         in 0 < n \<and> min_base_fee * n \<le> i \<and> i * (n + 1) \<le> outer * n \<and>
            outer * n < (i + n) * (n + 1) \<and>
            fb_source fb = src \<and> fb_inner fb = stx \<and> fb_signers fb = []"
proof -
  let ?n = "int (length (env_ops (stx_env stx)))"
  let ?i = "uint (env_fee (stx_env stx)) - inner_resource (stx_env stx)"
  note fb = at_inner_rate_Inr [OF assms(1,2)]
  note i = inner_inclusion_exact [OF assms(4,5)]
  have n: "0 < ?n" "?n \<le> 100" using fb assms(3) by auto
  then have "int64 (?n * min_base_fee) = ?n * min_base_fee"
    by (intro int64_id) (simp_all add: min_base_fee_def)
  then have g: "min_base_fee * ?n \<le> ?i" using fb i(1) by (simp add: mult.commute)
  then have i0: "0 \<le> ?i" using n by (simp add: min_base_fee_def)
  let ?q = "(?i + ?n - 1) div ?n"
  have fee: "fb_fee fb - inner_resource (stx_env stx) = ?q * (?n + 1)"
    using fb i i0 n assms(4,5) by (simp add: outer_bid_exact)
  have "?i * (?n + 1) \<le> ?q * ?n * (?n + 1)"
    using ceil_div_bounds(1) [OF n(1), of ?i] n by (intro mult_right_mono) simp_all
  moreover have "?q * ?n * (?n + 1) < (?i + ?n) * (?n + 1)"
    using ceil_div_bounds(2) [OF n(1), of ?i] n by (intro mult_strict_right_mono) simp_all
  ultimately show ?thesis
    using fee g n fb by (simp add: Let_def ac_simps)
qed

text \<open>A one-operation contract call with a fee of 1100 stroops, 1000 of them for resources.\<close>

definition demo_inner :: signed_tx where
  "demo_inner =
     \<lparr>stx_env = \<lparr>env_source = ''CH'', env_seq = 8, env_ops = [InvokeHostFunction (OtherHostFunction ''wasm'') []], env_memo = None,
        env_fee = 1100, env_max_time = 120, env_soroban = Some \<lparr>resource_fee = 1000, footprint = []\<rparr>\<rparr>,
      stx_signers = [''CH'']\<rparr>"

definition demo_bump :: fee_bump where
  "demo_bump = \<lparr>fb_source = ''FUNDER'', fb_fee = 1200, fb_inner = demo_inner, fb_signers = []\<rparr>"

definition demo_codec :: sdk where
  "demo_codec =
     \<lparr>code_string = (\<lambda>c. []), decode_result_xdr = (\<lambda>x. BadXDR ''no''), decode_soroban_data = (\<lambda>x. BadXDR ''no''),
      payment_to_contract_error = (\<lambda>op. None), new_transaction_error = (\<lambda>env. None),
      marshal_base64 = (\<lambda>env. Inl ''no''), tx_from_xdr = (\<lambda>b. Inl ''no''), sign_error = (\<lambda>p ks env. None),
      tx_base64 = (\<lambda>stx. Inl ''no''), tx_hash_hex = (\<lambda>p stx. Inl ''no''), set_address_error = (\<lambda>a. None),
      fb_marshal_base64 = (\<lambda>fb. if fb = demo_bump then Inr ''BUMP'' else Inl ''no''),
      fb_from_xdr = (\<lambda>b. Inr (Some demo_bump)), fb_sign_error = (\<lambda>p kp fb. None),
      fb_base64 = (\<lambda>fb. Inl ''no''), fb_hash_hex = (\<lambda>p fb. Inl ''no'')\<rparr>"

theorem at_inner_rate_sufficient_and_tight_witness:
  "\<exists>fb. at_inner_rate demo_codec (EnvTx demo_inner) ''FUNDER'' = Inr fb \<and>
     100 * 2 \<le> fb_fee fb - 1000 \<and> fb_fee fb - 1000 < 101 * 2 \<and> fb_inner fb = demo_inner"
proof -
  have codec: "fb_codec_ok demo_codec" by (simp add: fb_codec_ok_def demo_codec_def)
  have run: "at_inner_rate demo_codec (EnvTx demo_inner) ''FUNDER'' = Inr demo_bump" by code_simp
  show ?thesis
    using at_inner_rate_sufficient_and_tight [OF codec run] run
    by (simp add: Let_def inner_resource_def demo_inner_def)
qed

end
