(* ===== verification/Forwarder_Submit.thy ===== *)
theory Forwarder_Submit
  imports Bridge_World Feebump
begin

text \<open>
  The submit pipeline of \<open>internal/service/forwarder/forwarder.go\<close>: building, signing, recording,
  sending and confirming one outbound transaction, from the pool account (\<open>transfer\<close>) or from a
  leased channel (\<open>transfer_via_channel\<close>). Logging and metrics are left out; everything else the
  functions do is here, in order, with deferred calls written at the returns they run at.
\<close>

section \<open>Configuration and constants\<close>

record pool_account =
  pa_address :: string
  pa_keypair :: keypair

text \<open>\<open>channel_keys = None\<close> is a forwarder on which \<open>UseChannels\<close> was not called.\<close>

record bridge_config =
  network_passphrase :: string
  recovery_address :: string
  accepted_assets :: "string list"
  pool_accounts :: "pool_account list"
  instance_id :: string
  channel_keys :: "(string \<rightharpoonup> keypair) option"

definition max_retries :: nat where "max_retries = 5"
definition max_try_again :: nat where "max_try_again = 5"
definition max_fee_retries :: nat where "max_fee_retries = 2"
definition tx_validity :: duration where "tx_validity = 2 * minute"
definition channel_lease_ttl :: duration where "channel_lease_ttl = 4 * minute"
definition channel_wait :: duration where "channel_wait = 30 * second"
definition landing_grace :: duration where "landing_grace = 30 * second"

text \<open>\<open>UseChannels\<close>: the keys by address; a repeated address keeps the last.\<close>

definition use_channels :: "(string \<times> keypair) list \<Rightarrow> bridge_config \<Rightarrow> bridge_config" where
  "use_channels chans cfg = cfg\<lparr>channel_keys := Some (map_of (rev chans))\<rparr>"

section \<open>Errors\<close>

datatype submit_error =
    SubmitError (is_perm: bool) (is_cont: bool) (is_unconf: bool) string
  | FeeError string
  | ErrAwaitingTrustline string
  | ErrTrustlineUnknown string

definition permanent :: "string \<Rightarrow> submit_error" where
  "permanent m = SubmitError True False False m"

definition transient :: "string \<Rightarrow> submit_error" where
  "transient m = SubmitError False False False m"

definition contention :: "string \<Rightarrow> submit_error" where
  "contention m = SubmitError False True False m"

definition unconfirmed :: "string \<Rightarrow> submit_error" where
  "unconfirmed m = SubmitError False False True m"

fun is_permanent :: "submit_error \<Rightarrow> bool" where
  "is_permanent (SubmitError p c u m) \<longleftrightarrow> p"
| "is_permanent _ \<longleftrightarrow> False"

fun is_contention :: "submit_error \<Rightarrow> bool" where
  "is_contention (SubmitError p c u m) \<longleftrightarrow> c"
| "is_contention _ \<longleftrightarrow> False"

fun is_unconfirmed :: "submit_error \<Rightarrow> bool" where
  "is_unconfirmed (SubmitError p c u m) \<longleftrightarrow> u"
| "is_unconfirmed _ \<longleftrightarrow> False"

fun error_string :: "submit_error \<Rightarrow> string" where
  "error_string (SubmitError p c u m) = m"
| "error_string (FeeError m) = m"
| "error_string (ErrAwaitingTrustline m) = m"
| "error_string (ErrTrustlineUnknown m) = m"

text \<open>\<open>xdr.TransactionResultCode\<close> by number: only the fee code is printed by number.\<close>

definition insufficient_fee_code :: int where
  "insufficient_fee_code = - 9"

definition classify_result_xdr :: "sdk \<Rightarrow> string \<Rightarrow> submit_error" where
  "classify_result_xdr k x =
     (if x = [] then transient ''transaction rejected (no result XDR)''
      else case decode_result_xdr k x of
        BadBase64 m \<Rightarrow> transient (''transaction rejected (cannot decode result XDR): '' @ m)
      | BadXDR m \<Rightarrow> transient (''transaction rejected (cannot parse result XDR): '' @ m)
      | Decoded r \<Rightarrow>
          (let code = effective_code r in
           if code = TxInsufficientFee
           then FeeError (''tx_insufficient_fee (result code '' @ show_int insufficient_fee_code @ '')'')
           else if code = TxBadSeq
           then contention (''transaction rejected with contention code '' @ code_string k code)
           else if code = TxTooEarly \<or> code = TxTooLate \<or> code = TxInternalError
           then transient (''transaction rejected with transient code '' @ code_string k code)
           else permanent (''transaction rejected with permanent code '' @ code_string k code)))"

section \<open>Assets and keys\<close>

definition parse_asset :: "string \<Rightarrow> string + asset" where
  "parse_asset a =
     (if a = ''native'' then Inr NativeAsset
      else case cut CHR '':'' a of (code, issuer, found) \<Rightarrow>
        if \<not> found \<or> code = [] \<or> issuer = [] then Inl (''unparseable asset '' @ go_quote a)
        else Inr (CreditAsset code issuer))"

definition accepts :: "bridge_config \<Rightarrow> string \<Rightarrow> bool" where
  "accepts cfg a \<longleftrightarrow> accepted_assets cfg = [] \<or> a \<in> set (accepted_assets cfg)"

definition keypair_for :: "bridge_config \<Rightarrow> string \<Rightarrow> string + keypair" where
  "keypair_for cfg pool =
     (case List.find (\<lambda>pa. pa_address pa = pool) (pool_accounts cfg) of
        None \<Rightarrow> Inl (''no keypair found for pool address '' @ pool)
      | Some pa \<Rightarrow> Inr (pa_keypair pa))"

section \<open>Building\<close>

record prepared =
  prep_env :: tx_envelope
  set_fee :: "tx_envelope \<Rightarrow> 32 word \<Rightarrow> tx_envelope"

text \<open>The source account, its sequence number and the deadline give a transaction, or an error.\<close>

type_synonym prepare_fn = "string \<Rightarrow> int \<Rightarrow> instant \<Rightarrow> (submit_error + prepared) bridge"

definition base_envelope :: "string \<Rightarrow> int \<Rightarrow> operation \<Rightarrow> string option \<Rightarrow> instant \<Rightarrow> tx_envelope" where
  "base_envelope src seq op memo until =
     \<lparr>env_source = src, env_seq = seq, env_ops = [op], env_memo = memo,
      env_fee = of_int min_base_fee, env_max_time = unix_seconds until, env_soroban = None\<rparr>"

definition contract_fee :: "32 word \<Rightarrow> int \<Rightarrow> 32 word" where
  "contract_fee inclusion resource = inclusion + of_int resource + 10000"

definition prepare_contract_payment ::
  "runtime \<Rightarrow> sdk \<Rightarrow> bridge_config \<Rightarrow> string \<Rightarrow> string \<Rightarrow> string \<Rightarrow> string \<Rightarrow> prepare_fn"
where
  "prepare_contract_payment e k cfg pool c_addr amt ass src seq until =
     (case parse_asset ass of
        Inl m \<Rightarrow> ret (Inl (permanent m))
      | Inr a \<Rightarrow>
          let op = PaymentToContract (network_passphrase cfg) c_addr amt a pool;
              env = base_envelope src seq op None until
          in case payment_to_contract_error k op of
               Some m \<Rightarrow> ret (Inl (permanent (''build payment-to-contract: '' @ m)))
             | None \<Rightarrow>
          (case new_transaction_error k env of
             Some m \<Rightarrow> ret (Inl (permanent (''build tx for simulation: '' @ m)))
           | None \<Rightarrow>
          (case marshal_base64 k env of
             Inl m \<Rightarrow> ret (Inl (permanent (''marshal tx for simulation: '' @ m)))
           | Inr b64 \<Rightarrow> do {
               r \<leftarrow> ask (\<lambda>n. simulate_transaction e n b64);
               ret (case r of
                      Inl m \<Rightarrow> Inl (transient (''simulate tx: '' @ m))
                    | Inr sim \<Rightarrow>
                        if sim_error sim \<noteq> [] then Inl (permanent (''simulate tx: '' @ sim_error sim))
                        else case decode_soroban_data k (sim_data_xdr sim) of
                          BadBase64 m \<Rightarrow> Inl (permanent (''decode simulation data: '' @ m))
                        | BadXDR m \<Rightarrow> Inl (permanent (''unmarshal soroban data: '' @ m))
                        | Decoded sd \<Rightarrow> Inr
                            \<lparr>prep_env = env,
                             set_fee = (\<lambda>v fee. v\<lparr>env_soroban := Some sd,
                               env_fee := contract_fee fee (min_resource_fee sim)\<rparr>)\<rparr>) })))"

section \<open>Sealing\<close>

definition reparse :: "sdk \<Rightarrow> tx_envelope \<Rightarrow> string + tx_envelope" where
  "reparse k env =
     (case marshal_base64 k env of
        Inl m \<Rightarrow> Inl (''marshal tx: '' @ m)
      | Inr b64 \<Rightarrow>
          (case tx_from_xdr k b64 of
             Inl m \<Rightarrow> Inl (''parse tx: '' @ m)
           | Inr None \<Rightarrow> Inl ''envelope is not a simple transaction''
           | Inr (Some env') \<Rightarrow> Inr env'))"

text \<open>The wire form and the hash of the signed transaction.\<close>

type_synonym seal_fn = "tx_envelope \<Rightarrow> string + string \<times> string"

definition seal_as_pool :: "sdk \<Rightarrow> bridge_config \<Rightarrow> keypair \<Rightarrow> seal_fn" where
  "seal_as_pool k cfg pool env =
     (case reparse k env of
        Inl m \<Rightarrow> Inl m
      | Inr tx \<Rightarrow>
          (case sign_tx k (network_passphrase cfg) [pool] tx of
             Inl m \<Rightarrow> Inl (''sign tx: '' @ m)
           | Inr stx \<Rightarrow>
               (case tx_base64 k stx of
                  Inl m \<Rightarrow> Inl (''encode tx: '' @ m)
                | Inr b64 \<Rightarrow>
                    (case tx_hash_hex k (network_passphrase cfg) stx of
                       Inl m \<Rightarrow> Inl (''hash tx: '' @ m)
                     | Inr x \<Rightarrow> Inr (b64, x)))))"

definition seal_via_channel :: "sdk \<Rightarrow> bridge_config \<Rightarrow> keypair \<Rightarrow> keypair \<Rightarrow> seal_fn" where
  "seal_via_channel k cfg channel pool env =
     (case reparse k env of
        Inl m \<Rightarrow> Inl m
      | Inr tx \<Rightarrow>
          (case sign_tx k (network_passphrase cfg) [channel, pool] tx of
             Inl m \<Rightarrow> Inl (''sign inner tx: '' @ m)
           | Inr inner \<Rightarrow>
               (case at_inner_rate k (EnvTx inner) (kp_address pool) of
                  Inl m \<Rightarrow> Inl m
                | Inr outer \<Rightarrow>
                    (case sign_fee_bump k (network_passphrase cfg) pool outer of
                       Inl m \<Rightarrow> Inl (''sign fee-bump: '' @ m)
                     | Inr fb \<Rightarrow>
                         (case fb_base64 k fb of
                            Inl m \<Rightarrow> Inl (''encode fee-bump: '' @ m)
                          | Inr b64 \<Rightarrow>
                              (case fb_hash_hex k (network_passphrase cfg) fb of
                                 Inl m \<Rightarrow> Inl (''hash fee-bump: '' @ m)
                               | Inr x \<Rightarrow> Inr (b64, x)))))))"

section \<open>Sending and confirming\<close>

text \<open>\<open>forgetSubmission\<close>: whether the hash was cleared.\<close>

definition forget_submission :: "runtime \<Rightarrow> string \<Rightarrow> bool bridge" where
  "forget_submission e h = do {
     err \<leftarrow> clear_submission e h;
     ret (err = None)
   }"

text \<open>
  \<open>rpc.SendTransaction\<close>, with the ghost entry for a transaction that may have been queued.
\<close>

definition rpc_send :: "runtime \<Rightarrow> string \<Rightarrow> string \<Rightarrow> string \<Rightarrow> (string + send_response) bridge" where
  "rpc_send e h x b64 = do {
     r \<leftarrow> ask (\<lambda>n. send_transaction e n b64);
     (if may_be_queued r then modify (\<lambda>w. w\<lparr>queued := queued w @ [(h, x)]\<rparr>) else skip);
     ret r
   }"

text \<open>The attempts left; the first one, with \<open>max_try_again + 1\<close> left, does not wait a ledger.\<close>

fun send_loop ::
  "runtime \<Rightarrow> sdk \<Rightarrow> string \<Rightarrow> string \<Rightarrow> string \<Rightarrow> nat \<Rightarrow> (submit_error + string) bridge"
where
  "send_loop e k h x b64 0 = do {
     forget_submission e h;
     ret (Inl (transient (''TRY_AGAIN_LATER after '' @ show_nat max_try_again @ '' retries'')))
   }"
| "send_loop e k h x b64 (Suc n) = do {
     cancelled \<leftarrow> (if n < max_try_again then ask (ctx_done e) else ret False);
     if cancelled then do {
       forget_submission e h;
       m \<leftarrow> ask (ctx_err e);
       ret (Inl (transient m))
     } else do {
       r \<leftarrow> rpc_send e h x b64;
       (case r of
          Inl m \<Rightarrow> ret (Inl (unconfirmed (''send transaction '' @ x @ '': '' @ m)))
        | Inr resp \<Rightarrow>
            (case send_status resp of
               SendPENDING \<Rightarrow> ret (Inr (send_hash resp))
             | SendDUPLICATE \<Rightarrow> ret (Inr (send_hash resp))
             | SendTRY_AGAIN_LATER \<Rightarrow> send_loop e k h x b64 n
             | SendERROR \<Rightarrow> do {
                 forget_submission e h;
                 ret (Inl (classify_result_xdr k (error_result_xdr resp))) }
             | SendOther st \<Rightarrow> ret (Inl (unconfirmed (''unknown send status '' @ st @ '' for '' @ x)))))
     }
   }"

definition sign_and_send ::
  "runtime \<Rightarrow> sdk \<Rightarrow> string \<Rightarrow> seal_fn \<Rightarrow> tx_envelope \<Rightarrow> instant \<Rightarrow> (submit_error + string) bridge"
where
  "sign_and_send e k h seal env until =
     (case seal env of
        Inl m \<Rightarrow> ret (Inl (permanent m))
      | Inr (b64, x) \<Rightarrow> do {
          err \<leftarrow> record_submission e h x until;
          (case err of
             Some ErrSubmissionClaimed \<Rightarrow>
               ret (Inl (contention (''outbound '' @ x @ '' already recorded for another deposit'')))
           | Some err' \<Rightarrow> ret (Inl (transient (store_error_text err')))
           | None \<Rightarrow> send_loop e k h x b64 (Suc max_try_again)) })"

fun tx_status_string :: "tx_status \<Rightarrow> string" where
  "tx_status_string TxSuccess = ''SUCCESS''"
| "tx_status_string TxFailed = ''FAILED''"
| "tx_status_string TxNotFound = ''NOT_FOUND''"
| "tx_status_string (TxOtherStatus s) = s"

definition poll_result :: "runtime \<Rightarrow> sdk \<Rightarrow> string \<Rightarrow> (submit_error + string) bridge" where
  "poll_result e k x = do {
     r \<leftarrow> ask (\<lambda>n. poll_transaction e n x);
     ret (case r of
            Inl m \<Rightarrow> Inl (unconfirmed (''poll transaction '' @ x @ '': '' @ m))
          | Inr resp \<Rightarrow>
              (case tx_status resp of
                 TxSuccess \<Rightarrow> Inr x
               | TxFailed \<Rightarrow> Inl (classify_result_xdr k (result_xdr resp))
               | st \<Rightarrow> Inl (unconfirmed (''unexpected poll status '' @ tx_status_string st @ '' for '' @ x))))
   }"

section \<open>Transfer from the pool\<close>

text \<open>The two deferred functions of \<open>transfer\<close> on a return before the send was accepted.\<close>

definition abandon_send :: "string \<Rightarrow> submit_error \<Rightarrow> unit bridge" where
  "abandon_send pool err = do {
     (if is_unconfirmed err then skip else resync pool);
     unlock_send pool
   }"

definition fee_exhausted :: "submit_error \<Rightarrow> submit_error" where
  "fee_exhausted err =
     (case err of FeeError m \<Rightarrow> transient (m @ '' (fee retries exhausted)'') | _ \<Rightarrow> err)"

definition is_fee_error :: "submit_error \<Rightarrow> bool" where
  "is_fee_error err \<longleftrightarrow> (case err of FeeError m \<Rightarrow> True | _ \<Rightarrow> False)"

fun fee_loop ::
  "runtime \<Rightarrow> sdk \<Rightarrow> bridge_config \<Rightarrow> string \<Rightarrow> string \<Rightarrow> keypair \<Rightarrow> instant \<Rightarrow>
   (tx_envelope \<Rightarrow> 32 word \<Rightarrow> tx_envelope) \<Rightarrow> nat \<Rightarrow> tx_envelope \<Rightarrow> 32 word \<Rightarrow>
   (submit_error + string) bridge"
where
  "fee_loop e k cfg h pool kp until price 0 env fee = do {
     (let err = transient (''insufficient fee after '' @ show_nat max_fee_retries @ '' retries'')
      in do { abandon_send pool err; ret (Inl err) })
   }"
| "fee_loop e k cfg h pool kp until price (Suc n) env fee = do {
     (let env' = price env fee in do {
       r \<leftarrow> sign_and_send e k h (seal_as_pool k cfg kp) env' until;
       (case r of
          Inr x \<Rightarrow> do {
            unlock_send pool;
            p \<leftarrow> poll_result e k x;
            (case p of
               Inl err \<Rightarrow> if is_unconfirmed err then ret p else do { forget_submission e h; ret p }
             | Inr _ \<Rightarrow> ret p) }
        | Inl err \<Rightarrow>
            if is_fee_error err \<and> 0 < n
            then fee_loop e k cfg h pool kp until price n env' (fee * 2)
            else do { abandon_send pool (fee_exhausted err); ret (Inl (fee_exhausted err)) }) })
   }"

definition transfer_as_pool ::
  "runtime \<Rightarrow> sdk \<Rightarrow> bridge_config \<Rightarrow> string \<Rightarrow> string \<Rightarrow> keypair \<Rightarrow> prepare_fn \<Rightarrow>
   (submit_error + string) bridge"
where
  "transfer_as_pool e k cfg h pool kp prepare = do {
     lock_send pool;
     s \<leftarrow> seq_next e pool;
     (case s of
        Inl m \<Rightarrow> do { unlock_send pool; ret (Inl (transient m)) }
      | Inr seq \<Rightarrow> do {
          now \<leftarrow> ask (clock e);
          (let until = truncate_second (now + tx_validity) in do {
            p \<leftarrow> prepare pool seq until;
            (case p of
               Inl err \<Rightarrow> do { abandon_send pool err; ret (Inl err) }
             | Inr pr \<Rightarrow> fee_loop e k cfg h pool kp until (set_fee pr) (Suc max_fee_retries)
                          (prep_env pr) (of_int min_base_fee)) }) })
   }"

section \<open>Transfer from a leased channel\<close>

text \<open>
  The closure \<open>release\<close> of \<open>transferViaChannel\<close>: it runs once, and its error is only logged. A
  \<open>released\<close> flag is not needed: each return below calls it once.
\<close>

definition release_channel :: "runtime \<Rightarrow> lease \<Rightarrow> int option \<Rightarrow> bool \<Rightarrow> unit bridge" where
  "release_channel e l consumed rs = do { release e l consumed rs; skip }"

fun channel_fee_loop ::
  "runtime \<Rightarrow> sdk \<Rightarrow> string \<Rightarrow> lease \<Rightarrow> int \<Rightarrow> int \<Rightarrow> seal_fn \<Rightarrow> instant \<Rightarrow>
   (tx_envelope \<Rightarrow> 32 word \<Rightarrow> tx_envelope) \<Rightarrow> nat \<Rightarrow> tx_envelope \<Rightarrow> 32 word \<Rightarrow>
   (submit_error + string) bridge"
where
  "channel_fee_loop e k h l last_seq seq seal until price 0 env fee = do {
     release_channel e l None True;
     ret (Inl (transient (''insufficient fee after '' @ show_nat max_fee_retries @ '' retries'')))
   }"
| "channel_fee_loop e k h l last_seq seq seal until price (Suc n) env fee = do {
     (let env' = price env fee in do {
       r \<leftarrow> sign_and_send e k h seal env' until;
       (case r of
          Inr x \<Rightarrow> do {
            p \<leftarrow> poll_result e k x;
            (case p of
               Inr _ \<Rightarrow> release_channel e l (Some seq) False
             | Inl err \<Rightarrow>
                 if is_unconfirmed err then release_channel e l None True
                 else do { release_channel e l (Some seq) False; forget_submission e h; skip });
            ret p }
        | Inl err \<Rightarrow>
            if is_fee_error err \<and> 0 < n
            then channel_fee_loop e k h l last_seq seq seal until price n env' (fee * 2)
            else do {
              (if is_unconfirmed err \<or> is_contention err \<or> is_fee_error err
               then release_channel e l None True
               else release_channel e l (Some last_seq) False);
              ret (Inl (fee_exhausted err)) }) })
   }"

definition load_channel_seq :: "runtime \<Rightarrow> lease \<Rightarrow> (submit_error + int) bridge" where
  "load_channel_seq e l =
     (if \<not> lease_needs_resync l then ret (Inr (lease_seq l))
      else do {
        r \<leftarrow> ask (\<lambda>n. account_detail e n (lease_address l));
        ret (case r of
               Inl m \<Rightarrow> Inl (transient (''load channel '' @ lease_address l @ '': '' @ m))
             | Inr acct \<Rightarrow>
                 (case hz_sequence acct of
                    Inl m \<Rightarrow> Inl (transient (''channel '' @ lease_address l @ '' sequence: '' @ m))
                  | Inr s \<Rightarrow> Inr s)) })"

definition transfer_via_channel ::
  "runtime \<Rightarrow> sdk \<Rightarrow> bridge_config \<Rightarrow> (string \<rightharpoonup> keypair) \<Rightarrow> string \<Rightarrow> keypair \<Rightarrow> prepare_fn \<Rightarrow>
   (submit_error + string) bridge"
where
  "transfer_via_channel e k cfg keys h pool prepare = do {
     a \<leftarrow> acquire_wait e (instance_id cfg) channel_lease_ttl channel_wait;
     (case a of
        Inl ErrPoolCapacity \<Rightarrow> ret (Inl (contention ''all deposit channels are busy''))
      | Inl err \<Rightarrow> ret (Inl (transient (''lease channel: '' @ pool_error_string err)))
      | Inr l \<Rightarrow>
          (case keys (lease_address l) of
             None \<Rightarrow> do {
               release_channel e l None True;
               ret (Inl (transient (''no key for leased channel '' @ lease_address l))) }
           | Some channel_key \<Rightarrow> do {
               s \<leftarrow> load_channel_seq e l;
               (case s of
                  Inl err \<Rightarrow> do { release_channel e l None True; ret (Inl err) }
                | Inr last_seq \<Rightarrow> do {
                    now \<leftarrow> ask (clock e);
                    (let until = truncate_second (now + tx_validity); seq = int64 (last_seq + 1) in do {
                      p \<leftarrow> prepare (lease_address l) seq until;
                      (case p of
                         Inl err \<Rightarrow> do { release_channel e l (Some last_seq) False; ret (Inl err) }
                       | Inr pr \<Rightarrow>
                           channel_fee_loop e k h l last_seq seq (seal_via_channel k cfg channel_key pool) until
                             (set_fee pr) (Suc max_fee_retries) (prep_env pr) (of_int min_base_fee)) }) }) }))
   }"

definition transfer ::
  "runtime \<Rightarrow> sdk \<Rightarrow> bridge_config \<Rightarrow> string \<Rightarrow> string \<Rightarrow> prepare_fn \<Rightarrow> (submit_error + string) bridge"
where
  "transfer e k cfg h pool prepare =
     (case keypair_for cfg pool of
        Inl m \<Rightarrow> ret (Inl (permanent m))
      | Inr kp \<Rightarrow>
          (case channel_keys cfg of
             Some keys \<Rightarrow> transfer_via_channel e k cfg keys h kp prepare
           | None \<Rightarrow> transfer_as_pool e k cfg h pool kp prepare))"

definition submit ::
  "runtime \<Rightarrow> sdk \<Rightarrow> bridge_config \<Rightarrow> string \<Rightarrow> string \<Rightarrow> string \<Rightarrow> string \<Rightarrow> string \<Rightarrow>
   (submit_error + string) bridge"
where
  "submit e k cfg h c_addr pool amt ass =
     transfer e k cfg h pool (prepare_contract_payment e k cfg pool c_addr amt ass)"

end
