(* ===== verification/Encoding.thy ===== *)
theory Encoding
  imports Prelude
begin

text \<open>
  The parts of \<open>encoding/json\<close>, \<open>encoding/hex\<close> and \<open>crypto/sha256\<close> the sponsor service uses to
  identify a request body: an object of string fields as \<open>json.Marshal\<close> prints it, lower-case
  hexadecimal, and SHA-256 of a byte string.
\<close>

unbundle bit_operations_syntax

section \<open>SHA-256\<close>

text \<open>The round constants and the initial state, two 32-bit words in each numeral.\<close>

definition halves :: "64 word \<Rightarrow> 32 word list" where
  "halves w = [ucast (drop_bit 32 w), ucast w]"

definition sha256_k :: "32 word list" where
  "sha256_k = concat (map halves
      [0x428a2f9871374491, 0xb5c0fbcfe9b5dba5, 0x3956c25b59f111f1, 0x923f82a4ab1c5ed5,
       0xd807aa9812835b01, 0x243185be550c7dc3, 0x72be5d7480deb1fe, 0x9bdc06a7c19bf174,
       0xe49b69c1efbe4786, 0x0fc19dc6240ca1cc, 0x2de92c6f4a7484aa, 0x5cb0a9dc76f988da,
       0x983e5152a831c66d, 0xb00327c8bf597fc7, 0xc6e00bf3d5a79147, 0x06ca635114292967,
       0x27b70a852e1b2138, 0x4d2c6dfc53380d13, 0x650a7354766a0abb, 0x81c2c92e92722c85,
       0xa2bfe8a1a81a664b, 0xc24b8b70c76c51a3, 0xd192e819d6990624, 0xf40e3585106aa070,
       0x19a4c1161e376c08, 0x2748774c34b0bcb5, 0x391c0cb34ed8aa4a, 0x5b9cca4f682e6ff3,
       0x748f82ee78a5636f, 0x84c878148cc70208, 0x90befffaa4506ceb, 0xbef9a3f7c67178f2])"

definition sha256_init :: "32 word list" where
  "sha256_init = concat (map halves
      [0x6a09e667bb67ae85, 0x3c6ef372a54ff53a, 0x510e527f9b05688c, 0x1f83d9ab5be0cd19])"

definition rotr :: "nat \<Rightarrow> 32 word \<Rightarrow> 32 word" where
  "rotr n x = drop_bit n x OR push_bit (32 - n) x"

text \<open>The message, a one bit, zeros, and the bit length as eight bytes: a multiple of 64 bytes.\<close>

definition byte_of :: "char \<Rightarrow> 32 word" where
  "byte_of c = of_nat (of_char c)"

definition be_bytes :: "nat \<Rightarrow> nat \<Rightarrow> char list" where
  "be_bytes w n = map (\<lambda>i. char_of (n div 256 ^ (w - 1 - i) mod 256)) [0..<w]"

definition sha256_pad :: "string \<Rightarrow> string" where
  "sha256_pad s =
     (let n = length s; z = (119 - n mod 64) mod 64
      in s @ CHR 0x80 # replicate z (CHR 0x00) @ be_bytes 8 (8 * n))"

fun words_of :: "string \<Rightarrow> 32 word list" where
  "words_of (a # b # c # d # r) =
     (push_bit 24 (byte_of a) OR push_bit 16 (byte_of b) OR push_bit 8 (byte_of c) OR byte_of d) # words_of r"
| "words_of _ = []"

text \<open>The schedule, newest word first, and the compression of one block.\<close>

definition next_word :: "32 word list \<Rightarrow> 32 word" where
  "next_word ws =
     (let a = ws ! 14; b = ws ! 1;
          s0 = rotr 7 a XOR rotr 18 a XOR drop_bit 3 a;
          s1 = rotr 17 b XOR rotr 19 b XOR drop_bit 10 b
      in ws ! 15 + s0 + ws ! 6 + s1)"

fun extend_schedule :: "nat \<Rightarrow> 32 word list \<Rightarrow> 32 word list" where
  "extend_schedule 0 ws = ws"
| "extend_schedule (Suc n) ws = extend_schedule n (next_word ws # ws)"

definition sha256_round :: "32 word \<times> 32 word \<Rightarrow> 32 word list \<Rightarrow> 32 word list" where
  "sha256_round kw st =
     (case st of
        [a, b, c, d, e, f, g, h] \<Rightarrow>
          (let s1 = rotr 6 e XOR rotr 11 e XOR rotr 25 e;
               ch = (e AND f) XOR (NOT e AND g);
               t1 = h + s1 + ch + fst kw + snd kw;
               s0 = rotr 2 a XOR rotr 13 a XOR rotr 22 a;
               maj = (a AND b) XOR (a AND c) XOR (b AND c)
           in [t1 + (s0 + maj), a, b, c, d + t1, e, f, g])
      | _ \<Rightarrow> st)"

definition sha256_block :: "32 word list \<Rightarrow> 32 word list \<Rightarrow> 32 word list" where
  "sha256_block st block =
     map2 (+) st (fold sha256_round (zip sha256_k (rev (extend_schedule 48 (rev block)))) st)"

function sha256_blocks :: "32 word list \<Rightarrow> 32 word list \<Rightarrow> 32 word list" where
  "sha256_blocks st ws = (if ws = [] then st else sha256_blocks (sha256_block st (take 16 ws)) (drop 16 ws))"
  by pat_completeness auto
termination
  by (relation "measure (length \<circ> snd)") auto

declare sha256_blocks.simps [simp del]

definition sha256 :: "string \<Rightarrow> string" where
  "sha256 s =
     concat (map (\<lambda>w. be_bytes 4 (unat w)) (sha256_blocks sha256_init (words_of (sha256_pad s))))"

section \<open>Hexadecimal\<close>

definition hex_encode :: "string \<Rightarrow> string" where
  "hex_encode s = concat (map (\<lambda>c. [hex_digit (of_char c div 16), hex_digit (of_char c mod 16)]) s)"

section \<open>JSON\<close>

text \<open>
  A string as \<open>json.Marshal\<close> prints it, for ASCII text: quotes, backslashes and control characters
  are escaped, and so are the three characters HTML gives a meaning. Other bytes are kept.
\<close>

definition json_char :: "char \<Rightarrow> string" where
  "json_char c =
     (let n = of_char c :: nat in
      if n = 34 \<or> n = 92 then [CHR 0x5C, c]
      else if n = 8 then [CHR 0x5C, CHR ''b''] else if n = 12 then [CHR 0x5C, CHR ''f'']
      else if n = 10 then [CHR 0x5C, CHR ''n''] else if n = 13 then [CHR 0x5C, CHR ''r'']
      else if n = 9 then [CHR 0x5C, CHR ''t'']
      else if n < 32 \<or> n = 60 \<or> n = 62 \<or> n = 38
      then CHR 0x5C # ''u00'' @ [hex_digit (n div 16), hex_digit (n mod 16)]
      else [c])"

definition json_string :: "string \<Rightarrow> string" where
  "json_string s = CHR 0x22 # concat (map json_char s) @ [CHR 0x22]"

text \<open>An object whose fields are strings, in the order of the struct.\<close>

fun json_fields :: "(string \<times> string) list \<Rightarrow> string" where
  "json_fields [] = []"
| "json_fields [(k, v)] = json_string k @ CHR '':'' # json_string v"
| "json_fields ((k, v) # f # fs) = json_string k @ CHR '':'' # json_string v @ CHR '','' # json_fields (f # fs)"

definition json_object :: "(string \<times> string) list \<Rightarrow> string" where
  "json_object fs = CHR ''{'' # json_fields fs @ [CHR ''}'']"

section \<open>Lemmas: a body is read back from its JSON\<close>

lemma hex_value_digit: "d < 16 \<Longrightarrow> hex_value (hex_digit d) = Some d"
  by (simp add: hex_value_def hex_digit_def Let_def)

lemma hex_digit_inject: "c < 16 \<Longrightarrow> d < 16 \<Longrightarrow> hex_digit c = hex_digit d \<Longrightarrow> c = d"
  by (metis hex_value_digit option.inject)

lemma hex_encode_inject: "hex_encode s = hex_encode t \<Longrightarrow> s = t"
proof (induction s arbitrary: t)
  case Nil
  then show ?case by (cases t) (simp_all add: hex_encode_def)
next
  case (Cons c s)
  then obtain d u where t: "t = d # u" by (cases t) (simp_all add: hex_encode_def)
  have lt: "of_char x div 16 < (16 :: nat)" for x using nat_of_char_less_256 [of x] by (simp add: less_mult_imp_div_less)
  have "of_char c div 16 = (of_char d div 16 :: nat)" "of_char c mod 16 = (of_char d mod 16 :: nat)"
    using Cons.prems t lt by (auto simp: hex_encode_def intro!: hex_digit_inject)
  then have "(of_char c :: nat) = of_char d" by (metis div_mult_mod_eq)
  with Cons t show ?case by (simp add: hex_encode_def)
qed

text \<open>The escape of one character, read from the front of a text.\<close>

definition json_unchar :: "string \<Rightarrow> char" where
  "json_unchar s =
     (if hd s \<noteq> CHR 0x5C then hd s
      else case s ! 1 of
             CHR ''b'' \<Rightarrow> CHR 0x08 | CHR ''f'' \<Rightarrow> CHR 0x0C | CHR ''n'' \<Rightarrow> CHR 0x0A | CHR ''r'' \<Rightarrow> CHR 0x0D
           | CHR ''t'' \<Rightarrow> CHR 0x09
           | CHR ''u'' \<Rightarrow> char_of (16 * the (hex_value (s ! 4)) + the (hex_value (s ! 5)))
           | c \<Rightarrow> c)"

lemma char_is: "(of_char c :: nat) = n \<Longrightarrow> c = char_of n"
  by (metis char_of_char)

lemma escaped_chars:
  "char_of (34 :: nat) = CHR 0x22" "char_of (92 :: nat) = CHR 0x5C" "char_of (8 :: nat) = CHR 0x08"
  "char_of (12 :: nat) = CHR 0x0C" "char_of (10 :: nat) = CHR 0x0A" "char_of (13 :: nat) = CHR 0x0D"
  "char_of (9 :: nat) = CHR 0x09"
  by code_simp+

lemma json_unchar_char: "json_unchar (json_char c @ r) = c"
proof -
  let ?n = "of_char c :: nat"
  consider "?n = 34" | "?n = 92" | "?n = 8" | "?n = 12" | "?n = 10" | "?n = 13" | "?n = 9"
    | "?n \<noteq> 34" "?n \<noteq> 92" "?n \<noteq> 8" "?n \<noteq> 12" "?n \<noteq> 10" "?n \<noteq> 13" "?n \<noteq> 9"
      "?n < 32 \<or> ?n = 60 \<or> ?n = 62 \<or> ?n = 38"
    | "?n \<noteq> 34" "?n \<noteq> 92" "?n \<noteq> 8" "?n \<noteq> 12" "?n \<noteq> 10" "?n \<noteq> 13" "?n \<noteq> 9"
      "\<not> (?n < 32 \<or> ?n = 60 \<or> ?n = 62 \<or> ?n = 38)"
    by blast
  then show ?thesis
  proof cases
    case 8
    have "?n < 256" by (rule nat_of_char_less_256)
    then have "?n div 16 < 16" by (simp add: less_mult_imp_div_less)
    then have "char_of (16 * the (hex_value (hex_digit (?n div 16))) + the (hex_value (hex_digit (?n mod 16)))) = c"
      by (simp add: hex_value_digit)
    with 8 show ?thesis by (simp add: json_char_def json_unchar_def Let_def)
  next
    case 9
    then have "c \<noteq> CHR 0x5C" by auto
    with 9 show ?thesis by (simp add: json_char_def json_unchar_def Let_def)
  qed (drule char_is, simp only: escaped_chars, simp add: json_char_def json_unchar_def Let_def)+
qed

lemma json_char_front: "json_char c @ u = json_char d @ v \<Longrightarrow> c = d \<and> u = v"
  by (metis json_unchar_char same_append_eq)

lemma json_char_nonempty: "json_char c \<noteq> []" and json_char_not_quote: "hd (json_char c) \<noteq> CHR 0x22"
  by (auto simp: json_char_def Let_def)

lemma json_chars_front:
  "concat (map json_char s) @ CHR 0x22 # u = concat (map json_char t) @ CHR 0x22 # v \<Longrightarrow> s = t \<and> u = v"
proof (induction s arbitrary: t)
  case Nil
  then show ?case
    using json_char_not_quote json_char_nonempty by (cases t) (auto simp: Cons_eq_append_conv, metis list.sel(1))
next
  case (Cons c s)
  show ?case
  proof (cases t)
    case Nil
    then show ?thesis
      using Cons.prems json_char_not_quote [of c] json_char_nonempty [of c] by (cases "json_char c") auto
  next
    case (Cons d t')
    then have "json_char c @ concat (map json_char s) @ CHR 0x22 # u =
        json_char d @ concat (map json_char t') @ CHR 0x22 # v"
      using Cons.prems by simp
    from json_char_front [OF this] show ?thesis using Cons.IH [of t'] \<open>t = d # t'\<close> by simp
  qed
qed

lemma json_string_front: "json_string s @ u = json_string t @ v \<Longrightarrow> s = t \<and> u = v"
  using json_chars_front [of s u t v] by (simp add: json_string_def)

text \<open>Two objects with the same keys and the same text have the same values.\<close>

lemma json_fields_inject:
  assumes "map fst fs = map fst gs" and "json_fields fs @ u = json_fields gs @ v"
  shows "fs = gs"
  using assms
proof (induction fs arbitrary: gs rule: json_fields.induct)
  case (2 k w)
  then obtain w' where gs: "gs = [(k, w')]" by (auto simp: Cons_eq_map_conv)
  with "2.prems" have "json_string w @ u = json_string w' @ v" by simp
  with gs show ?case using json_string_front by blast
next
  case (3 k w f fs)
  then obtain w' g gs' where gs: "gs = (k, w') # g # gs'" and m: "map fst (f # fs) = map fst (g # gs')"
    by (auto simp: Cons_eq_map_conv)
  with "3.prems" have "json_string w @ CHR '','' # json_fields (f # fs) @ u =
      json_string w' @ CHR '','' # json_fields (g # gs') @ v"
    by simp
  from json_string_front [OF this] show ?case using "3.IH" [OF m] gs by simp
qed simp

lemma json_object_inject:
  "map fst fs = map fst gs \<Longrightarrow> json_object fs = json_object gs \<Longrightarrow> fs = gs"
  by (rule json_fields_inject [of fs gs "''}''" "''}''"]) (simp_all add: json_object_def)

end
