(* ===== verification/Http.thy ===== *)
theory Http
  imports Encoding "HOL-Library.AList" Complex_Main
begin

text \<open>
  \<open>internal/httpx\<close>: the middleware both services wrap around their routes. Authentication, the cap on
  concurrent requests, the per-caller token buckets and the request ids. Token counts are exact
  rationals where the code has \<open>float64\<close>; time is in nanoseconds.
\<close>

section \<open>Authentication\<close>

definition lower_char :: "char \<Rightarrow> char" where
  "lower_char c = (let n = of_char c :: nat in if 65 \<le> n \<and> n \<le> 90 then char_of (n + 32) else c)"

definition bearer_prefix :: string where
  "bearer_prefix = ''Bearer ''"

text \<open>\<open>BearerToken\<close>: no letter of the prefix folds to anything but its other case, so ASCII case is enough.\<close>

definition bearer_token :: "string \<Rightarrow> string" where
  "bearer_token header =
     (if length header \<le> length bearer_prefix \<or>
        map lower_char (take (length bearer_prefix) header) \<noteq> map lower_char bearer_prefix
      then [] else trim_space (drop (length bearer_prefix) header))"

text \<open>What a layer decides: hand on to the next one, or answer with a status, an error code and, for a refusal, a pause.\<close>

datatype verdict = Pass | Refuse nat string "int option"

definition require_bearer :: "string \<Rightarrow> string \<Rightarrow> string \<Rightarrow> verdict" where
  "require_bearer key path header =
     (if path = ''/health'' then Pass
      else if bearer_token header \<noteq> key then Refuse 401 ''unauthorized'' None
      else Pass)"

section \<open>Refusals\<close>

text \<open>\<open>reject\<close>: the \<open>Retry-After\<close> header in whole seconds, rounded up, at least one.\<close>

definition reject :: "nat \<Rightarrow> string \<Rightarrow> duration \<Rightarrow> verdict" where
  "reject st code retry_after = Refuse st code (Some (max 1 (\<lceil>of_int retry_after / of_int second :: rat\<rceil>)))"

definition exempt :: "string \<Rightarrow> bool" where
  "exempt path \<longleftrightarrow> path = ''/health'' \<or> path = ''/metrics''"

section \<open>Concurrent requests\<close>

record inflight =
  slots_used :: nat
  draining :: bool

text \<open>\<open>LimitInflight\<close>: the state after the decision; a request that took a slot gives it back when it ends.\<close>

definition limit_inflight :: "nat \<Rightarrow> string \<Rightarrow> inflight \<Rightarrow> verdict \<times> inflight" where
  "limit_inflight cap path st =
     (if exempt path then (Pass, st)
      else if draining st then (reject 503 ''shutting_down'' (5 * second), st)
      else if slots_used st < cap then (Pass, st\<lparr>slots_used := slots_used st + 1\<rparr>)
      else (reject 503 ''over_capacity'' second, st))"

definition inflight_done :: "inflight \<Rightarrow> inflight" where
  "inflight_done st = st\<lparr>slots_used := slots_used st - 1\<rparr>"

definition drain :: "inflight \<Rightarrow> inflight" where
  "drain st = st\<lparr>draining := True\<rparr>"

section \<open>Rate limit\<close>

record bucket =
  tokens :: rat
  last_seen :: instant

record rate_limiter =
  rps :: rat
  burst :: rat
  buckets :: "(string \<times> bucket) list"

definition new_rate_limiter :: "rat \<Rightarrow> nat \<Rightarrow> rate_limiter" where
  "new_rate_limiter r b = \<lparr>rps = r, burst = of_nat b, buckets = []\<rparr>"

definition seconds :: "duration \<Rightarrow> rat" where
  "seconds d = of_int d / of_int second"

text \<open>\<open>time.Duration(f)\<close> of a non-negative \<open>f\<close> cuts its fraction.\<close>

definition to_duration :: "rat \<Rightarrow> duration" where
  "to_duration f = \<lfloor>f\<rfloor>"

definition full_after :: "rate_limiter \<Rightarrow> duration" where
  "full_after l = to_duration (burst l / rps l * of_int second)"

definition evict_idle :: "instant \<Rightarrow> rate_limiter \<Rightarrow> rate_limiter" where
  "evict_idle now l = l\<lparr>buckets := filter (\<lambda>(k, b). \<not> full_after l < now - last_seen b) (buckets l)\<rparr>"

definition max_buckets :: int where
  "max_buckets = 10000"

definition refill :: "rat \<Rightarrow> rat \<Rightarrow> instant \<Rightarrow> bucket \<Rightarrow> rat" where
  "refill r b now bk = min b (tokens bk + seconds (now - last_seen bk) * r)"

text \<open>A new key gets a full bucket, and the map is cleared of idle ones when it has grown too large.\<close>

definition with_bucket :: "string \<Rightarrow> instant \<Rightarrow> rate_limiter \<Rightarrow> rate_limiter" where
  "with_bucket key now l =
     (case map_of (buckets l) key of
        Some b \<Rightarrow> l
      | None \<Rightarrow>
          let l' = l\<lparr>buckets := (key, \<lparr>tokens = burst l, last_seen = now\<rparr>) # buckets l\<rparr>
          in if int (length (buckets l')) > max_buckets then evict_idle now l' else l')"

definition allow :: "string \<Rightarrow> instant \<Rightarrow> rate_limiter \<Rightarrow> (bool \<times> duration) \<times> rate_limiter" where
  "allow key now l =
     (let l' = with_bucket key now l;
          b = (case map_of (buckets l') key of Some b \<Rightarrow> b | None \<Rightarrow> \<lparr>tokens = burst l, last_seen = now\<rparr>);
          t = refill (rps l) (burst l) now b
      in if 1 \<le> t then ((True, 0), l'\<lparr>buckets := AList.update key \<lparr>tokens = t - 1, last_seen = now\<rparr> (buckets l')\<rparr>)
         else ((False, to_duration ((1 - t) / rps l * of_int second)),
               l'\<lparr>buckets := AList.update key \<lparr>tokens = t, last_seen = now\<rparr> (buckets l')\<rparr>))"

definition limit_rate :: "string \<Rightarrow> string \<Rightarrow> instant \<Rightarrow> rate_limiter \<Rightarrow> verdict \<times> rate_limiter" where
  "limit_rate key path now l =
     (if exempt path \<or> key = [] then (Pass, l)
      else case allow key now l of
             ((ok, wait), l') \<Rightarrow> (if ok then Pass else reject 429 ''rate_limited'' wait, l'))"

text \<open>\<open>CallerKey\<close>: the first eight bytes of the digest of the \<open>Authorization\<close> header.\<close>

definition caller_key :: "string \<Rightarrow> string" where
  "caller_key header = hex_encode (take 8 (sha256 header))"

section \<open>The order of the layers\<close>

record http_request =
  req_path :: string
  req_authorization :: string

record server =
  gate :: inflight
  limiter :: rate_limiter

text \<open>
  How both services stack the layers around their routes (\<open>cmd/serve\<close>, \<open>cmd/gasless\<close>): the concurrency cap, then
  authentication, then the rate limit by caller. A request refused by an inner layer gives its slot back at once;
  one that passes holds it until \<open>request_done\<close>.
\<close>

definition admit :: "nat \<Rightarrow> string \<Rightarrow> http_request \<Rightarrow> instant \<Rightarrow> server \<Rightarrow> verdict \<times> server" where
  "admit cap key r now s =
     (case limit_inflight cap (req_path r) (gate s) of
        (Refuse st code w, g) \<Rightarrow> (Refuse st code w, s\<lparr>gate := g\<rparr>)
      | (Pass, g) \<Rightarrow>
          (case require_bearer key (req_path r) (req_authorization r) of
             Refuse st code w \<Rightarrow> (Refuse st code w, s)
           | Pass \<Rightarrow>
               (case limit_rate (caller_key (req_authorization r)) (req_path r) now (limiter s) of
                  (v, l) \<Rightarrow> (v, s\<lparr>gate := (if v = Pass then g else gate s), limiter := l\<rparr>))))"

definition request_done :: "http_request \<Rightarrow> server \<Rightarrow> server" where
  "request_done r s = (if exempt (req_path r) then s else s\<lparr>gate := inflight_done (gate s)\<rparr>)"

section \<open>Request ids\<close>

definition safe_id_char :: "char \<Rightarrow> bool" where
  "safe_id_char c \<longleftrightarrow>
     (let n = of_char c :: nat in
      97 \<le> n \<and> n \<le> 122 \<or> 65 \<le> n \<and> n \<le> 90 \<or> 48 \<le> n \<and> n \<le> 57 \<or> c = CHR ''-'' \<or> c = CHR ''_'' \<or> c = CHR ''.'')"

definition valid_id :: "string \<Rightarrow> bool" where
  "valid_id i \<longleftrightarrow> \<not> (i = [] \<or> length i > 64) \<and> list_all safe_id_char i"

text \<open>\<open>random\<close>: the sixteen bytes read from the system; \<open>newID\<close> ignores an error of the read.\<close>

definition new_id :: "char list \<Rightarrow> string" where
  "new_id random = hex_encode random"

definition with_request_id :: "string \<Rightarrow> char list \<Rightarrow> string" where
  "with_request_id header random = (if valid_id header then header else new_id random)"

end
