(* ===== verification/Bridge_Api.thy ===== *)
theory Bridge_Api
  imports Store_Laws Forwarder_Submit Memo Http
begin

text \<open>
  \<open>internal/handler\<close>: the HTTP handlers of the deposit bridge. A handler is a computation with its
  reply as the result; decoding the body is \<open>encoding/json\<close>, so a handler takes what the decoder
  answered (\<open>None\<close> is an error). The lemmas relate what a caller is told to what the database holds.
\<close>

section \<open>Requests and replies\<close>

record create_intent_request =
  req_c_address :: string
  req_expected_amt :: string
  req_external_id :: string
  req_expires_in :: int

record create_intent_response =
  resp_intent_id :: string
  resp_memo_id :: string
  resp_pool_address :: string
  resp_expires_at :: string

record forward_summary =
  sum_tx_hash :: string
  sum_amount :: string
  sum_asset :: string
  sum_status :: string
  sum_forward_tx :: "string option"
  sum_created_at :: string

record deposit_status_response =
  st_intent_id :: string
  st_memo_id :: string
  st_c_address :: string
  st_pool_address :: string
  st_status :: string
  st_expires_at :: string
  st_expected_amt :: "string option"
  st_external_id :: "string option"
  st_forwards :: "forward_summary list"

datatype bridge_body =
    BridgeError string
  | IntentCreated create_intent_response
  | DepositFound deposit_status_response
  | OrderBound string string
  | BridgeHealth string "string option"

record bridge_reply =
  http_status :: nat
  http_body :: bridge_body

definition write_json :: "nat \<Rightarrow> bridge_body \<Rightarrow> bridge_reply" where
  "write_json st b = \<lparr>http_status = st, http_body = b\<rparr>"

definition api_error :: "nat \<Rightarrow> string \<Rightarrow> bridge_reply" where
  "api_error st msg = write_json st (BridgeError msg)"

definition memo_error_text :: "memo_error \<Rightarrow> string" where
  "memo_error_text err =
     (case err of
        ErrUnsupportedMemoType \<Rightarrow> ''memo type is not MEMO_ID or MEMO_TEXT''
      | ErrInvalidMemoID \<Rightarrow> ''memo value is not a valid uint64''
      | ErrInvalidCAddress \<Rightarrow> ''invalid Soroban C-address'')"

fun intent_status_text :: "intent_status \<Rightarrow> string" where
  "intent_status_text IntentPending = ''pending''"
| "intent_status_text IntentCompleted = ''completed''"
| "intent_status_text IntentExpired = ''expired''"
| "intent_status_text IntentFailed = ''failed''"

fun fwd_status_text :: "fwd_status \<Rightarrow> string" where
  "fwd_status_text StatusPending = ''pending''"
| "fwd_status_text StatusDone = ''done''"
| "fwd_status_text StatusFailed = ''failed''"
| "fwd_status_text StatusPendingRetry = ''pending_retry''"
| "fwd_status_text StatusSwept = ''swept''"

section \<open>Handlers\<close>

text \<open>\<open>pickPool\<close>: the counter is the handler's only state. \<open>None\<close> is the panic on an empty list.\<close>

definition pick_pool :: "pool_account list \<Rightarrow> 64 word \<Rightarrow> pool_account option \<times> 64 word" where
  "pick_pool pools n =
     (if pools = [] then None else Some (pools ! (unat n mod length pools)), n + 1)"

definition none_if_empty :: "string \<Rightarrow> string option" where
  "none_if_empty s = (if s = [] then None else Some s)"

definition intent_ttl :: "int \<Rightarrow> int" where
  "intent_ttl expires_in = (if expires_in \<le> 0 then 3600 else expires_in)"

text \<open>
  \<open>CreateIntent\<close>. The duration is an \<open>int64\<close> of nanoseconds, so it wraps. \<open>decode\<close> is the strkey
  decoder; the counter of \<open>pickPool\<close> goes in and comes out. No reply (\<open>None\<close>) is the connection that the
  server closes when the handler panics.
\<close>

definition handle_create_intent ::
  "runtime \<Rightarrow> (string \<Rightarrow> string option) \<Rightarrow> pool_account list \<Rightarrow> create_intent_request option \<Rightarrow> 64 word \<Rightarrow>
   (bridge_reply option \<times> 64 word) bridge"
where
  "handle_create_intent e decode pools body n =
     (case body of
        None \<Rightarrow> ret (Some (api_error 400 ''invalid JSON body''), n)
      | Some req \<Rightarrow>
          if req_c_address req = [] then ret (Some (api_error 400 ''c_address is required''), n)
          else (case validate_c_address decode (req_c_address req) of
                  Some err \<Rightarrow> ret (Some (api_error 400 (''invalid c_address: '' @ memo_error_text err)), n)
                | None \<Rightarrow> do {
                    now \<leftarrow> ask (clock e);
                    let expires = now + int64 (intent_ttl (req_expires_in req) * second);
                    (case pick_pool pools n of
                       (None, n') \<Rightarrow> ret (None, n')
                     | (Some pool, n') \<Rightarrow> do {
                         r \<leftarrow> create_intent e (req_c_address req) (pa_address pool)
                                (none_if_empty (req_expected_amt req)) expires (none_if_empty (req_external_id req));
                         ret (Some (case r of
                                Inl err \<Rightarrow> api_error 500 ''failed to create intent''
                              | Inr i \<Rightarrow> write_json 201 (IntentCreated
                                  \<lparr>resp_intent_id = intent_id i, resp_memo_id = show_nat (unat (from_bigint (memo_id i))),
                                   resp_pool_address = pa_address pool, resp_expires_at = format_rfc3339 (expires_at i)\<rparr>)), n') })
                  }))"

definition summarize :: "forward \<Rightarrow> forward_summary" where
  "summarize f = \<lparr>sum_tx_hash = tx_hash f, sum_amount = amount f, sum_asset = asset f,
     sum_status = fwd_status_text (status f), sum_forward_tx = forward_tx f,
     sum_created_at = format_rfc3339 (created_at f)\<rparr>"

definition handle_deposit_status :: "runtime \<Rightarrow> string \<Rightarrow> bridge_reply bridge" where
  "handle_deposit_status e raw =
     (case parse_uint64 raw of
        None \<Rightarrow> ret (api_error 400 ''memo_id must be a valid integer'')
      | Some m \<Rightarrow> do {
          r \<leftarrow> get_intent e m;
          (case r of
             Inl ErrNoRows \<Rightarrow> ret (api_error 404 ''memo_id not found'')
           | Inl err \<Rightarrow> ret (api_error 500 ''database error'')
           | Inr i \<Rightarrow> do {
               fs \<leftarrow> get_forward_by_memo_id e m;
               ret (case fs of
                      Inl err \<Rightarrow> api_error 500 ''database error''
                    | Inr fwds \<Rightarrow> write_json 200 (DepositFound
                        \<lparr>st_intent_id = intent_id i, st_memo_id = show_nat (unat (from_bigint (memo_id i))),
                         st_c_address = c_address i, st_pool_address = intent_pool i,
                         st_status = intent_status_text (intent_status i),
                         st_expires_at = format_rfc3339 (expires_at i), st_expected_amt = expected_amt i,
                         st_external_id = external_id i, st_forwards = map summarize fwds\<rparr>)) }) })"

definition handle_set_external_id :: "runtime \<Rightarrow> string \<Rightarrow> string option \<Rightarrow> bridge_reply bridge" where
  "handle_set_external_id e raw body =
     (case parse_uint64 raw of
        None \<Rightarrow> ret (api_error 400 ''memo_id must be a valid integer'')
      | Some m \<Rightarrow>
          (case body of
             None \<Rightarrow> ret (api_error 400 ''invalid JSON body'')
           | Some ext \<Rightarrow>
               if ext = [] then ret (api_error 400 ''external_id is required'')
               else do {
                 r \<leftarrow> set_intent_external_id e m ext;
                 ret (case r of
                        None \<Rightarrow> write_json 200 (OrderBound (show_nat (unat m)) ext)
                      | Some ErrNoRows \<Rightarrow> api_error 404 ''memo_id not found''
                      | Some ErrExternalIDConflict \<Rightarrow> api_error 409 ''intent is already bound to a different external_id''
                      | Some err \<Rightarrow> api_error 500 ''database error'') }))"

text \<open>\<open>ping\<close>: the database's answer to \<open>Ping\<close>.\<close>

definition handle_bridge_health :: "string option \<Rightarrow> bridge_reply" where
  "handle_bridge_health ping =
     (case ping of
        Some err \<Rightarrow> write_json 503 (BridgeHealth ''unhealthy'' (Some err))
      | None \<Rightarrow> write_json 200 (BridgeHealth ''ok'' None))"

section \<open>Pools in rotation\<close>

primrec picks :: "pool_account list \<Rightarrow> nat \<Rightarrow> 64 word \<Rightarrow> pool_account option list" where
  "picks pools 0 n = []"
| "picks pools (Suc k) n = (case pick_pool pools n of (p, n') \<Rightarrow> p # picks pools k n')"

lemma picks_eq:
  assumes "pools \<noteq> []" "unat n + k \<le> 2 ^ 64"
  shows "picks pools k n = map (\<lambda>j. Some (pools ! (j mod length pools))) [unat n..<unat n + k]"
  using assms(2)
proof (induction k arbitrary: n)
  case (Suc k)
  show ?case
  proof (cases "k = 0")
    case False
    then have "unat n + 1 < 2 ^ 64" using Suc.prems by simp
    then have u: "unat (n + 1) = unat n + 1" by (simp add: unat_word_ariths)
    have "picks pools k (n + 1) = map (\<lambda>j. Some (pools ! (j mod length pools))) [unat (n + 1)..<unat (n + 1) + k]"
      using Suc.prems u by (intro Suc.IH) simp
    then show ?thesis using assms(1) u upt_conv_Cons [of "unat n" "unat n + Suc k"] by (simp add: pick_pool_def)
  qed (simp add: pick_pool_def assms(1))
qed simp

text \<open>In every window of \<open>p\<close> numbers each residue occurs once, so in \<open>k\<close> numbers it occurs \<open>k div p\<close> times, or once more.\<close>

definition occurs :: "nat \<Rightarrow> nat \<Rightarrow> nat \<Rightarrow> nat \<Rightarrow> nat" where
  "occurs p i n k = length (filter (\<lambda>j. j mod p = i) [n..<n + k])"

lemma occurs_add: "occurs p i n (j + k) = occurs p i n j + occurs p i (n + j) k"
  using upt_add_eq_append [of n "n + j" k] by (simp add: occurs_def add.assoc)

lemma occurs_one: "occurs p i n 1 = (if n mod p = i then 1 else 0)"
  by (simp add: occurs_def)

lemma occurs_window:
  assumes "i < p"
  shows "occurs p i n p = 1"
proof (induction n)
  case 0
  have "filter (\<lambda>j. j mod p = i) [0..<p] = filter (\<lambda>j. j = i) [0..<p]" by (rule filter_cong) auto
  also have "\<dots> = [i]" using assms by (induction p) (auto simp: less_Suc_eq)
  finally show ?case by (simp add: occurs_def)
next
  case (Suc n)
  have "occurs p i n 1 + occurs p i (n + 1) p = occurs p i n p + occurs p i (n + p) 1"
    by (metis occurs_add add.commute)
  then have "occurs p i (n + 1) p = 1" using Suc by (simp add: occurs_one del: One_nat_def)
  then show ?case by simp
qed

lemma occurs_fair:
  assumes "i < p"
  shows "k div p \<le> occurs p i n k \<and> occurs p i n k \<le> k div p + 1"
proof -
  have whole: "occurs p i n (q * p) = q" for q
  proof (induction q)
    case (Suc q)
    then show ?case using occurs_add [of p i n "q * p" p] occurs_window [OF assms] by (simp add: add.commute)
  qed (simp add: occurs_def)
  let ?m = "n + k div p * p"
  have le: "k mod p \<le> p" using assms by simp
  have "occurs p i ?m p = occurs p i ?m (k mod p) + occurs p i (?m + k mod p) (p - k mod p)"
    using occurs_add [of p i ?m "k mod p" "p - k mod p"] le by (simp only: le_add_diff_inverse)
  then have "occurs p i ?m (k mod p) \<le> 1" using occurs_window [OF assms, of ?m] by linarith
  moreover have "occurs p i n k = k div p + occurs p i ?m (k mod p)"
    using occurs_add [of p i n "k div p * p" "k mod p"] whole [of "k div p"] by (simp only: div_mult_mod_eq)
  ultimately show ?thesis by linarith
qed

text \<open>
  The pools share the load. Of any \<open>k\<close> intents in a row, each of the \<open>p\<close> pool accounts is given
  \<open>k div p\<close> or one more, so no pool's slot per ledger stands idle while another pool queues. (The
  counter would wrap after \<open>2 ^ 64\<close> intents.)
\<close>

lemma pools_share_load:
  assumes "distinct pools" "i < length pools" "unat n + k \<le> 2 ^ 64"
  shows "k div length pools \<le> length (filter (\<lambda>p. p = Some (pools ! i)) (picks pools k n)) \<and>
    length (filter (\<lambda>p. p = Some (pools ! i)) (picks pools k n)) \<le> k div length pools + 1"
proof -
  have ne: "pools \<noteq> []" using assms(2) by auto
  have "(Some (pools ! (j mod length pools)) = Some (pools ! i)) = (j mod length pools = i)" for j
    using nth_eq_iff_index_eq [OF assms(1) _ assms(2)] mod_less_divisor [of "length pools" j] ne by simp
  then have "length (filter (\<lambda>p. p = Some (pools ! i)) (picks pools k n)) = occurs (length pools) i (unat n) k"
    unfolding picks_eq [OF ne assms(3)] occurs_def filter_map length_map o_def by simp
  then show ?thesis using occurs_fair [OF assms(2)] by simp
qed

definition demo_pools :: "pool_account list" where
  "demo_pools = [\<lparr>pa_address = ''POOL1'', pa_keypair = \<lparr>kp_address = ''POOL1'', kp_seed = ''s1''\<rparr>\<rparr>,
     \<lparr>pa_address = ''POOL2'', pa_keypair = \<lparr>kp_address = ''POOL2'', kp_seed = ''s2''\<rparr>\<rparr>]"

section \<open>An intent is read back as it was minted\<close>

lemma create_intent_passes:
  assumes "req_c_address req \<noteq> []" "decode (req_c_address req) = Some a" "pools \<noteq> []"
  shows "handle_create_intent e decode pools (Some req) n =
    (let pool = pools ! (unat n mod length pools) in
     do {
       now \<leftarrow> ask (clock e);
       r \<leftarrow> create_intent e (req_c_address req) (pa_address pool) (none_if_empty (req_expected_amt req))
              (now + int64 (intent_ttl (req_expires_in req) * second)) (none_if_empty (req_external_id req));
       ret (Some (case r of
              Inl err \<Rightarrow> api_error 500 ''failed to create intent''
            | Inr i \<Rightarrow> write_json 201 (IntentCreated
                \<lparr>resp_intent_id = intent_id i, resp_memo_id = show_nat (unat (from_bigint (memo_id i))),
                 resp_pool_address = pa_address pool, resp_expires_at = format_rfc3339 (expires_at i)\<rparr>)), n + 1)
     })"
  using assms by (simp add: handle_create_intent_def validate_c_address_def pick_pool_def Let_def)

lemma wp_handle_create:
  "wp (handle_create_intent e decode pools body n) (\<lambda>r w'. intents_kept w w' \<and>
     (\<forall>c. fst r = Some (write_json 201 (IntentCreated c)) \<longrightarrow>
        (\<exists>req pool uuid m now ex. body = Some req \<and> pool \<in> set pools \<and> decode (req_c_address req) \<noteq> None \<and>
           c = \<lparr>resp_intent_id = uuid, resp_memo_id = show_nat (unat m), resp_pool_address = pa_address pool,
             resp_expires_at = format_rfc3339 ex\<rparr> \<and>
           intent_row (dep w') m = Some (minted uuid m (req_c_address req) (pa_address pool)
             (none_if_empty (req_expected_amt req)) ex (none_if_empty (req_external_id req)) now)))) w"
proof -
  have err: "api_error st msg \<noteq> write_json 201 (IntentCreated c)" for st msg c
    by (simp add: api_error_def write_json_def)
  have quiet: "intents_kept w w" by (simp add: intents_kept_def)
  show ?thesis
  proof (cases body)
    case None
    then show ?thesis using err quiet by (simp add: handle_create_intent_def)
  next
    case (Some req)
    show ?thesis
    proof (cases "req_c_address req = [] \<or> decode (req_c_address req) = None \<or> pools = []")
      case True
      then show ?thesis
        using err quiet Some
        by (auto simp: handle_create_intent_def validate_c_address_def pick_pool_def Let_def intents_kept_def
            split: option.split)
    next
      case False
      then obtain a where a: "decode (req_c_address req) = Some a" by auto
      let ?pool = "pools ! (unat n mod length pools)"
      have mem: "?pool \<in> set pools" using False by simp
      have kept: "intents_kept (w\<lparr>tick := k\<rparr>) v = intents_kept w v" for k v by (simp add: intents_kept_def)
      have c: "req_c_address req \<noteq> []" "pools \<noteq> []" using False by auto
      show ?thesis
        unfolding Some create_intent_passes [of req decode a pools, OF c(1) a c(2)] Let_def wp_bind wp_ask wp_return
      proof (rule wp_mono [OF wp_mint], goal_cases)
        case (1 r v)
        show ?case
        proof (cases r)
          case (Inl m)
          then show ?thesis using 1 err kept by simp
        next
          case (Inr i)
          obtain uuid m now where i: "i = minted uuid m (req_c_address req) (pa_address ?pool)
              (none_if_empty (req_expected_amt req)) (clock e (tick w) + int64 (intent_ttl (req_expires_in req) * second))
              (none_if_empty (req_external_id req)) zero_time"
            and row: "intent_row (dep v) m = Some (minted uuid m (req_c_address req) (pa_address ?pool)
              (none_if_empty (req_expected_amt req)) (clock e (tick w) + int64 (intent_ttl (req_expires_in req) * second))
              (none_if_empty (req_external_id req)) now)"
            using 1 Inr by blast
          have "intents_kept w v" using 1 kept by simp
          then show ?thesis using Inr i row mem a
            by (simp add: write_json_def minted_sel) blast
        qed
      qed
    qed
  qed
qed

lemma status_reply:
  assumes "parse_uint64 raw = Some m" "intent_row (dep w) m = Some i"
    and "db_reply e (tick w) = DbOk" "db_reply e (Suc (tick w)) = DbOk"
  shows "fst (run_state (handle_deposit_status e raw) w) = write_json 200 (DepositFound
      \<lparr>st_intent_id = intent_id i, st_memo_id = show_nat (unat (from_bigint (memo_id i))),
       st_c_address = c_address i, st_pool_address = intent_pool i, st_status = intent_status_text (intent_status i),
       st_expires_at = format_rfc3339 (expires_at i), st_expected_amt = expected_amt i,
       st_external_id = external_id i, st_forwards = map summarize (get_forward_by_memo_id_stmt m (dep w))\<rparr>)"
  using assms
  by (simp add: handle_deposit_status_def get_intent_def get_forward_by_memo_id_def dep_query_def dep_stmt_def
      db_stmt_def get_intent_by_memo_id_def Let_def wrap_err_def)

text \<open>
  C34: what \<open>POST /intents\<close> told a caller, \<open>GET /deposit/status\<close> says again. After a 201 reply, and whatever
  the handlers and workers write to intents after it, asking for the memo in the reply gives the same
  intent: same id, memo, pool and expiry, the C-address and amount that were asked for, and the order id if
  one was given; until something is written it is pending. And a payment that carries the text of that memo
  is routed to this intent.
\<close>

theorem intent_read_back:
  assumes "run_state (handle_create_intent e decode pools (Some req) n) w = ((Some r, n'), w')"
    and "http_status r = 201" "intents (dep v) = intents (fold intent_step evs (dep w'))"
    and "db_reply e' (tick v) = DbOk" "db_reply e' (Suc (tick v)) = DbOk"
  shows "\<exists>c d m. http_body r = IntentCreated c \<and>
    fst (run_state (handle_deposit_status e' (resp_memo_id c)) v) = write_json 200 (DepositFound d) \<and>
    st_intent_id d = resp_intent_id c \<and> st_memo_id d = resp_memo_id c \<and> st_c_address d = req_c_address req \<and>
    st_pool_address d = resp_pool_address c \<and> resp_pool_address c \<in> pa_address ` set pools \<and>
    st_expires_at d = resp_expires_at c \<and> st_expected_amt d = none_if_empty (req_expected_amt req) \<and>
    (req_external_id req \<noteq> [] \<longrightarrow> st_external_id d = Some (req_external_id req)) \<and>
    (evs = [] \<longrightarrow> st_status d = ''pending'') \<and>
    parse_id ''text'' (resp_memo_id c) = Inr m \<and> parse_id ''id'' (resp_memo_id c) = Inr m \<and>
    map_option intent_id (intent_row (dep v) m) = Some (resp_intent_id c)"
proof -
  obtain c where r: "r = write_json 201 (IntentCreated c)"
  proof -
    have "wp (handle_create_intent e decode pools (Some req) n)
        (\<lambda>r _. \<forall>x. fst r = Some x \<longrightarrow> http_status x = 201 \<longrightarrow> (\<exists>c. x = write_json 201 (IntentCreated c))) w"
      by (auto simp: handle_create_intent_def api_error_def write_json_def Let_def wp_def
          split: option.split prod.split sum.split)
    from wp_run [OF assms(1) this] assms(2) that show ?thesis by auto
  qed
  obtain pool uuid m now ex where c: "pool \<in> set pools"
      "c = \<lparr>resp_intent_id = uuid, resp_memo_id = show_nat (unat m), resp_pool_address = pa_address pool,
         resp_expires_at = format_rfc3339 ex\<rparr>"
      and row: "intent_row (dep w') m = Some (minted uuid m (req_c_address req) (pa_address pool)
         (none_if_empty (req_expected_amt req)) ex (none_if_empty (req_external_id req)) now)"
    using wp_run [OF assms(1) wp_handle_create] r by auto
  obtain j where j: "intent_row (fold intent_step evs (dep w')) m = Some j"
      "intent_advances (minted uuid m (req_c_address req) (pa_address pool)
         (none_if_empty (req_expected_amt req)) ex (none_if_empty (req_external_id req)) now) j"
    using intent_steps_advance [OF row] by blast
  have v: "intent_row (dep v) m = Some j" using j(1) assms(3) by (simp add: intent_row_def)
  have first: "evs = [] \<Longrightarrow> j = minted uuid m (req_c_address req) (pa_address pool)
         (none_if_empty (req_expected_amt req)) ex (none_if_empty (req_external_id req)) now"
    using j(1) row by simp
  show ?thesis
    using r c(1) j(2) v first status_reply [OF parse_uint64_show_nat v assms(4,5)]
      parse_id_show [of "''text''" m] parse_id_show [of "''id''" m]
    by (auto simp: c(2) write_json_def intent_advances_def minted_def none_if_empty_def)
qed

text \<open>The wrapped duration: an expiry asked for 292 years ahead lies in the past.\<close>

lemma long_ttl_wraps: "int64 (intent_ttl 9223372037 * second) < 0"
  by (simp add: intent_ttl_def int64_mod second_def millisecond_def)

section \<open>Binding an order\<close>

interpretation order_op: keyed_update memo_id "\<lambda>i. i\<lparr>external_id := Some ext, intent_updated_at := now\<rparr>" for ext now
  by unfold_locales simp

definition may_bind :: "string \<Rightarrow> intent \<Rightarrow> bool" where
  "may_bind ext i \<longleftrightarrow> external_id i = None \<or> external_id i = Some ext"

lemma bind_count:
  "db_wf db \<Longrightarrow> fst (set_external_id_update now m ext db) =
    (case intent_row db m of None \<Rightarrow> 0 | Some i \<Rightarrow> if may_bind ext i then 1 else 0)"
  using order_op.affected [where rs = "intents db" and ext = ext and now = now and k = "to_bigint m" and c = "may_bind ext"]
  by (simp add: set_external_id_update_def intent_row_def select_one_def db_wf_def case_prod_beta may_bind_def)

lemma bind_row:
  "intent_row (snd (set_external_id_update now m ext db)) m' =
    map_option (\<lambda>i. if m' = m \<and> may_bind ext i then i\<lparr>external_id := Some ext, intent_updated_at := now\<rparr> else i) (intent_row db m')"
proof -
  have "memo_id i = to_bigint m'" if "List.find (\<lambda>i. memo_id i = to_bigint m') (intents db) = Some i" for i
    using find_SomeD [OF that] by simp
  then show ?thesis
    using order_op.lookup_after [where k' = "to_bigint m'" and k = "to_bigint m" and c = "may_bind ext" and ext = ext and now = now and rs = "intents db"]
    by (cases "List.find (\<lambda>i. memo_id i = to_bigint m') (intents db)")
      (simp_all add: set_external_id_update_def intent_row_def select_one_def case_prod_beta may_bind_def)
qed

lemma bind_nothing:
  assumes "db_wf db" "fst (set_external_id_update now m ext db) \<noteq> 1"
  shows "snd (set_external_id_update now m ext db) = db"
proof -
  let ?p = "\<lambda>i. memo_id i = to_bigint m \<and> (external_id i = None \<or> external_id i = Some ext)"
  have "length (filter ?p (intents db)) = 0"
    using assms bind_count [OF assms(1), of now m ext]
    by (cases "intent_row db m") (simp_all add: set_external_id_update_def update_where_def split: if_splits)
  then have "\<forall>i \<in> set (intents db). \<not> ?p i" by (simp add: filter_empty_conv)
  then have "map (\<lambda>i. if ?p i then i\<lparr>external_id := Some ext, intent_updated_at := now\<rparr> else i) (intents db) = intents db"
    by (intro map_idI) auto
  then show ?thesis by (simp add: set_external_id_update_def update_where_def)
qed

text \<open>How \<open>SetIntentExternalID\<close> ends: the database did not answer, the row was bound, or there was nothing to bind.\<close>

lemma bind_lost:
  assumes "db_reply e (tick w) \<noteq> DbOk"
  shows "\<exists>msg. fst (run_state (set_intent_external_id e m ext) w) = Some (StoreErr msg)"
    and "dep (snd (run_state (set_intent_external_id e m ext) w)) \<in>
      {dep w, snd (set_external_id_update (db_now e (tick w)) m ext (dep w))}"
  using assms unfolding set_intent_external_id_def dep_stmt_def db_stmt_def
  by (cases "db_reply e (tick w)"; simp add: Let_def case_prod_beta)+

lemma bind_done:
  assumes "db_reply e (tick w) = DbOk" "fst (set_external_id_update (db_now e (tick w)) m ext (dep w)) = 1"
  shows "fst (run_state (set_intent_external_id e m ext) w) = None"
    and "dep (snd (run_state (set_intent_external_id e m ext) w)) = snd (set_external_id_update (db_now e (tick w)) m ext (dep w))"
  using assms
  by (simp_all add: set_intent_external_id_def dep_stmt_def db_stmt_def Let_def case_prod_beta)

lemma bind_refused:
  assumes "db_wf (dep w)" "db_reply e (tick w) = DbOk"
    and "fst (set_external_id_update (db_now e (tick w)) m ext (dep w)) \<noteq> 1"
  shows "dep (snd (run_state (set_intent_external_id e m ext) w)) = dep w"
    and "db_reply e (Suc (tick w)) = DbOk \<Longrightarrow> fst (run_state (set_intent_external_id e m ext) w) =
      Some (case intent_row (dep w) m of None \<Rightarrow> ErrNoRows | Some _ \<Rightarrow> ErrExternalIDConflict)"
    and "db_reply e (Suc (tick w)) \<noteq> DbOk \<Longrightarrow>
      \<exists>msg. fst (run_state (set_intent_external_id e m ext) w) = Some (StoreErr msg)"
proof -
  let ?v = "w\<lparr>tick := Suc (tick w)\<rparr>"
  have same: "snd (set_external_id_update (db_now e (tick w)) m ext (dep w)) = dep w"
    by (rule bind_nothing [OF assms(1,3)])
  have put: "w\<lparr>tick := k, dep := dep w\<rparr> = w\<lparr>tick := k\<rparr>" for k by (cases w) simp
  obtain n where n: "run_state (dep_stmt e (\<lambda>now. set_external_id_update now m ext)) w = (Inr n, ?v)" "n \<noteq> 1"
    using assms(2,3) same put by (simp add: dep_stmt_def db_stmt_def Let_def case_prod_beta)
  have q: "run_state (set_intent_external_id e m ext) w =
      run_state (do { q \<leftarrow> dep_query e (\<lambda>_. get_intent_by_memo_id m);
        ret (Some (case q of Inl err \<Rightarrow> StoreErr err | Inr None \<Rightarrow> ErrNoRows | Inr (Some _) \<Rightarrow> ErrExternalIDConflict)) }) ?v"
    using n by (simp add: set_intent_external_id_def)
  show "dep (snd (run_state (set_intent_external_id e m ext) w)) = dep w"
    unfolding q by (cases "db_reply e (Suc (tick w))") (simp_all add: dep_query_def dep_stmt_def db_stmt_def)
  show "db_reply e (Suc (tick w)) = DbOk \<Longrightarrow> fst (run_state (set_intent_external_id e m ext) w) =
      Some (case intent_row (dep w) m of None \<Rightarrow> ErrNoRows | Some _ \<Rightarrow> ErrExternalIDConflict)"
    unfolding q by (simp add: dep_query_def dep_stmt_def db_stmt_def get_intent_by_memo_id_def split: option.split)
  show "db_reply e (Suc (tick w)) \<noteq> DbOk \<Longrightarrow>
      \<exists>msg. fst (run_state (set_intent_external_id e m ext) w) = Some (StoreErr msg)"
    unfolding q by (cases "db_reply e (Suc (tick w))") (simp_all add: dep_query_def dep_stmt_def db_stmt_def)
qed

text \<open>
  C35: every reply of \<open>PATCH /intents/{memo_id}\<close> says what happened. 200: the intent exists, was unbound or bound
  to this very order, and is bound to it now. 404: there is no such intent. 409: it is bound to another order.
  400: the memo is no number or the body no order. After 400, 404 and 409 the tables are as they were; other
  intents always are. And 500 comes only of a database that did not answer.
\<close>

theorem order_replies:
  assumes "db_wf (dep w)" "run_state (handle_set_external_id e raw body) w = (r, w')"
  shows "(http_status r = 200 \<longrightarrow> (\<exists>m ext i j. parse_uint64 raw = Some m \<and> body = Some ext \<and>
      intent_row (dep w) m = Some i \<and> may_bind ext i \<and> intent_row (dep w') m = Some j \<and> external_id j = Some ext)) \<and>
    (http_status r = 404 \<longrightarrow> (\<exists>m. parse_uint64 raw = Some m \<and> intent_row (dep w) m = None)) \<and>
    (http_status r = 409 \<longrightarrow> (\<exists>m ext i. parse_uint64 raw = Some m \<and> body = Some ext \<and>
      intent_row (dep w) m = Some i \<and> \<not> may_bind ext i)) \<and>
    (http_status r = 400 \<longrightarrow> parse_uint64 raw = None \<or> body = None \<or> body = Some []) \<and>
    (http_status r \<in> {400, 404, 409} \<longrightarrow> dep w' = dep w) \<and>
    (\<forall>m. parse_uint64 raw \<noteq> Some m \<longrightarrow> intent_row (dep w') m = intent_row (dep w) m) \<and>
    (http_status r = 500 \<longrightarrow> db_reply e (tick w) \<noteq> DbOk \<or> db_reply e (Suc (tick w)) \<noteq> DbOk) \<and>
    http_status r \<in> {200, 400, 404, 409, 500}"
proof -
  consider (bad) "parse_uint64 raw = None \<or> body = None \<or> body = Some []"
    | (good) m ext where "parse_uint64 raw = Some m" "body = Some ext" "ext \<noteq> []"
    by (cases "parse_uint64 raw"; cases body) auto
  then show ?thesis
  proof cases
    case bad
    then show ?thesis
      using assms(2)
      by (auto simp: handle_set_external_id_def api_error_def write_json_def split: option.splits)
  next
    case good
    let ?u = "set_external_id_update (db_now e (tick w)) m ext (dep w)"
    note count = bind_count [OF assms(1), of "db_now e (tick w)" m ext]
    note row = bind_row [of "db_now e (tick w)" m ext "dep w"]
    have other: "intent_row (snd ?u) m' = intent_row (dep w) m'" if "m' \<noteq> m" for m'
      using row [of m'] that by (simp add: option.map_ident)
    have r: "r = (case fst (run_state (set_intent_external_id e m ext) w) of
          None \<Rightarrow> write_json 200 (OrderBound (show_nat (unat m)) ext)
        | Some ErrNoRows \<Rightarrow> api_error 404 ''memo_id not found''
        | Some ErrExternalIDConflict \<Rightarrow> api_error 409 ''intent is already bound to a different external_id''
        | Some err \<Rightarrow> api_error 500 ''database error'')"
      and w': "w' = snd (run_state (set_intent_external_id e m ext) w)"
      using assms(2) good by (simp_all add: handle_set_external_id_def case_prod_beta)
    consider (lost) "db_reply e (tick w) \<noteq> DbOk" | (bound) "db_reply e (tick w) = DbOk" "fst ?u = 1"
      | (free) "db_reply e (tick w) = DbOk" "fst ?u \<noteq> 1" by blast
    then show ?thesis
    proof cases
      case lost
      have "http_status r = 500" using bind_lost(1) [OF lost, of m ext] by (auto simp: r api_error_def write_json_def)
      then show ?thesis using bind_lost(2) [OF lost, of m ext] lost good other by (auto simp: w')
    next
      case bound
      note bound_row = trans [OF count [symmetric] bound(2)]
      obtain i where "intent_row (dep w) m = Some i" "may_bind ext i"
        using bound_row by (cases "intent_row (dep w) m") (simp_all split: if_splits)
      then show ?thesis using bind_done [OF bound] good other row [of m] by (simp add: r w' write_json_def)
    next
      case free
      note refused = bind_refused [OF assms(1) free]
      show ?thesis
      proof (cases "db_reply e (Suc (tick w)) = DbOk")
        case True
        have d: "dep w' = dep w" using refused(1) by (simp add: w')
        show ?thesis
        proof (cases "intent_row (dep w) m")
          case None
          then have "r = api_error 404 ''memo_id not found''" using refused(2) [OF True] by (simp add: r)
          then show ?thesis using d good None by (simp add: api_error_def write_json_def)
        next
          case (Some i)
          then have "r = api_error 409 ''intent is already bound to a different external_id''"
            using refused(2) [OF True] by (simp add: r)
          moreover have "\<not> may_bind ext i" using free(2) count Some by (simp split: if_splits)
          ultimately show ?thesis using d good Some by (simp add: api_error_def write_json_def)
        qed
      next
        case False
        show ?thesis using refused(1) refused(3) [OF False] False by (auto simp: r w' api_error_def write_json_def)
      qed
    qed
  qed
qed

section \<open>A concrete service\<close>

definition demo_bridge :: "deposit_db \<Rightarrow> bridge_world" where
  "demo_bridge db = \<lparr>tick = 0, channels = \<lparr>ch_rows = [], next_ch_id = 1\<rparr>, dep = db, seqs = Map.empty, queued = []\<rparr>"

definition demo_order :: create_intent_request where
  "demo_order = \<lparr>req_c_address = ''CUSER'', req_expected_amt = ''5'', req_external_id = [], req_expires_in = 60\<rparr>"

definition demo_create :: "(bridge_reply option \<times> 64 word) \<times> bridge_world" where
  "demo_create = run_state (handle_create_intent demo_runtime (\<lambda>a. Some a) demo_pools (Some demo_order) 0) (demo_bridge demo_deposits)"

lemma demo_create_ok: "\<exists>r. fst (fst demo_create) = Some r \<and> http_status r = 201"
proof -
  have five: "create_intent_tries demo_runtime 5 = create_intent_tries demo_runtime (Suc 4)"
    by (simp add: eval_nat_numeral)
  have c: "req_c_address demo_order \<noteq> []" "demo_pools \<noteq> []" by (simp_all add: demo_order_def demo_pools_def)
  show ?thesis
    unfolding demo_create_def create_intent_passes [of demo_order "\<lambda>a. Some a", OF c(1) refl c(2)]
      create_intent_def five create_intent_tries.simps
    by (simp add: ask_def dep_stmt_def db_stmt_def demo_runtime_def Let_def demo_bridge_def write_json_def
        demo_deposits_def insert_forward_stmt_def insert_unless_def insert_intent_def)
qed

theorem intent_read_back_witness:
  "\<exists>c d. map_option http_body (fst (fst demo_create)) = Some (IntentCreated c) \<and>
    fst (run_state (handle_deposit_status demo_runtime (resp_memo_id c)) (snd demo_create)) = write_json 200 (DepositFound d) \<and>
    st_c_address d = ''CUSER'' \<and> st_status d = ''pending'' \<and> st_memo_id d = resp_memo_id c"
proof -
  obtain r where r: "fst (fst demo_create) = Some r" "http_status r = 201" using demo_create_ok by blast
  have run: "run_state (handle_create_intent demo_runtime (\<lambda>a. Some a) demo_pools (Some demo_order) 0) (demo_bridge demo_deposits) =
      ((Some r, snd (fst demo_create)), snd demo_create)"
    using r(1) unfolding demo_create_def by (simp add: prod_eq_iff)
  have ok: "db_reply demo_runtime n = DbOk" for n by (simp add: demo_runtime_def Let_def)
  have "intents (dep (snd demo_create)) = intents (fold intent_step [] (dep (snd demo_create)))" by simp
  from intent_read_back [OF run r(2) this ok ok] r(1) show ?thesis by (auto simp: demo_order_def)
qed

definition demo_bound :: "bridge_reply \<times> bridge_world" where
  "demo_bound = run_state (handle_set_external_id demo_runtime ''5'' (Some ''order-9'')) (demo_bridge demo_intents)"

theorem order_replies_witness:
  "http_status (fst demo_bound) = 200 \<and>
    (\<exists>m j. parse_uint64 ''5'' = Some m \<and> intent_row (dep (snd demo_bound)) m = Some j \<and> external_id j = Some ''order-9'')"
proof -
  have five: "parse_uint64 ''5'' = Some 5"
  proof -
    have "char_of (53 :: nat) = CHR ''5''" by code_simp
    then show ?thesis using parse_uint64_show_nat [of 5] by (simp add: show_nat.simps digit_char_def)
  qed
  have db: "db_reply demo_runtime (tick (demo_bridge demo_intents)) = DbOk"
    by (simp add: demo_runtime_def Let_def)
  have "fst (set_external_id_update (db_now demo_runtime (tick (demo_bridge demo_intents))) 5 ''order-9''
      (dep (demo_bridge demo_intents))) = 1" by code_simp
  from bind_done(1) [OF db this] have ok: "http_status (fst demo_bound) = 200"
    by (simp add: demo_bound_def handle_set_external_id_def five case_prod_beta write_json_def)
  have wf: "db_wf (dep (demo_bridge demo_intents))" by code_simp
  have run: "run_state (handle_set_external_id demo_runtime ''5'' (Some ''order-9'')) (demo_bridge demo_intents) =
      (fst demo_bound, snd demo_bound)" by (simp add: demo_bound_def)
  obtain m j where "parse_uint64 ''5'' = Some m" "intent_row (dep (snd demo_bound)) m = Some j" "external_id j = Some ''order-9''"
    using conjunct1 [OF order_replies [OF wf run], THEN mp, OF ok] by blast
  then show ?thesis using ok by blast
qed

end
