(* ===== verification/Http_Laws.thy ===== *)
theory Http_Laws
  imports Http
begin

text \<open>
  What the middleware guarantees: who gets past authentication, how many requests run at once, how
  many a caller gets through in a given time, and that dropping idle buckets is invisible.
\<close>

section \<open>Authentication\<close>

text \<open>
  Only the holder of the key gets through. A request passes \<open>RequireBearer\<close> exactly when it is for
  \<open>/health\<close> or its \<open>Authorization\<close> header is, in any case, \<open>Bearer\<close>, a space, and a text that is the
  key but for surrounding white space; so with a key, which the configuration demands, no request
  without the header passes anywhere else.
\<close>

lemma bearer_gate:
  assumes "key \<noteq> []"
  shows "(require_bearer key path header = Pass \<longleftrightarrow>
      path = ''/health'' \<or>
      (\<exists>p rest. header = p @ rest \<and> map lower_char p = map lower_char bearer_prefix \<and> trim_space rest = key)) \<and>
    (path \<noteq> ''/health'' \<longrightarrow> require_bearer key path [] \<noteq> Pass)"
proof -
  have nil: "trim_space [] = []" by code_simp
  have gate: "bearer_token header = key \<longleftrightarrow>
      (\<exists>p rest. header = p @ rest \<and> map lower_char p = map lower_char bearer_prefix \<and> trim_space rest = key)"
  proof
    assume t: "bearer_token header = key"
    then have "map lower_char (take (length bearer_prefix) header) = map lower_char bearer_prefix"
        "trim_space (drop (length bearer_prefix) header) = key"
      using assms by (auto simp: bearer_token_def split: if_splits)
    then show "\<exists>p rest. header = p @ rest \<and> map lower_char p = map lower_char bearer_prefix \<and> trim_space rest = key"
      by (metis append_take_drop_id)
  next
    assume "\<exists>p rest. header = p @ rest \<and> map lower_char p = map lower_char bearer_prefix \<and> trim_space rest = key"
    then obtain p rest where h: "header = p @ rest" "map lower_char p = map lower_char bearer_prefix" "trim_space rest = key"
      by blast
    have l: "length p = length bearer_prefix" using h(2) by (rule map_eq_imp_length_eq)
    have "rest \<noteq> []" using h(3) nil assms by auto
    then show "bearer_token header = key" using h l by (simp add: bearer_token_def)
  qed
  have "bearer_token [] = []" by (simp add: bearer_token_def)
  then show ?thesis using assms gate by (auto simp: require_bearer_def)
qed

text \<open>
  The same token in different headers: what the rate limiter takes as different callers
  (\<open>CallerKey\<close> digests the whole header) authentication takes as one.
\<close>

lemma one_caller_many_headers:
  "bearer_token (''Bearer '' @ key) = trim_space key" if "key \<noteq> []" for key
  using that by (simp add: bearer_token_def bearer_prefix_def)

lemma folded_header_same_token: "bearer_token (''bearer '' @ key) = bearer_token (''Bearer '' @ key)"
proof -
  have "map lower_char ''bearer '' = map lower_char ''Bearer ''" by code_simp
  then show ?thesis by (simp add: bearer_token_def bearer_prefix_def)
qed

section \<open>Concurrent requests\<close>

datatype inflight_event = Arrive string | Finish | StartDrain

text \<open>The requests that hold a slot are those that arrived, passed and have not finished.\<close>

fun inflight_step :: "nat \<Rightarrow> inflight_event \<Rightarrow> inflight \<times> nat \<Rightarrow> inflight \<times> nat" where
  "inflight_step cap (Arrive path) (st, running) =
     (case limit_inflight cap path st of (v, st') \<Rightarrow>
        (st', if v = Pass \<and> \<not> exempt path then running + 1 else running))"
| "inflight_step cap Finish (st, running) =
     (if running = 0 then (st, running) else (inflight_done st, running - 1))"
| "inflight_step cap StartDrain (st, running) = (drain st, running)"

lemma inflight_kept:
  "slots_used (fst s) = snd s \<Longrightarrow> snd s \<le> cap \<Longrightarrow>
    slots_used (fst (inflight_step cap ev s)) = snd (inflight_step cap ev s) \<and> snd (inflight_step cap ev s) \<le> cap"
  by (cases s; cases ev) (auto simp: limit_inflight_def reject_def inflight_done_def drain_def split: if_splits)

lemma inflight_run:
  "slots_used (fst s) = snd s \<Longrightarrow> snd s \<le> cap \<Longrightarrow>
    slots_used (fst (fold (inflight_step cap) evs s)) = snd (fold (inflight_step cap) evs s) \<and>
    snd (fold (inflight_step cap) evs s) \<le> cap"
proof (induction evs arbitrary: s)
  case (Cons ev evs)
  then show ?case using inflight_kept [OF Cons.prems] by simp
qed simp

text \<open>
  The service never runs more requests than it was configured for. After any sequence of
  arrivals, ends and a start of draining, the slots taken are exactly the admitted requests still
  running and at most the cap; a probe is always served; once draining, nothing else is; and below
  the cap an arrival is not turned away.
\<close>

lemma inflight_bounded:
  "let (st, running) = fold (inflight_step cap) evs (\<lparr>slots_used = 0, draining = False\<rparr>, 0) in
     slots_used st = running \<and> running \<le> cap \<and>
     (exempt path \<longrightarrow> fst (limit_inflight cap path st) = Pass) \<and>
     (\<not> exempt path \<longrightarrow> (fst (limit_inflight cap path st) = Pass \<longleftrightarrow> \<not> draining st \<and> running < cap))"
proof -
  obtain st running where s: "fold (inflight_step cap) evs (\<lparr>slots_used = 0, draining = False\<rparr>, 0) = (st, running)"
    by fastforce
  have "slots_used st = running \<and> running \<le> cap"
    using inflight_run [of "(\<lparr>slots_used = 0, draining = False\<rparr>, 0)" cap evs] s by simp
  then show ?thesis using s by (auto simp: limit_inflight_def reject_def)
qed

section \<open>Metered admission\<close>

lemma seconds_nonneg: "0 \<le> d \<Longrightarrow> 0 \<le> seconds d"
  by (simp add: seconds_def second_def millisecond_def)

text \<open>
  The contract of a token bucket: \<open>lev s k t\<close> is what caller \<open>k\<close> has at time \<open>t\<close>. It stays within the
  capacity, grows no faster than the rate, and a request that is let through costs its caller one.
\<close>

locale metered =
  fixes ok :: "instant \<Rightarrow> 's \<Rightarrow> bool" and take_one :: "'k \<Rightarrow> instant \<Rightarrow> 's \<Rightarrow> bool \<times> 's"
    and lev :: "'s \<Rightarrow> 'k \<Rightarrow> instant \<Rightarrow> rat" and cap rate :: rat
  assumes keeps: "ok t s \<Longrightarrow> t \<le> now \<Longrightarrow> ok now (snd (take_one k now s))"
    and within: "ok t s \<Longrightarrow> t \<le> u \<Longrightarrow> 0 \<le> lev s k u \<and> lev s k u \<le> cap"
    and grows: "ok t s \<Longrightarrow> t \<le> u \<Longrightarrow> u \<le> v \<Longrightarrow> lev s k v \<le> lev s k u + seconds (v - u) * rate"
    and pays: "ok t s \<Longrightarrow> t \<le> now \<Longrightarrow>
      lev (snd (take_one k now s)) j now = lev s j now - (if j = k \<and> fst (take_one k now s) then 1 else 0)"
    and rate_nonneg: "0 \<le> rate"
begin

fun through :: "'k \<Rightarrow> ('k \<times> instant) list \<Rightarrow> 's \<Rightarrow> nat" where
  "through k [] s = 0"
| "through k ((j, now) # evs) s =
     (if j = k \<and> fst (take_one j now s) then 1 else 0) + through k evs (snd (take_one j now s))"

lemma spent:
  assumes "ok t s" "sorted (t # map snd evs)" "\<forall>now \<in> set (map snd evs). now \<le> u" "t \<le> u"
  shows "of_nat (through k evs s) \<le> lev s k t + seconds (u - t) * rate"
  using assms
proof (induction evs arbitrary: t s)
  case Nil
  have "0 \<le> seconds (u - t) * rate" using Nil.prems(4) rate_nonneg by (intro mult_nonneg_nonneg seconds_nonneg) simp_all
  then show ?case using within [OF Nil.prems(1), of t k] by simp
next
  case (Cons ev evs)
  obtain j now where ev: "ev = (j, now)" by (cases ev)
  let ?s = "snd (take_one j now s)" and ?n = "if j = k \<and> fst (take_one j now s) then 1 else 0 :: nat"
  have le: "t \<le> now" "now \<le> u" using Cons.prems(2,3) ev by simp_all
  have "of_nat (through k evs ?s) \<le> lev ?s k now + seconds (u - now) * rate"
    using keeps [OF Cons.prems(1) le(1)] Cons.prems(2,3) le(2) ev by (intro Cons.IH) auto
  moreover have "lev ?s k now = lev s k now - of_nat ?n"
    using pays [OF Cons.prems(1) le(1), of j k] by auto
  moreover have "lev s k now \<le> lev s k t + seconds (now - t) * rate"
    using grows [OF Cons.prems(1) order_refl le(1)] .
  moreover have "seconds (u - now) * rate + seconds (now - t) * rate = seconds (u - t) * rate"
    by (simp add: seconds_def diff_divide_distrib algebra_simps)
  ultimately show ?case by (simp add: ev)
qed

lemma admitted_bound:
  assumes "ok t s" "sorted (t # map snd evs)" "\<forall>now \<in> set (map snd evs). now \<le> u" "t \<le> u"
  shows "of_nat (through k evs s) \<le> cap + seconds (u - t) * rate"
  using spent [OF assms, of k] within [OF assms(1) order_refl, of k] by simp

end

section \<open>The rate limiter\<close>

definition level :: "rate_limiter \<Rightarrow> string \<Rightarrow> instant \<Rightarrow> rat" where
  "level l k t = (case map_of (buckets l) k of None \<Rightarrow> burst l | Some b \<Rightarrow> refill (rps l) (burst l) t b)"

definition limiter_ok :: "rat \<Rightarrow> rat \<Rightarrow> instant \<Rightarrow> rate_limiter \<Rightarrow> bool" where
  "limiter_ok r b t l \<longleftrightarrow> rps l = r \<and> burst l = b \<and> 0 < r \<and> 0 \<le> b \<and> distinct (map fst (buckets l)) \<and>
     (\<forall>(k, bk) \<in> set (buckets l). 0 \<le> tokens bk \<and> last_seen bk \<le> t)"

lemma second_rat: "(0 :: rat) < of_int second"
  by (simp add: second_def millisecond_def)

lemma refill_bounds: "0 \<le> tokens bk \<Longrightarrow> last_seen bk \<le> t \<Longrightarrow> 0 \<le> r \<Longrightarrow> 0 \<le> b \<Longrightarrow>
    0 \<le> refill r b t bk \<and> refill r b t bk \<le> b"
  by (simp add: refill_def seconds_nonneg)

lemma refill_twice:
  assumes "last_seen bk \<le> t" "t \<le> u" "0 \<le> r"
  shows "refill r b u \<lparr>tokens = refill r b t bk, last_seen = t\<rparr> = refill r b u bk"
proof -
  have "seconds (u - last_seen bk) * r = seconds (t - last_seen bk) * r + seconds (u - t) * r"
    by (simp add: seconds_def diff_divide_distrib algebra_simps)
  moreover have "0 \<le> seconds (u - t) * r" using assms by (simp add: seconds_nonneg)
  ultimately show ?thesis by (simp add: refill_def min_def)
qed

lemma refill_grows:
  assumes "t \<le> u" "0 \<le> r"
  shows "refill r b u bk \<le> refill r b t bk + seconds (u - t) * r"
proof -
  have "seconds (u - last_seen bk) * r = seconds (t - last_seen bk) * r + seconds (u - t) * r"
    by (simp add: seconds_def diff_divide_distrib algebra_simps)
  moreover have "0 \<le> seconds (u - t) * r" using assms by (simp add: seconds_nonneg)
  ultimately show ?thesis by (simp add: refill_def min_def)
qed

text \<open>An idle bucket has refilled: the cut fraction of a nanosecond does not matter, since times are whole.\<close>

lemma idle_full:
  assumes "limiter_ok r b t l" "(k, bk) \<in> set (buckets l)" "full_after l < u - last_seen bk" "u \<le> v"
  shows "refill r b v bk = b"
proof -
  have l: "rps l = r" "burst l = b" "0 < r" "0 \<le> tokens bk" using assms(1,2) by (auto simp: limiter_ok_def)
  have "b / r * of_int second < of_int (full_after l + 1)"
    using l by (simp add: full_after_def to_duration_def) linarith
  also have "\<dots> \<le> of_int (v - last_seen bk)" using assms(3,4) by (simp only: of_int_le_iff)
  finally have "b / r \<le> seconds (v - last_seen bk)"
    using second_rat by (simp add: seconds_def field_simps)
  then have "b \<le> seconds (v - last_seen bk) * r" using l(3) by (simp add: field_simps)
  then show ?thesis using l(4) by (simp add: refill_def)
qed

lemma map_of_filter_value:
  "distinct (map fst xs) \<Longrightarrow>
    map_of (filter (\<lambda>(k, v). P v) xs) k = (case map_of xs k of None \<Rightarrow> None | Some v \<Rightarrow> if P v then Some v else None)"
  by (induction xs) (auto simp: map_of_eq_None_iff image_iff split: option.splits)

lemma evict_level:
  assumes "limiter_ok r b t l" "now \<le> u"
  shows "level (evict_idle now l) k u = level l k u"
proof -
  have d: "distinct (map fst (buckets l))" and p: "rps l = r" "burst l = b" using assms(1) by (auto simp: limiter_ok_def)
  note m = map_of_filter_value [OF d, of "\<lambda>b. \<not> full_after l < now - last_seen b" k]
  show ?thesis
  proof (cases "map_of (buckets l) k")
    case (Some bk)
    then have "(k, bk) \<in> set (buckets l)" by (rule map_of_SomeD)
    then show ?thesis
      using Some m p idle_full [OF assms(1) _ _ assms(2)] by (simp add: level_def evict_idle_def)
  qed (use m in \<open>simp add: level_def evict_idle_def\<close>)
qed

lemma evict_ok: "limiter_ok r b t l \<Longrightarrow> limiter_ok r b t (evict_idle now l)"
  by (auto simp: limiter_ok_def evict_idle_def distinct_map_filter)

text \<open>Looking a bucket up makes a full one for a caller without one: their allowance is the same.\<close>

lemma with_bucket_ok:
  assumes "limiter_ok r b t l" "t \<le> now"
  shows "limiter_ok r b now (with_bucket key now l)"
proof -
  have "limiter_ok r b now l" using assms by (auto simp: limiter_ok_def)
  moreover from this have "limiter_ok r b now (l\<lparr>buckets := (key, \<lparr>tokens = burst l, last_seen = now\<rparr>) # buckets l\<rparr>)"
    if "map_of (buckets l) key = None"
    using that by (auto simp: limiter_ok_def map_of_eq_None_iff)
  ultimately show ?thesis by (simp add: with_bucket_def Let_def evict_ok split: option.split)
qed

lemma with_bucket_level:
  assumes "limiter_ok r b t l" "t \<le> now" "now \<le> u"
  shows "level (with_bucket key now l) k u = level l k u"
proof (cases "map_of (buckets l) key")
  case None
  let ?l = "l\<lparr>buckets := (key, \<lparr>tokens = burst l, last_seen = now\<rparr>) # buckets l\<rparr>"
  have ok: "limiter_ok r b now ?l"
    using assms None by (auto simp: limiter_ok_def map_of_eq_None_iff)
  have "0 \<le> seconds (u - now) * r" using assms by (simp add: limiter_ok_def seconds_nonneg)
  then have "level ?l k u = level l k u"
    using None assms(1) by (simp add: level_def refill_def limiter_ok_def split: option.split)
  then show ?thesis using None evict_level [OF ok assms(3), of k] by (simp add: with_bucket_def Let_def)
qed (simp add: with_bucket_def)

lemma with_bucket_known:
  assumes "limiter_ok r b t l" "t \<le> now"
  shows "refill (rps l) (burst l) now
      (case map_of (buckets (with_bucket key now l)) key of
         Some b \<Rightarrow> b | None \<Rightarrow> \<lparr>tokens = burst l, last_seen = now\<rparr>) = level l key now"
proof -
  have p: "rps (with_bucket key now l) = rps l" "burst (with_bucket key now l) = burst l"
    by (simp_all add: with_bucket_def evict_idle_def Let_def split: option.split)
  show ?thesis
    using with_bucket_level [OF assms order_refl, of key key] p
    by (simp add: level_def refill_def seconds_def split: option.splits)
qed

lemma allow_eq:
  assumes "limiter_ok r b t l" "t \<le> now"
  shows "allow key now l =
    (let have = level l key now; l' = with_bucket key now l;
         left = if 1 \<le> have then have - 1 else have
     in ((1 \<le> have, if 1 \<le> have then 0 else to_duration ((1 - have) / r * of_int second)),
         l'\<lparr>buckets := AList.update key \<lparr>tokens = left, last_seen = now\<rparr> (buckets l')\<rparr>))"
  using with_bucket_known [OF assms, of key] assms(1) by (simp add: allow_def Let_def limiter_ok_def)

lemma known_ok: "limiter_ok r b t l \<Longrightarrow> map_of (buckets l) k = Some bk \<Longrightarrow> 0 \<le> tokens bk \<and> last_seen bk \<le> t"
  by (auto simp: limiter_ok_def dest!: map_of_SomeD)

lemma level_bounds:
  assumes "limiter_ok r b t l" "t \<le> u"
  shows "0 \<le> level l k u \<and> level l k u \<le> b"
proof (cases "map_of (buckets l) k")
  case (Some bk)
  have "0 \<le> refill r b u bk \<and> refill r b u bk \<le> b"
    using known_ok [OF assms(1) Some] assms by (intro refill_bounds) (auto simp: limiter_ok_def)
  then show ?thesis using Some assms(1) by (simp add: level_def limiter_ok_def)
qed (use assms in \<open>simp add: level_def limiter_ok_def\<close>)

lemma level_grows:
  assumes "limiter_ok r b t l" "u \<le> v"
  shows "level l k v \<le> level l k u + seconds (v - u) * r"
proof (cases "map_of (buckets l) k")
  case None
  have "0 \<le> seconds (v - u) * r" using assms by (simp add: limiter_ok_def seconds_nonneg)
  then show ?thesis using None by (simp add: level_def)
next
  case (Some bk)
  have "refill r b v bk \<le> refill r b u bk + seconds (v - u) * r"
    using assms by (intro refill_grows) (auto simp: limiter_ok_def)
  then show ?thesis using Some assms(1) by (simp add: level_def limiter_ok_def)
qed

lemma update_ok:
  assumes "limiter_ok r b now l" "0 \<le> x"
  shows "limiter_ok r b now (l\<lparr>buckets := AList.update k \<lparr>tokens = x, last_seen = now\<rparr> (buckets l)\<rparr>)"
proof -
  have d: "distinct (map fst (buckets l))" using assms(1) by (simp add: limiter_ok_def)
  have "0 \<le> tokens bk \<and> last_seen bk \<le> now"
    if "(j, bk) \<in> set (AList.update k \<lparr>tokens = x, last_seen = now\<rparr> (buckets l))" for j bk
  proof -
    have "map_of (AList.update k \<lparr>tokens = x, last_seen = now\<rparr> (buckets l)) j = Some bk"
      using that d by (intro map_of_is_SomeI distinct_update)
    then show ?thesis using known_ok [OF assms(1)] assms(2) by (auto simp: update_conv' split: if_splits)
  qed
  then show ?thesis using assms(1) distinct_update [OF d] by (auto simp: limiter_ok_def)
qed

lemma allow_ok:
  assumes "limiter_ok r b t l" "t \<le> now"
  shows "limiter_ok r b now (snd (allow k now l))"
  using level_bounds [OF assms, of k] with_bucket_ok [OF assms, of k]
  by (simp add: allow_eq [OF assms] Let_def update_ok)

text \<open>What everyone has after a request, now and later.\<close>

lemma update_level:
  "level (l\<lparr>buckets := AList.update k bk (buckets l)\<rparr>) j u =
    (if j = k then refill (rps l) (burst l) u bk else level l j u)"
  by (simp add: level_def update_conv' split: option.split)

lemma allow_level:
  assumes "limiter_ok r b t l" "t \<le> now" "now \<le> u"
  shows "level (snd (allow k now l)) j u =
    (if j = k then refill r b u \<lparr>tokens = level l k now - (if 1 \<le> level l k now then 1 else 0), last_seen = now\<rparr>
     else level l j u)"
proof -
  have p: "rps (with_bucket k now l) = r" "burst (with_bucket k now l) = b"
    using with_bucket_ok [OF assms(1,2), of k] by (auto simp: limiter_ok_def)
  show ?thesis
    using with_bucket_level [OF assms, of k j] p
    by (simp add: allow_eq [OF assms(1,2)] Let_def update_level)
qed

lemma allow_verdict: "limiter_ok r b t l \<Longrightarrow> t \<le> now \<Longrightarrow>
    fst (allow k now l) = (1 \<le> level l k now, if 1 \<le> level l k now then 0 else to_duration ((1 - level l k now) / r * of_int second))"
  by (simp add: allow_eq Let_def)

lemma refill_now: "x \<le> b \<Longrightarrow> refill r b now \<lparr>tokens = x, last_seen = now\<rparr> = x"
  by (simp add: refill_def seconds_def)

definition take_token :: "string \<Rightarrow> instant \<Rightarrow> rate_limiter \<Rightarrow> bool \<times> rate_limiter" where
  "take_token k now l = (case allow k now l of ((ok, wait), l') \<Rightarrow> (ok, l'))"

lemma take_token_eq: "take_token k now l = (fst (fst (allow k now l)), snd (allow k now l))"
  by (simp add: take_token_def split: prod.split)

text \<open>The limiter meters its callers: in any time it lets a caller through burst and rate times the time.\<close>

interpretation limiter: metered "\<lambda>t l. 0 < r \<and> limiter_ok r b t l" take_token level b "max r 0" for r b
proof (unfold_locales, goal_cases)
  case (1 t s now k)
  then show ?case using allow_ok [of r b t s now k] by (simp add: take_token_eq)
next
  case (2 t s u k)
  then show ?case using level_bounds [of r b t s u k] by simp
next
  case (3 t s u v k)
  then show ?case using level_grows [of r b t s u v k] by simp
next
  case (4 t s now k j)
  then have "level s k now \<le> b" using level_bounds [of r b t s now k] by simp
  then show ?case
    using 4 allow_level [of r b t s now now k j] allow_verdict [of r b t s now k]
    by (simp add: take_token_eq refill_now)
qed simp

lemma new_limiter_ok: "0 < r \<Longrightarrow> limiter_ok r (of_nat b) t (new_rate_limiter r b)"
  by (simp add: limiter_ok_def new_rate_limiter_def)

text \<open>How many requests of a caller the limiter lets through, in a sequence of requests of all callers.\<close>

fun let_through :: "string \<Rightarrow> (string \<times> instant) list \<Rightarrow> rate_limiter \<Rightarrow> nat" where
  "let_through k [] l = 0"
| "let_through k ((j, now) # evs) l =
     (case limit_rate j ''/intents'' now l of
        (v, l') \<Rightarrow> (if j = k \<and> v = Pass then 1 else 0) + let_through k evs l')"

lemma reject_not_pass: "reject st code w \<noteq> Pass"
  by (simp add: reject_def)

lemma limited_path: "\<not> exempt ''/intents''"
  by code_simp

lemma limit_rate_token:
  "k \<noteq> [] \<Longrightarrow> \<not> exempt path \<Longrightarrow> (fst (limit_rate k path now l) = Pass \<longleftrightarrow> fst (take_token k now l)) \<and>
    snd (limit_rate k path now l) = snd (take_token k now l)"
  by (simp add: limit_rate_def take_token_def reject_not_pass split: prod.split)

lemma let_through_eq: "[] \<notin> fst ` set evs \<Longrightarrow> let_through k evs l = limiter.through k evs l"
proof (induction evs arbitrary: l)
  case (Cons ev evs)
  obtain j now where ev: "ev = (j, now)" by (cases ev)
  have j: "j \<noteq> []" using Cons.prems ev by auto
  have "let_through k evs (snd (take_token j now l)) = limiter.through k evs (snd (take_token j now l))"
    using Cons.prems by (intro Cons.IH) auto
  then show ?case using limit_rate_token [OF j limited_path, of now l] by (simp add: ev split_beta)
qed simp

text \<open>
  C32: no caller exceeds its rate. Over any stretch of requests, of any callers and in any order of
  keys, the requests of one caller that the limiter lets through number at most the burst plus the
  rate times the seconds that passed, whatever buckets were dropped in between.
\<close>

theorem rate_bound:
  assumes "0 < r" "sorted (t # map snd evs @ [u])" "[] \<notin> fst ` set evs"
  shows "rat_of_nat (let_through k evs (new_rate_limiter r b)) \<le> of_nat b + seconds (u - t) * r"
proof -
  have "rat_of_nat (limiter.through k evs (new_rate_limiter r b)) \<le> of_nat b + seconds (u - t) * max r 0"
    using assms new_limiter_ok [of r b t]
    by (intro limiter.admitted_bound [of r "of_nat b" t]) (auto simp: sorted_append)
  then show ?thesis using assms by (simp add: let_through_eq)
qed

theorem rate_bound_witness:
  "rat_of_nat (let_through ''a'' [(''a'', 0), (''a'', 0), (''b'', 5), (''a'', 10)] (new_rate_limiter 2 1)) \<le> 1 + seconds second * 2"
proof -
  have "sorted ((0 :: int) # map snd [(''a'', 0), (''a'', 0), (''b'', 5), (''a'', 10)] @ [second])"
    by (simp add: second_def millisecond_def)
  then show ?thesis
    using rate_bound [of 2 0 "[(''a'', 0), (''a'', 0), (''b'', 5), (''a'', 10)]" second "''a''" 1] by simp
qed

section \<open>The layers together\<close>

lemma hex_encode_length: "length (hex_encode s) = 2 * length s"
  by (induction s) (simp_all add: hex_encode_def)

text \<open>Every caller has a key, so the limiter exempts nobody.\<close>

lemma sha256_round_length: "length (sha256_round kw st) = length st"
  by (simp add: sha256_round_def Let_def split: list.split)

lemma sha256_block_length: "length (sha256_block st ws) = length st"
proof -
  have "length (fold sha256_round kws st) = length st" for kws
    by (induction kws arbitrary: st) (simp_all add: sha256_round_length)
  then show ?thesis by (simp add: sha256_block_def)
qed

lemma sha256_blocks_length: "length (sha256_blocks st ws) = length st"
  by (induction st ws rule: sha256_blocks.induct) (subst sha256_blocks.simps, simp add: sha256_block_length)

lemma sha256_length: "length (sha256 s) = 32"
proof -
  have "length sha256_init = 8" by code_simp
  then show ?thesis
    by (simp add: sha256_def length_concat be_bytes_def sha256_blocks_length comp_def sum_list_triv)
qed

lemma caller_key_nonempty: "caller_key header \<noteq> []"
  using hex_encode_length [of "take 8 (sha256 header)"] by (auto simp: caller_key_def sha256_length)



section \<open>Dropping idle buckets\<close>

text \<open>The limiter as one would specify it: one bucket per caller there will ever be, full from the start, none ever dropped.\<close>

definition ideal_allow :: "rat \<Rightarrow> rat \<Rightarrow> string \<Rightarrow> instant \<Rightarrow> (string \<Rightarrow> bucket) \<Rightarrow> (bool \<times> duration) \<times> (string \<Rightarrow> bucket)" where
  "ideal_allow r b k now m =
     (let t = refill r b now (m k) in
      if 1 \<le> t then ((True, 0), m(k := \<lparr>tokens = t - 1, last_seen = now\<rparr>))
      else ((False, to_duration ((1 - t) / r * of_int second)), m(k := \<lparr>tokens = t, last_seen = now\<rparr>)))"

primrec answers :: "(string \<Rightarrow> instant \<Rightarrow> 's \<Rightarrow> (bool \<times> duration) \<times> 's) \<Rightarrow> (string \<times> instant) list \<Rightarrow> 's \<Rightarrow> (bool \<times> duration) list" where
  "answers f [] s = []"
| "answers f (ev # evs) s = (case f (fst ev) (snd ev) s of (a, s') \<Rightarrow> a # answers f evs s')"

definition stands_for :: "rat \<Rightarrow> rat \<Rightarrow> instant \<Rightarrow> (string \<Rightarrow> bucket) \<Rightarrow> rate_limiter \<Rightarrow> bool" where
  "stands_for r b t m l \<longleftrightarrow> (\<forall>k u. t \<le> u \<longrightarrow> level l k u = refill r b u (m k))"

lemma ideal_step:
  assumes "limiter_ok r b t l" "t \<le> now" "stands_for r b t m l"
  shows "fst (allow k now l) = fst (ideal_allow r b k now m) \<and>
    stands_for r b now (snd (ideal_allow r b k now m)) (snd (allow k now l))"
proof -
  have e: "level l j u = refill r b u (m j)" if "now \<le> u" for j u
    using assms(2,3) that by (simp add: stands_for_def)
  have "level (snd (allow k now l)) j u = refill r b u (snd (ideal_allow r b k now m) j)" if "now \<le> u" for j u
    using allow_level [OF assms(1,2) that, of k j] e [of now] e [OF that] that by (simp add: ideal_allow_def Let_def)
  then show ?thesis
    using allow_verdict [OF assms(1,2), of k] e [of now k] by (simp add: stands_for_def ideal_allow_def Let_def)
qed

lemma answers_agree:
  "limiter_ok r b t l \<Longrightarrow> stands_for r b t m l \<Longrightarrow> sorted (t # map snd evs) \<Longrightarrow>
    answers allow evs l = answers (ideal_allow r b) evs m"
proof (induction evs arbitrary: t l m)
  case (Cons ev evs)
  have le: "t \<le> snd ev" using Cons.prems(3) by simp
  show ?case
    using ideal_step [OF Cons.prems(1) le Cons.prems(2), of "fst ev"] allow_ok [OF Cons.prems(1) le, of "fst ev"]
      Cons.IH Cons.prems(3) by (simp add: split_beta)
qed simp

text \<open>
  C33: dropping idle buckets cannot be observed. On every sequence of requests in time order, the limiter
  of the code, which makes buckets on demand and drops the idle ones when there are more than ten
  thousand, gives each request exactly the answer, and a refused one exactly the wait, of a limiter that
  keeps one bucket for every possible caller for ever.
\<close>

theorem eviction_invisible:
  assumes "0 < r" "sorted (t # map snd evs)"
  shows "answers allow evs (new_rate_limiter r b) =
    answers (ideal_allow r (of_nat b)) evs (\<lambda>k. \<lparr>tokens = of_nat b, last_seen = t\<rparr>)"
proof (rule answers_agree [OF new_limiter_ok [OF assms(1)] _ assms(2)])
  show "stands_for r (of_nat b) t (\<lambda>k. \<lparr>tokens = of_nat b, last_seen = t\<rparr>) (new_rate_limiter r b)"
    using assms(1) by (simp add: stands_for_def level_def new_rate_limiter_def refill_def seconds_nonneg)
qed

theorem eviction_invisible_witness:
  "answers allow [(''a'', 0), (''a'', 3), (''b'', 4)] (new_rate_limiter 1 1) =
    answers (ideal_allow 1 1) [(''a'', 0), (''a'', 3), (''b'', 4)] (\<lambda>k. \<lparr>tokens = 1, last_seen = 0\<rparr>)"
  using eviction_invisible [of 1 0 "[(''a'', 0), (''a'', 3), (''b'', 4)]" 1] by simp

section \<open>Request ids\<close>

lemma hex_safe: "n < 16 \<Longrightarrow> safe_id_char (hex_digit n)"
  by (auto simp: hex_digit_def safe_id_char_def Let_def)

lemma hex_encode_safe: "list_all safe_id_char (hex_encode s)"
  by (induction s) (auto simp: hex_encode_def intro!: hex_safe simp: less_mult_imp_div_less)

text \<open>
  Nothing a caller sends can break the log line. Whatever the \<open>X-Request-ID\<close> header holds, the id the
  service logs and echoes is one to sixty-four letters, digits, dashes, underscores and dots; it is the
  caller's own when that is such an id already.
\<close>

lemma request_id_safe:
  assumes "length random = 16"
  shows "valid_id (with_request_id header random) \<and>
    (valid_id header \<longrightarrow> with_request_id header random = header) \<and>
    list_all (\<lambda>c. c \<noteq> CHR '' '' \<and> c \<noteq> CHR 0x0A \<and> c \<noteq> CHR ''='' \<and> c \<noteq> CHR 0x22) (with_request_id header random)"
proof -
  have v: "valid_id (with_request_id header random)"
    using assms hex_encode_length [of random]
    by (auto simp: with_request_id_def valid_id_def new_id_def hex_encode_safe)
  have "safe_id_char c \<Longrightarrow> c \<noteq> CHR '' '' \<and> c \<noteq> CHR 0x0A \<and> c \<noteq> CHR ''='' \<and> c \<noteq> CHR 0x22" for c
    by (auto simp: safe_id_char_def Let_def)
  moreover have "list_all safe_id_char (with_request_id header random)" using v by (simp add: valid_id_def)
  ultimately show ?thesis using v by (simp add: list_all_iff) (simp add: with_request_id_def)
qed

end
