(* ===== verification/Sponsor_Request.thy ===== *)
theory Sponsor_Request
  imports Feebump Encoding
begin

text \<open>
  \<open>internal/gasless/sponsor/request.go\<close>: what latch-api may ask the service to pay for.
  \<open>validate\<close> is \<open>Validate\<close>, \<open>parse_policy\<close> and \<open>allows\<close> the sponsored-call policy, and
  \<open>payload_hash\<close> (from \<open>submitter.go\<close>) the identity of a request body. The lemmas characterise
  exactly the accepted requests, read a printed policy back, and show that two different bodies
  with one hash are a SHA-256 collision.
\<close>

section \<open>The SDK\<close>

text \<open>
  What the gasless service uses of the Stellar SDK beyond \<open>sdk\<close>: strkey checks, address texts,
  ledger keys, and the decoders of envelopes, authorization entries, ledger entries and values.
  \<open>account_address\<close> is \<open>xdr.AddressToAccountId\<close> as an address value, \<open>contract_address\<close> the decoding
  of a C-address; \<open>auth_preimage\<close> encodes a Soroban authorization preimage from the network id,
  nonce, expiration and invocation.
\<close>

text \<open>The data of a ledger entry: an account's balance and sequence number, or a contract's value.\<close>

datatype ledger_data = AccountData int int | ContractData sc_val | OtherLedgerData

datatype request_op = InvokeHostFunctionOp host_function "auth_entry list" | OtherOp string

datatype request_envelope = V1Envelope "request_op list" | OtherEnvelope string

record gasless_sdk =
  base_sdk :: sdk
  is_contract_address :: "string \<Rightarrow> bool"
  address_string :: "sc_address \<Rightarrow> string + string"
  account_address :: "string \<Rightarrow> string + sc_address"
  decode_envelope :: "string \<Rightarrow> string + request_envelope"
  decode_auth_entry :: "string \<Rightarrow> string + auth_entry"
  auth_preimage :: "string \<Rightarrow> int \<Rightarrow> 32 word \<Rightarrow> invocation \<Rightarrow> string + string"
  decode_account_key :: "string \<Rightarrow> string + string"
  contract_address :: "string \<Rightarrow> string + sc_address"
  account_ledger_key :: "sc_address \<Rightarrow> string + string"
  marshal_ledger_key :: "string \<Rightarrow> string + string"
  balance_ledger_key :: "sc_address \<Rightarrow> sc_val \<Rightarrow> string + string"
  decode_ledger_data :: "string \<Rightarrow> string + ledger_data"
  decode_scval :: "string \<Rightarrow> string + sc_val"

section \<open>Requests\<close>

definition mode_sponsored :: string where
  "mode_sponsored = ''sponsored''"

definition mode_forward :: string where
  "mode_forward = ''forward''"

record request =
  request_id :: string
  wallet :: string
  mode :: string
  transaction :: string

record call =
  call_contract :: string
  call_function :: string
  call_host :: host_function
  call_auth :: "auth_entry list"

text \<open>Every error \<open>Prepare\<close> and \<open>Quote\<close> can return; the text is what \<open>%w: %s\<close> adds.\<close>

datatype sponsor_error = ErrInvalid string | ErrNotSponsorable string | ErrForwardNotBuilt
  | ErrConflict | ErrWalletCap | ErrDailyBudget | ErrForwardFailures | ErrForwardInFlight
  | ErrSimulation string | ErrFeeTooLow string | ErrPriceUnavailable string | ErrUnavailable
  | OtherErr string

text \<open>\<open>requestIDPattern\<close>: 8 to 64 characters of \<open>[A-Za-z0-9_-]\<close>.\<close>

definition request_id_char :: "char \<Rightarrow> bool" where
  "request_id_char c \<longleftrightarrow>
     (let n = of_char c :: nat in
      65 \<le> n \<and> n \<le> 90 \<or> 97 \<le> n \<and> n \<le> 122 \<or> is_digit c \<or> c = CHR ''_'' \<or> c = CHR ''-'')"

definition request_id_ok :: "string \<Rightarrow> bool" where
  "request_id_ok s \<longleftrightarrow> 8 \<le> length s \<and> length s \<le> 64 \<and> list_all request_id_char s"

definition max_transaction_bytes :: int where
  "max_transaction_bytes = 64 * 1024"

definition sc_address_string :: "gasless_sdk \<Rightarrow> sc_address \<Rightarrow> string + string" where
  "sc_address_string k a =
     (case address_string k a of Inl m \<Rightarrow> Inl (''decode address: '' @ m) | Inr s \<Rightarrow> Inr s)"

definition auth_address :: "gasless_sdk \<Rightarrow> credentials \<Rightarrow> string + string" where
  "auth_address k creds =
     (case creds of
        CredAddress c \<Rightarrow> sc_address_string k (cred_address c)
      | CredAddressV2 c \<Rightarrow> sc_address_string k (cred_address c)
      | CredSourceAccount \<Rightarrow> Inl ''source-account credentials are not allowed''
      | CredOther t \<Rightarrow> Inl (''unsupported credentials type '' @ t))"

section \<open>The policy\<close>

definition wallet_contract :: string where
  "wallet_contract = ''wallet''"

record rule =
  rule_contract :: string
  rule_function :: string

type_synonym policy = "rule list"

definition parse_rule :: "gasless_sdk \<Rightarrow> string \<Rightarrow> string + rule" where
  "parse_rule k part =
     (case cut CHR '':'' part of
        (contract, fn, ok) \<Rightarrow>
          if \<not> ok \<or> fn = [] then Inl (''sponsored call '' @ go_quote part @ '' must be CONTRACT:function'')
          else if contract \<noteq> wallet_contract \<and> \<not> is_contract_address k contract
          then Inl (''sponsored call '' @ go_quote part @ '': contract must be a C-address or '' @
            go_quote wallet_contract)
          else Inr \<lparr>rule_contract = contract, rule_function = fn\<rparr>)"

fun parse_rules :: "gasless_sdk \<Rightarrow> string list \<Rightarrow> string + policy" where
  "parse_rules k [] = Inr []"
| "parse_rules k (p # ps) =
     (let part = trim_space p in
      if part = [] then parse_rules k ps
      else case parse_rule k part of
             Inl m \<Rightarrow> Inl m
           | Inr r \<Rightarrow> (case parse_rules k ps of Inl m \<Rightarrow> Inl m | Inr rs \<Rightarrow> Inr (r # rs)))"

definition parse_policy :: "gasless_sdk \<Rightarrow> string \<Rightarrow> string + policy" where
  "parse_policy k s =
     (case parse_rules k (split_on CHR '','' s) of
        Inl m \<Rightarrow> Inl m
      | Inr [] \<Rightarrow> Inl ''no sponsored calls configured''
      | Inr rs \<Rightarrow> Inr rs)"

fun allows :: "policy \<Rightarrow> call \<Rightarrow> string \<Rightarrow> bool" where
  "allows [] c wlt = False"
| "allows (r # rs) c wlt =
     (if rule_function r \<noteq> call_function c then allows rs c wlt
      else if rule_contract r = call_contract c \<or>
        rule_contract r = wallet_contract \<and> call_contract c = wlt then True
      else allows rs c wlt)"

section \<open>Validation\<close>

fun check_auth :: "gasless_sdk \<Rightarrow> string list \<Rightarrow> nat \<Rightarrow> auth_entry list \<Rightarrow> sponsor_error option" where
  "check_auth k relayers i [] = None"
| "check_auth k relayers i (a # as) =
     (case auth_address k (entry_creds a) of
        Inl m \<Rightarrow> Some (ErrInvalid (''auth entry '' @ show_nat i @ '': '' @ m))
      | Inr addr \<Rightarrow>
          if addr \<in> set relayers
          then Some (ErrInvalid (''auth entry '' @ show_nat i @ '' claims to act for a relayer account''))
          else check_auth k relayers (Suc i) as)"

text \<open>From the decoded envelope to the call: one operation, invoking a contract.\<close>

definition extract_call ::
  "gasless_sdk \<Rightarrow> policy \<Rightarrow> string list \<Rightarrow> request \<Rightarrow> request_envelope \<Rightarrow> sponsor_error + call"
where
  "extract_call k pol relayers req env =
     (case env of
        OtherEnvelope t \<Rightarrow> Inl (ErrInvalid (''transaction must be a v1 transaction envelope, not '' @ t))
      | V1Envelope ops \<Rightarrow>
          (case ops of
             [OtherOp t] \<Rightarrow> Inl (ErrInvalid (''operation must be InvokeHostFunction, is '' @ t))
           | [InvokeHostFunctionOp (OtherHostFunction t) auth] \<Rightarrow>
               Inl (ErrInvalid (''host function must invoke a contract, is '' @ t))
           | [InvokeHostFunctionOp (InvokeContract args) auth] \<Rightarrow>
               (case sc_address_string k (inv_contract args) of
                  Inl m \<Rightarrow> Inl (ErrInvalid ''invoked address must be a contract'')
                | Inr contract \<Rightarrow>
                    if \<not> is_contract_address k contract
                    then Inl (ErrInvalid ''invoked address must be a contract'')
                    else (case check_auth k relayers 0 auth of
                            Some err \<Rightarrow> Inl err
                          | None \<Rightarrow>
                              let c = \<lparr>call_contract = contract, call_function = inv_function args,
                                       call_host = InvokeContract args, call_auth = auth\<rparr>
                              in if mode req = mode_sponsored \<and> \<not> allows pol c (wallet req)
                                 then Inl (ErrNotSponsorable (contract @ ''.'' @ inv_function args @
                                   '' is not a sponsored setup call for wallet '' @ wallet req))
                                 else Inr c))
           | _ \<Rightarrow> Inl (ErrInvalid (''transaction must have exactly one operation, has '' @ show_nat (length ops)))))"

definition validate ::
  "gasless_sdk \<Rightarrow> policy \<Rightarrow> string list \<Rightarrow> bool \<Rightarrow> request \<Rightarrow> sponsor_error + call"
where
  "validate k pol relayers forward_enabled req =
     (if \<not> request_id_ok (request_id req)
      then Inl (ErrInvalid ''request_id must be 8-64 characters of [A-Za-z0-9_-]'')
      else if \<not> is_contract_address k (wallet req) then Inl (ErrInvalid ''wallet must be a C-address'')
      else if mode req = mode_forward \<and> \<not> forward_enabled then Inl ErrForwardNotBuilt
      else if mode req \<noteq> mode_sponsored \<and> mode req \<noteq> mode_forward
      then Inl (ErrInvalid (''mode must be '' @ go_quote mode_sponsored @ '' or '' @ go_quote mode_forward))
      else if transaction req = [] \<or> int (length (transaction req)) > max_transaction_bytes
      then Inl (ErrInvalid (''transaction is required and must be at most '' @
        show_int max_transaction_bytes @ '' bytes''))
      else case decode_envelope k (transaction req) of
             Inl m \<Rightarrow> Inl (ErrInvalid (''transaction is not a base64 TransactionEnvelope: '' @ m))
           | Inr env \<Rightarrow> extract_call k pol relayers req env)"

text \<open>
  \<open>payloadHash\<close>: \<open>Prepare\<close> hashes only validated requests, whose four fields are ASCII, so
  \<open>json.Marshal\<close> never fails.
\<close>

definition request_json :: "request \<Rightarrow> string" where
  "request_json req =
     json_object [(''request_id'', request_id req), (''wallet'', wallet req), (''mode'', mode req),
       (''transaction'', transaction req)]"

definition payload_hash :: "request \<Rightarrow> string" where
  "payload_hash req = hex_encode (sha256 (request_json req))"

section \<open>Lemmas: what is accepted\<close>

lemma allows_iff:
  "allows pol c wlt \<longleftrightarrow>
    (\<exists>r \<in> set pol. rule_function r = call_function c \<and>
       (rule_contract r = call_contract c \<or> rule_contract r = wallet_contract \<and> call_contract c = wlt))"
  by (induction pol) auto

text \<open>The entry names an address of its own, never the transaction's source.\<close>

definition acts_for :: "gasless_sdk \<Rightarrow> auth_entry \<Rightarrow> string \<Rightarrow> bool" where
  "acts_for k a addr \<longleftrightarrow>
     (\<exists>x. (entry_creds a = CredAddress x \<or> entry_creds a = CredAddressV2 x) \<and>
        address_string k (cred_address x) = Inr addr)"

lemma auth_address_iff: "auth_address k (entry_creds a) = Inr addr \<longleftrightarrow> acts_for k a addr"
  by (auto simp: auth_address_def acts_for_def sc_address_string_def split: credentials.splits sum.splits)

lemma check_auth_None_iff:
  "check_auth k relayers i as = None \<longleftrightarrow>
    (\<forall>a \<in> set as. \<exists>addr. acts_for k a addr \<and> addr \<notin> set relayers)"
proof (induction as arbitrary: i)
  case (Cons a as)
  show ?case
  proof (cases "auth_address k (entry_creds a)")
    case (Inl m)
    then have "\<not> acts_for k a addr" for addr
      using auth_address_iff [of k a addr] by simp
    with Inl show ?thesis by simp
  next
    case (Inr addr)
    then have "acts_for k a addr' \<longleftrightarrow> addr' = addr" for addr'
      using auth_address_iff [of k a addr'] by auto
    with Inr Cons.IH show ?thesis by auto
  qed
qed simp

lemma extract_call_Inr:
  "extract_call k pol relayers req env = Inr c \<longleftrightarrow>
    (\<exists>args auth. env = V1Envelope [InvokeHostFunctionOp (InvokeContract args) auth] \<and>
       address_string k (inv_contract args) = Inr (call_contract c) \<and> is_contract_address k (call_contract c) \<and>
       check_auth k relayers 0 auth = None \<and>
       c = \<lparr>call_contract = call_contract c, call_function = inv_function args,
            call_host = InvokeContract args, call_auth = auth\<rparr> \<and>
       (mode req = mode_sponsored \<longrightarrow> allows pol c (wallet req)))"
  by (auto simp: extract_call_def sc_address_string_def Let_def
      split: request_envelope.splits list.splits request_op.splits host_function.splits sum.splits
        if_splits option.splits)

text \<open>
  C23: exactly the intended requests are paid for. \<open>Validate\<close> accepts a request if and only if its id
  and wallet are well formed, its mode is available, and its transaction decodes to a v1 envelope
  with exactly one operation, which invokes a contract, whose every authorization entry acts for
  an address of its own that is none of the service's accounts; and in sponsored mode the call
  is one of the policy's. The accepted call is the envelope's own.
\<close>

theorem validate_accepts_iff:
  "validate k pol relayers forward_enabled req = Inr c \<longleftrightarrow>
    request_id_ok (request_id req) \<and> is_contract_address k (wallet req) \<and>
    (mode req = mode_sponsored \<or> mode req = mode_forward \<and> forward_enabled) \<and>
    0 < length (transaction req) \<and> length (transaction req) \<le> 65536 \<and>
    (\<exists>args. decode_envelope k (transaction req) =
         Inr (V1Envelope [InvokeHostFunctionOp (InvokeContract args) (call_auth c)]) \<and>
       address_string k (inv_contract args) = Inr (call_contract c) \<and>
       is_contract_address k (call_contract c) \<and>
       call_function c = inv_function args \<and> call_host c = InvokeContract args) \<and>
    (\<forall>a \<in> set (call_auth c). \<exists>addr. acts_for k a addr \<and> addr \<notin> set relayers) \<and>
    (mode req = mode_sponsored \<longrightarrow>
       (\<exists>r \<in> set pol. rule_function r = call_function c \<and>
          (rule_contract r = call_contract c \<or>
           rule_contract r = wallet_contract \<and> call_contract c = wallet req)))"
proof -
  have m: "mode_sponsored \<noteq> mode_forward" by (simp add: mode_sponsored_def mode_forward_def)
  have "validate k pol relayers forward_enabled req = Inr c \<longleftrightarrow>
      request_id_ok (request_id req) \<and> is_contract_address k (wallet req) \<and>
      (mode req = mode_sponsored \<or> mode req = mode_forward \<and> forward_enabled) \<and>
      0 < length (transaction req) \<and> length (transaction req) \<le> 65536 \<and>
      (\<exists>env. decode_envelope k (transaction req) = Inr env \<and> extract_call k pol relayers req env = Inr c)"
    using m by (auto simp: validate_def max_transaction_bytes_def split: sum.splits)
  moreover have "(\<exists>env. decode_envelope k (transaction req) = Inr env \<and> extract_call k pol relayers req env = Inr c) \<longleftrightarrow>
      (\<exists>args. decode_envelope k (transaction req) =
         Inr (V1Envelope [InvokeHostFunctionOp (InvokeContract args) (call_auth c)]) \<and>
       address_string k (inv_contract args) = Inr (call_contract c) \<and>
       is_contract_address k (call_contract c) \<and>
       call_function c = inv_function args \<and> call_host c = InvokeContract args) \<and>
      check_auth k relayers 0 (call_auth c) = None \<and>
      (mode req = mode_sponsored \<longrightarrow> allows pol c (wallet req))"
    unfolding extract_call_Inr by (cases c) auto
  ultimately show ?thesis unfolding check_auth_None_iff allows_iff by blast
qed

section \<open>Lemmas: the policy text\<close>

fun join :: "char \<Rightarrow> string list \<Rightarrow> string" where
  "join c [] = []"
| "join c [s] = s"
| "join c (s # t # ss) = s @ c # join c (t # ss)"

lemma split_on_append: "c \<notin> set s \<Longrightarrow> split_on c (s @ c # t) = s # split_on c t"
  by (induction s) auto

lemma split_on_one: "c \<notin> set s \<Longrightarrow> split_on c s = [s]"
  by (induction s) auto

lemma split_on_join: "ss \<noteq> [] \<Longrightarrow> \<forall>s \<in> set ss. c \<notin> set s \<Longrightarrow> split_on c (join c ss) = ss"
  by (induction c ss rule: join.induct) (auto simp: split_on_append split_on_one)

text \<open>A rule as the configuration writes it.\<close>

definition print_rule :: "rule \<Rightarrow> string" where
  "print_rule r = rule_contract r @ CHR '':'' # rule_function r"

definition print_policy :: "policy \<Rightarrow> string" where
  "print_policy rs = join CHR '','' (map print_rule rs)"

definition printable_rule :: "gasless_sdk \<Rightarrow> rule \<Rightarrow> bool" where
  "printable_rule k r \<longleftrightarrow>
     (rule_contract r = wallet_contract \<or> is_contract_address k (rule_contract r)) \<and>
     rule_function r \<noteq> [] \<and> CHR '':'' \<notin> set (rule_contract r) \<and>
     CHR '','' \<notin> set (print_rule r) \<and> trim_space (print_rule r) = print_rule r"

lemma parse_rule_print: "printable_rule k r \<Longrightarrow> parse_rule k (print_rule r) = Inr r"
  by (auto simp: parse_rule_def printable_rule_def print_rule_def cut_append)

lemma parse_rules_print:
  "\<forall>r \<in> set rs. printable_rule k r \<Longrightarrow> parse_rules k (map print_rule rs) = Inr rs"
proof (induction rs)
  case (Cons r rs)
  then have "trim_space (print_rule r) = print_rule r" "print_rule r \<noteq> []"
    by (auto simp: printable_rule_def print_rule_def)
  with Cons show ?case by (simp add: parse_rule_print Let_def)
qed simp

text \<open>
  C31: the policy read from \<open>SPONSORED_CALLS\<close> is the one written there: a non-empty list of rules,
  each naming the wallet or a C-address and a function, printed as \<open>CONTRACT:function\<close> and joined
  by commas, is parsed back to exactly those rules, in order.
\<close>

theorem parse_policy_print:
  assumes "rs \<noteq> []" and "\<forall>r \<in> set rs. printable_rule k r"
  shows "parse_policy k (print_policy rs) = Inr rs"
proof -
  have "split_on CHR '','' (print_policy rs) = map print_rule rs"
    unfolding print_policy_def using assms by (intro split_on_join) (auto simp: printable_rule_def)
  with assms show ?thesis
    by (simp add: parse_policy_def parse_rules_print neq_Nil_conv split: list.splits)
qed

text \<open>Two bodies with one hash: the same body, or a SHA-256 collision.\<close>

lemma request_json_inject: "request_json a = request_json b \<longleftrightarrow> a = b"
proof
  assume "request_json a = request_json b"
  from json_object_inject [OF _ this [unfolded request_json_def]] show "a = b"
    by (cases a; cases b) simp
qed simp

lemma payload_hash_eq:
  "payload_hash a = payload_hash b \<Longrightarrow> a \<noteq> b \<Longrightarrow>
    request_json a \<noteq> request_json b \<and> sha256 (request_json a) = sha256 (request_json b)"
  unfolding payload_hash_def using hex_encode_inject request_json_inject by blast

section \<open>A concrete configuration\<close>

definition demo_args :: invoke_args where
  "demo_args = \<lparr>inv_contract = ContractAddress ''CWALLET'', inv_function = ''add_signer'', inv_args = []\<rparr>"

definition demo_auth :: auth_entry where
  "demo_auth =
     \<lparr>entry_creds = CredAddress \<lparr>cred_address = ContractAddress ''CWALLET'', cred_nonce = 1, cred_expiration = 9,
        cred_signature = ScvBytes ''sig''\<rparr>,
      entry_root = Invocation (ContractFn demo_args) []\<rparr>"

definition demo_gsdk :: gasless_sdk where
  "demo_gsdk =
     \<lparr>base_sdk = demo_codec, is_contract_address = (\<lambda>s. hd (s @ ''-'') = CHR ''C''),
      address_string = (\<lambda>a. case a of AccountAddress s \<Rightarrow> Inr s | ContractAddress s \<Rightarrow> Inr s | OtherAddress s \<Rightarrow> Inr s),
      account_address = (\<lambda>s. Inr (AccountAddress s)),
      decode_envelope = (\<lambda>b. if b = ''AAAA'' then Inr (V1Envelope [InvokeHostFunctionOp (InvokeContract demo_args) [demo_auth]])
         else Inl ''EOF''),
      decode_auth_entry = (\<lambda>b. Inl ''EOF''), auth_preimage = (\<lambda>net nonce ex inv. Inr net),
      decode_account_key = (\<lambda>s. Inr s), contract_address = (\<lambda>s. Inr (ContractAddress s)),
      account_ledger_key = (\<lambda>a. case a of AccountAddress s \<Rightarrow> Inr s | _ \<Rightarrow> Inl ''no''),
      marshal_ledger_key = Inr, balance_ledger_key = (\<lambda>a v. Inr ''balance''),
      decode_ledger_data = (\<lambda>b. Inr (AccountData 1000 7)), decode_scval = (\<lambda>b. Inr (ScvU32 0))\<rparr>"

definition demo_request :: request where
  "demo_request = \<lparr>request_id = ''req-0001'', wallet = ''CWALLET'', mode = ''sponsored'', transaction = ''AAAA''\<rparr>"

definition demo_policy :: policy where
  "demo_policy = [\<lparr>rule_contract = ''wallet'', rule_function = ''add_signer''\<rparr>]"

theorem validate_accepts_iff_witness:
  "\<exists>c. validate demo_gsdk demo_policy [''GFUNDER''] False demo_request = Inr c \<and>
     call_contract c = ''CWALLET'' \<and> call_auth c = [demo_auth] \<and>
     (\<exists>addr. acts_for demo_gsdk demo_auth addr \<and> addr \<noteq> ''GFUNDER'')"
proof -
  have "\<not> isl (validate demo_gsdk demo_policy [''GFUNDER''] False demo_request)" by code_simp
  then obtain c where c: "validate demo_gsdk demo_policy [''GFUNDER''] False demo_request = Inr c"
    by (cases "validate demo_gsdk demo_policy [''GFUNDER''] False demo_request") auto
  from c [unfolded validate_accepts_iff] obtain args where
    d: "decode_envelope demo_gsdk (transaction demo_request) =
        Inr (V1Envelope [InvokeHostFunctionOp (InvokeContract args) (call_auth c)])"
      "address_string demo_gsdk (inv_contract args) = Inr (call_contract c)"
    and auth: "\<forall>a \<in> set (call_auth c). \<exists>addr. acts_for demo_gsdk a addr \<and> addr \<notin> set [''GFUNDER'']"
    by blast
  have "args = demo_args" and a: "call_auth c = [demo_auth]"
    using d(1) by (simp_all add: demo_gsdk_def demo_request_def)
  then have "call_contract c = ''CWALLET''" using d(2) by (simp add: demo_gsdk_def demo_args_def)
  moreover have "\<exists>addr. acts_for demo_gsdk demo_auth addr \<and> addr \<noteq> ''GFUNDER''" using auth a by auto
  ultimately show ?thesis using c a by blast
qed

theorem parse_policy_print_witness: "parse_policy demo_gsdk ''wallet:add_signer'' = Inr demo_policy"
proof -
  have "printable_rule demo_gsdk \<lparr>rule_contract = ''wallet'', rule_function = ''add_signer''\<rparr>"
    by code_simp
  then show ?thesis
    using parse_policy_print [of demo_policy demo_gsdk]
    by (simp add: demo_policy_def print_policy_def print_rule_def)
qed

end
