(* ===== verification/Sponsor_Store.thy ===== *)
theory Sponsor_Store
  imports Sponsor_Request
begin

text \<open>
  \<open>internal/gasless/sponsor/store.go\<close> and the query of \<open>resolver.go\<close>: the table
  \<open>sponsored_transactions\<close>, which makes submissions idempotent and is the ledger the caps are
  counted from. Each statement is a function of \<open>NOW()\<close>; \<open>Reserve\<close> runs in one transaction under
  an advisory lock, so it is one statement. The lemmas give the contract over any history of
  statements: a record is created once and only moves towards a final status, and the caps hold.
\<close>

section \<open>Rows and records\<close>

datatype sponsor_status = Pending | Success | Failed | Unconfirmed | Rejected

definition final :: "sponsor_status \<Rightarrow> bool" where
  "final s \<longleftrightarrow> s = Success \<or> s = Failed \<or> s = Rejected"

record user_fee =
  uf_token :: string
  uf_symbol :: string
  uf_amount :: int

record sponsor_row =
  rq_id :: string
  rq_payload :: string
  rq_wallet :: string
  rq_mode :: string
  target_contract :: string
  target_function :: string
  rq_status :: sponsor_status
  rq_hash :: "string option"
  fee_reserved :: int
  fee_charged_stroops :: "int option"
  rq_error_code :: "string option"
  rq_error_message :: "string option"
  user_fee_token :: "string option"
  user_fee_symbol :: "string option"
  user_fee_amount :: "int option"
  rq_created :: instant
  rq_updated :: instant

text \<open>\<open>Record\<close>, what \<open>scanRecord\<close> reads from a row: \<open>COALESCE(x, '')\<close> for the text columns.\<close>

record sponsor_record =
  rec_id :: string
  rec_payload :: string
  rec_wallet :: string
  rec_mode :: string
  rec_status :: sponsor_status
  rec_hash :: string
  rec_fee_charged :: "int option"
  rec_error_code :: string
  rec_error_message :: string
  rec_user_fee :: "user_fee option"
  rec_created :: instant
  rec_updated :: instant

definition coalesce_text :: "string option \<Rightarrow> string" where
  "coalesce_text x = (case x of None \<Rightarrow> [] | Some s \<Rightarrow> s)"

definition nullif_empty :: "string \<Rightarrow> string option" where
  "nullif_empty s = (if s = [] then None else Some s)"

definition scan_record :: "sponsor_row \<Rightarrow> sponsor_record" where
  "scan_record r =
     \<lparr>rec_id = rq_id r, rec_payload = rq_payload r, rec_wallet = rq_wallet r, rec_mode = rq_mode r,
      rec_status = rq_status r, rec_hash = coalesce_text (rq_hash r),
      rec_fee_charged = fee_charged_stroops r, rec_error_code = coalesce_text (rq_error_code r),
      rec_error_message = coalesce_text (rq_error_message r),
      rec_user_fee =
        (case (user_fee_token r, user_fee_amount r) of
           (Some t, Some a) \<Rightarrow> Some \<lparr>uf_token = t, uf_symbol = coalesce_text (user_fee_symbol r), uf_amount = a\<rparr>
         | _ \<Rightarrow> None),
      rec_created = rq_created r, rec_updated = rq_updated r\<rparr>"

definition get_record_stmt :: "string \<Rightarrow> sponsor_row list \<Rightarrow> sponsor_record option" where
  "get_record_stmt i rows = map_option scan_record (select_one (\<lambda>r. rq_id r = i) rows)"

section \<open>Reserving\<close>

record limits =
  max_tx_per_wallet :: int
  max_stroops_per_wallet :: int
  max_stroops_per_day :: int
  max_forward_failures :: int
  forward_failure_window :: duration
  max_forward_in_flight :: int

record reservation =
  rsv_id :: string
  rsv_payload :: string
  rsv_wallet :: string
  rsv_mode :: string
  rsv_contract :: string
  rsv_function :: string
  rsv_max_fee :: int
  rsv_user_fee :: "user_fee option"

definition day :: duration where
  "day = 24 * 60 * minute"

text \<open>\<open>spendSQL\<close>: the charged fee once known, else the reservation. The sum is \<open>numeric\<close> in SQL.\<close>

definition row_spend :: "sponsor_row \<Rightarrow> int" where
  "row_spend r = (case fee_charged_stroops r of None \<Rightarrow> fee_reserved r | Some c \<Rightarrow> c)"

definition spend :: "(sponsor_row \<Rightarrow> bool) \<Rightarrow> sponsor_row list \<Rightarrow> int" where
  "spend p rows = sum_list (map row_spend (filter p rows))"

definition fits_int64 :: "int \<Rightarrow> bool" where
  "fits_int64 x \<longleftrightarrow> - (2 ^ 63) \<le> x \<and> x < 2 ^ 63"

definition wallet_rows :: "string \<Rightarrow> string \<Rightarrow> sponsor_row \<Rightarrow> bool" where
  "wallet_rows m w r \<longleftrightarrow> rq_wallet r = w \<and> rq_mode r = m \<and> rq_status r \<noteq> Rejected"

definition day_rows :: "instant \<Rightarrow> string \<Rightarrow> sponsor_row \<Rightarrow> bool" where
  "day_rows now m r \<longleftrightarrow> rq_mode r = m \<and> rq_status r \<noteq> Rejected \<and> now - day < rq_created r"

text \<open>\<open>checkCaps\<close>; a sum that does not fit the \<open>int64\<close> it is scanned into is an error.\<close>

definition check_caps :: "reservation \<Rightarrow> limits \<Rightarrow> instant \<Rightarrow> sponsor_row list \<Rightarrow> sponsor_error option" where
  "check_caps res lim now rows =
     (let mine = wallet_rows (rsv_mode res) (rsv_wallet res);
          count = int (length (filter mine rows));
          wallet_spend = spend mine rows;
          day_spend = spend (day_rows now (rsv_mode res)) rows
      in if \<not> fits_int64 wallet_spend then Some (OtherErr ''wallet usage: value out of range'')
         else if max_tx_per_wallet lim \<le> count \<or>
           max_stroops_per_wallet lim < int64 (wallet_spend + rsv_max_fee res) then Some ErrWalletCap
         else if \<not> fits_int64 day_spend then Some (OtherErr ''daily usage: value out of range'')
         else if max_stroops_per_day lim < int64 (day_spend + rsv_max_fee res) then Some ErrDailyBudget
         else None)"

definition forward_failures :: "instant \<Rightarrow> duration \<Rightarrow> string \<Rightarrow> sponsor_row \<Rightarrow> bool" where
  "forward_failures now window w r \<longleftrightarrow>
     wallet_rows mode_forward w r \<and> rq_status r = Failed \<and> now - window < rq_created r"

definition forward_in_flight :: "string \<Rightarrow> sponsor_row \<Rightarrow> bool" where
  "forward_in_flight w r \<longleftrightarrow>
     wallet_rows mode_forward w r \<and> (rq_status r = Pending \<or> rq_status r = Unconfirmed)"

definition check_forward_exposure ::
  "reservation \<Rightarrow> limits \<Rightarrow> instant \<Rightarrow> sponsor_row list \<Rightarrow> sponsor_error option"
where
  "check_forward_exposure res lim now rows =
     (if max_forward_failures lim \<le>
        int (length (filter (forward_failures now (forward_failure_window lim) (rsv_wallet res)) rows))
      then Some ErrForwardFailures
      else if max_forward_in_flight lim \<le> int (length (filter (forward_in_flight (rsv_wallet res)) rows))
      then Some ErrForwardInFlight
      else None)"

definition check_limits :: "reservation \<Rightarrow> limits \<Rightarrow> instant \<Rightarrow> sponsor_row list \<Rightarrow> sponsor_error option" where
  "check_limits res lim now rows =
     (if rsv_mode res = mode_sponsored then check_caps res lim now rows
      else if rsv_mode res = mode_forward then check_forward_exposure res lim now rows
      else None)"

definition new_sponsor_row :: "instant \<Rightarrow> reservation \<Rightarrow> sponsor_row" where
  "new_sponsor_row now res =
     \<lparr>rq_id = rsv_id res, rq_payload = rsv_payload res, rq_wallet = rsv_wallet res, rq_mode = rsv_mode res,
      target_contract = rsv_contract res, target_function = rsv_function res, rq_status = Pending,
      rq_hash = None, fee_reserved = rsv_max_fee res, fee_charged_stroops = None, rq_error_code = None,
      rq_error_message = None, user_fee_token = map_option uf_token (rsv_user_fee res),
      user_fee_symbol = map_option uf_symbol (rsv_user_fee res),
      user_fee_amount = map_option uf_amount (rsv_user_fee res), rq_created = now, rq_updated = now\<rparr>"

text \<open>\<open>Reserve\<close>: the record and whether it existed, or the error that rolls the transaction back.\<close>

definition reserve_stmt ::
  "reservation \<Rightarrow> limits \<Rightarrow> instant \<Rightarrow> sponsor_row list \<Rightarrow>
   (sponsor_error + sponsor_record \<times> bool) \<times> sponsor_row list"
where
  "reserve_stmt res lim now rows =
     (case get_record_stmt (rsv_id res) rows of
        Some prev \<Rightarrow>
          (if rec_payload prev \<noteq> rsv_payload res then Inl ErrConflict else Inr (prev, True), rows)
      | None \<Rightarrow>
          (case check_limits res lim now rows of
             Some err \<Rightarrow> (Inl err, rows)
           | None \<Rightarrow>
               (Inr (scan_record (new_sponsor_row now res), False), rows @ [new_sponsor_row now res])))"

section \<open>Recording\<close>

record outcome =
  out_status :: sponsor_status
  out_hash :: string
  out_fee :: "int option"
  out_error_code :: string
  out_error_message :: string

definition finish_row :: "instant \<Rightarrow> outcome \<Rightarrow> sponsor_row \<Rightarrow> sponsor_row" where
  "finish_row now oc r =
     r\<lparr>rq_status := out_status oc,
       rq_hash := (case nullif_empty (out_hash oc) of None \<Rightarrow> rq_hash r | Some h \<Rightarrow> Some h),
       fee_charged_stroops := (case out_fee oc of None \<Rightarrow> fee_charged_stroops r | Some c \<Rightarrow> Some c),
       rq_error_code := nullif_empty (out_error_code oc),
       rq_error_message := nullif_empty (out_error_message oc), rq_updated := now\<rparr>"

text \<open>The \<open>UPDATE ... RETURNING\<close> of \<open>Finish\<close>; \<open>None\<close> is \<open>pgx.ErrNoRows\<close>.\<close>

definition finish_stmt ::
  "string \<Rightarrow> outcome \<Rightarrow> instant \<Rightarrow> sponsor_row list \<Rightarrow> sponsor_record option \<times> sponsor_row list"
where
  "finish_stmt i oc now rows =
     (let rows' = snd (update_where (\<lambda>r. rq_id r = i \<and> \<not> final (rq_status r)) (finish_row now oc) rows)
      in (case select_one (\<lambda>r. rq_id r = i \<and> \<not> final (rq_status r)) rows of
            None \<Rightarrow> None
          | Some r \<Rightarrow> Some (scan_record (finish_row now oc r)),
          rows'))"

definition hash_row :: "instant \<Rightarrow> string \<Rightarrow> sponsor_row \<Rightarrow> sponsor_row" where
  "hash_row now h r = r\<lparr>rq_hash := Some h, rq_updated := now\<rparr>"

text \<open>\<open>SetHash\<close> does not look at \<open>RowsAffected\<close>.\<close>

definition set_hash_stmt ::
  "string \<Rightarrow> string \<Rightarrow> instant \<Rightarrow> sponsor_row list \<Rightarrow> unit \<times> sponsor_row list"
where
  "set_hash_stmt i h now rows =
     ((), snd (update_where (\<lambda>r. rq_id r = i \<and> rq_status r = Pending) (hash_row now h) rows))"

section \<open>Reading\<close>

definition forward_loss_stmt :: "duration \<Rightarrow> instant \<Rightarrow> sponsor_row list \<Rightarrow> int" where
  "forward_loss_stmt window now rows =
     spend (\<lambda>r. rq_mode r = mode_forward \<and> rq_status r = Failed \<and> now - window < rq_created r) rows"

record stale_record =
  stale_id :: string
  stale_hash :: string
  stale_updated :: instant

definition stale_stmt :: "duration \<Rightarrow> instant \<Rightarrow> sponsor_row list \<Rightarrow> stale_record list" where
  "stale_stmt older_than now rows =
     map (\<lambda>r. \<lparr>stale_id = rq_id r, stale_hash = coalesce_text (rq_hash r), stale_updated = rq_updated r\<rparr>)
       (take 100 (sort_key rq_updated
         (filter (\<lambda>r. (rq_status r = Pending \<or> rq_status r = Unconfirmed) \<and> rq_updated r < now - older_than) rows)))"

end
