(* ===== verification/Sponsor_Laws.thy ===== *)
theory Sponsor_Laws
  imports Sponsor_Store
begin

text \<open>
  The contract of \<open>sponsored_transactions\<close> over any history of its three writing statements, in
  any order and by any number of instances: \<open>sponsor_step\<close> is one statement, \<open>sponsor_run\<close> a
  history. Row updates are instances of the locale \<open>settling\<close>, from which both the life cycle of a
  record and the caps follow.
\<close>

section \<open>Histories\<close>

datatype sponsor_event =
    EvReserve reservation instant
  | EvFinish string outcome instant
  | EvSetHash string string instant

fun sponsor_step :: "limits \<Rightarrow> sponsor_event \<Rightarrow> sponsor_row list \<Rightarrow> sponsor_row list" where
  "sponsor_step lim (EvReserve res now) rows = snd (reserve_stmt res lim now rows)"
| "sponsor_step lim (EvFinish i oc now) rows = snd (finish_stmt i oc now rows)"
| "sponsor_step lim (EvSetHash i h now) rows = snd (set_hash_stmt i h now rows)"

fun sponsor_time :: "sponsor_event \<Rightarrow> instant" where
  "sponsor_time (EvReserve res now) = now"
| "sponsor_time (EvFinish i oc now) = now"
| "sponsor_time (EvSetHash i h now) = now"

definition sponsor_run :: "limits \<Rightarrow> sponsor_event list \<Rightarrow> sponsor_row list \<Rightarrow> sponsor_row list" where
  "sponsor_run lim evs rows = fold (sponsor_step lim) evs rows"

definition sponsor_row_of :: "sponsor_row list \<Rightarrow> string \<Rightarrow> sponsor_row option" where
  "sponsor_row_of rows i = select_one (\<lambda>r. rq_id r = i) rows"

text \<open>
  What the caps rely on: a reservation is non-negative and far from the 64-bit limit, and a
  charged fee comes with a final status and is within the row's reservation.
\<close>

definition charge_ok :: "outcome \<Rightarrow> sponsor_row \<Rightarrow> bool" where
  "charge_ok oc r \<longleftrightarrow>
     (case out_fee oc of None \<Rightarrow> True | Some c \<Rightarrow> final (out_status oc) \<and> 0 \<le> c \<and> c \<le> fee_reserved r)"

fun event_ok :: "sponsor_event \<Rightarrow> sponsor_row list \<Rightarrow> bool" where
  "event_ok (EvReserve res now) rows = (0 \<le> rsv_max_fee res \<and> rsv_max_fee res < 2 ^ 62)"
| "event_ok (EvFinish i oc now) rows =
     (case sponsor_row_of rows i of None \<Rightarrow> True | Some r \<Rightarrow> charge_ok oc r)"
| "event_ok (EvSetHash i h now) rows = True"

fun history_ok :: "limits \<Rightarrow> instant \<Rightarrow> sponsor_event list \<Rightarrow> sponsor_row list \<Rightarrow> bool" where
  "history_ok lim now [] rows = True"
| "history_ok lim now (ev # evs) rows =
     (now \<le> sponsor_time ev \<and> event_ok ev rows \<and>
      history_ok lim (sponsor_time ev) evs (sponsor_step lim ev rows))"

section \<open>Updates that settle\<close>

text \<open>The columns a reservation fixes for good.\<close>

definition same_request :: "sponsor_row \<Rightarrow> sponsor_row \<Rightarrow> bool" where
  "same_request r r' \<longleftrightarrow>
     rq_id r' = rq_id r \<and> rq_payload r' = rq_payload r \<and> rq_wallet r' = rq_wallet r \<and>
     rq_mode r' = rq_mode r \<and> fee_reserved r' = fee_reserved r \<and> rq_created r' = rq_created r \<and>
     user_fee_token r' = user_fee_token r \<and> user_fee_amount r' = user_fee_amount r"

definition advances :: "sponsor_row \<Rightarrow> sponsor_row \<Rightarrow> bool" where
  "advances r r' \<longleftrightarrow> same_request r r' \<and> (final (rq_status r) \<longrightarrow> r' = r)"

lemma advances_refl [simp]: "advances r r"
  by (simp add: advances_def same_request_def)

lemma advances_trans: "advances r s \<Longrightarrow> advances s t \<Longrightarrow> advances r t"
  by (auto simp: advances_def same_request_def)

definition row_sane :: "sponsor_row \<Rightarrow> bool" where
  "row_sane r \<longleftrightarrow> 0 \<le> row_spend r \<and> row_spend r \<le> fee_reserved r \<and>
     (fee_charged_stroops r = None \<or> final (rq_status r))"

section \<open>Counting\<close>

lemma count_map_le:
  assumes "\<And>r. p (f r) \<Longrightarrow> p r"
  shows "length (filter p (map f rows)) \<le> length (filter p rows)"
  using assms by (induction rows) (auto simp: le_SucI)

lemma spend_map_le:
  assumes "\<And>r. p (f r) \<Longrightarrow> p r"
    and "\<And>r. r \<in> set rows \<Longrightarrow> row_spend (f r) \<le> row_spend r \<and> 0 \<le> row_spend r"
  shows "spend p (map f rows) \<le> spend p rows"
  using assms(2)
proof (induction rows)
  case (Cons r rows)
  have "spend p (map f rows) \<le> spend p rows" using Cons by simp
  moreover have "row_spend (f r) \<le> row_spend r" "0 \<le> row_spend r" using Cons.prems by simp_all
  ultimately show ?case using assms(1) [of r] by (auto simp: spend_def)
qed (simp add: spend_def)

lemma spend_mono:
  assumes "\<And>r. p r \<Longrightarrow> q r" and "\<And>r. r \<in> set rows \<Longrightarrow> 0 \<le> row_spend r"
  shows "spend p rows \<le> spend q rows"
  using assms(2)
proof (induction rows)
  case (Cons r rows)
  then have "spend p rows \<le> spend q rows" "0 \<le> row_spend r" by simp_all
  then show ?case using assms(1) [of r] by (auto simp: spend_def)
qed (simp add: spend_def)

lemma spend_nonneg: "(\<And>r. r \<in> set rows \<Longrightarrow> 0 \<le> row_spend r) \<Longrightarrow> 0 \<le> spend p rows"
  unfolding spend_def by (rule sum_list_nonneg) auto

lemma spend_snoc: "spend p (rows @ [r]) = spend p rows + (if p r then row_spend r else 0)"
  by (simp add: spend_def)

lemma count_mono: "(\<And>r. p r \<Longrightarrow> q r) \<Longrightarrow> length (filter p rows) \<le> length (filter q rows)"
  by (induction rows) (auto simp: le_SucI)

lemma count_or: "length (filter (\<lambda>r. p r \<or> q r) rows) \<le> length (filter p rows) + length (filter q rows)"
  by (induction rows) auto

section \<open>The caps\<close>

text \<open>A forward of wallet \<open>w\<close> that may still fail, or has failed within the window ending at \<open>t\<close>.\<close>

definition exposed_forward :: "limits \<Rightarrow> instant \<Rightarrow> string \<Rightarrow> sponsor_row \<Rightarrow> bool" where
  "exposed_forward lim t w r \<longleftrightarrow>
     forward_in_flight w r \<or> forward_failures t (forward_failure_window lim) w r"

definition caps_hold :: "limits \<Rightarrow> instant \<Rightarrow> sponsor_row list \<Rightarrow> bool" where
  "caps_hold lim now rows \<longleftrightarrow>
     (\<forall>w. int (length (filter (wallet_rows mode_sponsored w) rows)) \<le> max_tx_per_wallet lim \<and>
        spend (wallet_rows mode_sponsored w) rows \<le> max_stroops_per_wallet lim \<and>
        int (length (filter (forward_in_flight w) rows)) \<le> max_forward_in_flight lim) \<and>
     (\<forall>t \<ge> now. spend (day_rows t mode_sponsored) rows \<le> max_stroops_per_day lim \<and>
        (\<forall>w. int (length (filter (exposed_forward lim t w) rows)) \<le>
           max_forward_failures lim + max_forward_in_flight lim - 1))"

definition caps_inv :: "limits \<Rightarrow> instant \<Rightarrow> sponsor_row list \<Rightarrow> bool" where
  "caps_inv lim now rows \<longleftrightarrow>
     distinct (map rq_id rows) \<and> (\<forall>r \<in> set rows. row_sane r) \<and> caps_hold lim now rows"

definition limits_ok :: "limits \<Rightarrow> bool" where
  "limits_ok lim \<longleftrightarrow>
     0 \<le> max_tx_per_wallet lim \<and> 0 \<le> max_stroops_per_wallet lim \<and> max_stroops_per_wallet lim < 2 ^ 62 \<and>
     0 \<le> max_stroops_per_day lim \<and> max_stroops_per_day lim < 2 ^ 62 \<and>
     1 \<le> max_forward_failures lim \<and> 0 \<le> max_forward_in_flight lim"

locale settling =
  fixes upd :: "sponsor_row \<Rightarrow> sponsor_row"
    and ok :: "sponsor_row \<Rightarrow> bool"
  assumes advance: "advances r (upd r)"
    and sane: "row_sane r \<Longrightarrow> ok r \<Longrightarrow> row_sane (upd r)"
begin

lemma counted: "wallet_rows m w (upd r) \<Longrightarrow> wallet_rows m w r"
  and in_flight: "forward_in_flight w (upd r) \<Longrightarrow> forward_in_flight w r"
  and in_day: "day_rows t m (upd r) \<Longrightarrow> day_rows t m r"
  and exposed: "forward_in_flight w (upd r) \<or> forward_failures t d w (upd r) \<Longrightarrow>
    forward_in_flight w r \<or> forward_failures t d w r"
  using advance [of r]
  by (auto simp: advances_def same_request_def wallet_rows_def forward_in_flight_def forward_failures_def
      day_rows_def final_def; cases "rq_status r"; auto)+

lemma spends_less: "row_sane r \<Longrightarrow> ok r \<Longrightarrow> row_spend (upd r) \<le> row_spend r"
proof (cases "final (rq_status r)")
  case True
  then show ?thesis using advance [of r] by (simp add: advances_def)
next
  case False
  assume "row_sane r" "ok r"
  then have "fee_charged_stroops r = None" "row_spend (upd r) \<le> fee_reserved (upd r)"
    using False sane [of r] by (auto simp: row_sane_def)
  then show ?thesis using advance [of r] by (simp add: advances_def same_request_def row_spend_def)
qed

lemma exposed_kept: "exposed_forward lim t w (upd r) \<Longrightarrow> exposed_forward lim t w r"
  unfolding exposed_forward_def by (rule exposed)

lemma ids: "map rq_id (map upd rows) = map rq_id rows"
  using advance by (simp add: advances_def same_request_def)

lemma caps_kept:
  assumes "caps_inv lim now rows" "now \<le> later" "\<forall>r \<in> set rows. ok r"
  shows "caps_inv lim later (map upd rows)"
proof -
  have sane_rows: "\<And>r. r \<in> set rows \<Longrightarrow> row_sane r" and ok_rows: "\<And>r. r \<in> set rows \<Longrightarrow> ok r"
    using assms by (auto simp: caps_inv_def)
  then have sp: "\<And>r. r \<in> set rows \<Longrightarrow> row_spend (upd r) \<le> row_spend r \<and> 0 \<le> row_spend r"
    using spends_less by (auto simp: row_sane_def)
  have c: "length (filter p (map upd rows)) \<le> length (filter p rows)" if "\<And>r. p (upd r) \<Longrightarrow> p r" for p
    using that by (rule count_map_le)
  have s: "spend p (map upd rows) \<le> spend p rows" if "\<And>r. p (upd r) \<Longrightarrow> p r" for p
    using that sp by (rule spend_map_le)
  have old: "int (length (filter (wallet_rows mode_sponsored w) rows)) \<le> max_tx_per_wallet lim"
      "spend (wallet_rows mode_sponsored w) rows \<le> max_stroops_per_wallet lim"
      "int (length (filter (forward_in_flight w) rows)) \<le> max_forward_in_flight lim"
      "later \<le> t \<Longrightarrow> spend (day_rows t mode_sponsored) rows \<le> max_stroops_per_day lim"
      "later \<le> t \<Longrightarrow> int (length (filter (exposed_forward lim t w) rows)) \<le>
         max_forward_failures lim + max_forward_in_flight lim - 1" for w t
    using assms(1,2) by (simp_all add: caps_inv_def caps_hold_def)
  have "caps_hold lim later (map upd rows)"
    unfolding caps_hold_def
  proof (intro conjI allI impI)
    fix w t
    show "int (length (filter (wallet_rows mode_sponsored w) (map upd rows))) \<le> max_tx_per_wallet lim"
      using c [of "wallet_rows mode_sponsored w", OF counted] old(1) [of w] by linarith
    show "spend (wallet_rows mode_sponsored w) (map upd rows) \<le> max_stroops_per_wallet lim"
      using s [of "wallet_rows mode_sponsored w", OF counted] old(2) [of w] by linarith
    show "int (length (filter (forward_in_flight w) (map upd rows))) \<le> max_forward_in_flight lim"
      using c [of "forward_in_flight w", OF in_flight] old(3) [of w] by linarith
    assume t: "later \<le> t"
    show "spend (day_rows t mode_sponsored) (map upd rows) \<le> max_stroops_per_day lim"
      using s [of "day_rows t mode_sponsored", OF in_day] old(4) [OF t] by linarith
    show "int (length (filter (exposed_forward lim t w) (map upd rows))) \<le>
        max_forward_failures lim + max_forward_in_flight lim - 1"
      using c [of "exposed_forward lim t w", OF exposed_kept] old(5) [OF t, of w] by linarith
  qed
  then show ?thesis
    using assms(1) sane_rows ok_rows sane unfolding caps_inv_def by (auto simp only: ids set_map)
qed

end

interpretation hs: settling
  "\<lambda>r. if rq_id r = i \<and> rq_status r = Pending then hash_row now h r else r" "\<lambda>r. True" for i h now
  by unfold_locales (auto simp: advances_def same_request_def hash_row_def final_def row_sane_def row_spend_def)

interpretation fi: settling
  "\<lambda>r. if rq_id r = i \<and> \<not> final (rq_status r) then finish_row now oc r else r"
  "\<lambda>r. rq_id r \<noteq> i \<or> charge_ok oc r" for i oc now
  by unfold_locales
    (auto simp: advances_def same_request_def finish_row_def row_sane_def row_spend_def charge_ok_def
      split: option.splits)

section \<open>Every statement keeps the caps\<close>

lemma set_hash_rows:
  "snd (set_hash_stmt i h now rows) = map (\<lambda>r. if rq_id r = i \<and> rq_status r = Pending then hash_row now h r else r) rows"
  by (simp add: set_hash_stmt_def update_where_def)

lemma finish_rows:
  "snd (finish_stmt i oc now rows) =
    map (\<lambda>r. if rq_id r = i \<and> \<not> final (rq_status r) then finish_row now oc r else r) rows"
  by (simp add: finish_stmt_def update_where_def Let_def)

text \<open>A reservation is refused, repeats a known request, or appends a row that passed its checks.\<close>

lemma reserve_cases:
  obtains (kept) "snd (reserve_stmt res lim now rows) = rows"
  | (new) "snd (reserve_stmt res lim now rows) = rows @ [new_sponsor_row now res]"
      "fst (reserve_stmt res lim now rows) = Inr (scan_record (new_sponsor_row now res), False)"
      "sponsor_row_of rows (rsv_id res) = None" "check_limits res lim now rows = None"
proof (cases "select_one (\<lambda>r. rq_id r = rsv_id res) rows")
  case None
  then show ?thesis
    using that by (cases "check_limits res lim now rows")
      (simp_all add: reserve_stmt_def get_record_stmt_def sponsor_row_of_def)
next
  case (Some r)
  then show ?thesis using that(1) by (simp add: reserve_stmt_def get_record_stmt_def)
qed

lemma row_of_None: "sponsor_row_of rows i = None \<longleftrightarrow> i \<notin> rq_id ` set rows"
  by (auto simp: sponsor_row_of_def select_one_def find_None_list_ex list_ex_iff)

lemma row_of_Some: "distinct (map rq_id rows) \<Longrightarrow> r \<in> set rows \<Longrightarrow> sponsor_row_of rows (rq_id r) = Some r"
  by (simp add: sponsor_row_of_def select_one_def distinct_find)

lemma row_of_in: "sponsor_row_of rows i = Some r \<Longrightarrow> r \<in> set rows \<and> rq_id r = i"
  by (auto simp: sponsor_row_of_def select_one_def dest: find_SomeD)

lemma day_rows_later: "now \<le> t \<Longrightarrow> day_rows t m r \<Longrightarrow> day_rows now m r"
  by (auto simp: day_rows_def)

lemma failures_later: "now \<le> t \<Longrightarrow> forward_failures t d w r \<Longrightarrow> forward_failures now d w r"
  by (auto simp: forward_failures_def)

lemma int64_sum: "0 \<le> a \<Longrightarrow> a < 2 ^ 62 \<Longrightarrow> 0 \<le> b \<Longrightarrow> b < 2 ^ 62 \<Longrightarrow> int64 (a + b) = a + b"
  by (rule int64_id) simp_all

text \<open>Below the caps nothing wraps, so a sponsored reservation that passes fits both.\<close>

lemma check_caps_None:
  assumes "caps_inv lim now rows" "now \<le> t" "limits_ok lim" "rsv_mode res = mode_sponsored"
    and "0 \<le> rsv_max_fee res" "rsv_max_fee res < 2 ^ 62" "check_caps res lim t rows = None"
  shows "int (length (filter (wallet_rows mode_sponsored (rsv_wallet res)) rows)) < max_tx_per_wallet lim"
    and "spend (wallet_rows mode_sponsored (rsv_wallet res)) rows + rsv_max_fee res \<le> max_stroops_per_wallet lim"
    and "spend (day_rows t mode_sponsored) rows + rsv_max_fee res \<le> max_stroops_per_day lim"
proof -
  have pos: "0 \<le> spend p rows" for p
    using assms(1) by (intro spend_nonneg) (auto simp: caps_inv_def row_sane_def)
  have "spend (wallet_rows mode_sponsored (rsv_wallet res)) rows < 2 ^ 62"
    "spend (day_rows t mode_sponsored) rows < 2 ^ 62"
    using assms(1,2,3) by (auto simp: caps_inv_def caps_hold_def limits_ok_def intro: le_less_trans)
  then have "int64 (spend (wallet_rows mode_sponsored (rsv_wallet res)) rows + rsv_max_fee res) =
      spend (wallet_rows mode_sponsored (rsv_wallet res)) rows + rsv_max_fee res"
    "int64 (spend (day_rows t mode_sponsored) rows + rsv_max_fee res) =
      spend (day_rows t mode_sponsored) rows + rsv_max_fee res"
    using pos assms(5,6) by (simp_all add: int64_sum)
  then show "int (length (filter (wallet_rows mode_sponsored (rsv_wallet res)) rows)) < max_tx_per_wallet lim"
    and "spend (wallet_rows mode_sponsored (rsv_wallet res)) rows + rsv_max_fee res \<le> max_stroops_per_wallet lim"
    and "spend (day_rows t mode_sponsored) rows + rsv_max_fee res \<le> max_stroops_per_day lim"
    using assms(4,7) by (simp_all add: check_caps_def Let_def split: if_splits)
qed

lemma check_exposure_None:
  assumes "check_forward_exposure res lim now rows = None"
  shows "int (length (filter (forward_in_flight (rsv_wallet res)) rows)) < max_forward_in_flight lim"
    and "now \<le> t \<Longrightarrow> int (length (filter (exposed_forward lim t (rsv_wallet res)) rows)) <
      max_forward_failures lim + max_forward_in_flight lim - 1"
proof -
  let ?f = "\<lambda>t. filter (forward_failures t (forward_failure_window lim) (rsv_wallet res)) rows"
  show fl: "int (length (filter (forward_in_flight (rsv_wallet res)) rows)) < max_forward_in_flight lim"
    using assms by (simp add: check_forward_exposure_def split: if_splits)
  assume "now \<le> t"
  then have "length (?f t) \<le> length (?f now)" by (intro count_mono) (rule failures_later)
  moreover have "int (length (?f now)) < max_forward_failures lim"
    using assms by (simp add: check_forward_exposure_def split: if_splits)
  moreover have "length (filter (exposed_forward lim t (rsv_wallet res)) rows) \<le>
      length (filter (forward_in_flight (rsv_wallet res)) rows) + length (?f t)"
    unfolding exposed_forward_def by (rule count_or)
  ultimately show "int (length (filter (exposed_forward lim t (rsv_wallet res)) rows)) <
      max_forward_failures lim + max_forward_in_flight lim - 1"
    using fl by linarith
qed

lemma new_row_counts [simp]:
  "wallet_rows m w (new_sponsor_row now res) \<longleftrightarrow> rsv_wallet res = w \<and> rsv_mode res = m"
  "forward_in_flight w (new_sponsor_row now res) \<longleftrightarrow> rsv_wallet res = w \<and> rsv_mode res = mode_forward"
  "\<not> forward_failures t d w (new_sponsor_row now res)"
  "day_rows t m (new_sponsor_row now res) \<Longrightarrow> rsv_mode res = m"
  "row_spend (new_sponsor_row now res) = rsv_max_fee res"
  "rq_id (new_sponsor_row now res) = rsv_id res"
  by (auto simp: new_sponsor_row_def wallet_rows_def forward_in_flight_def forward_failures_def day_rows_def
      row_spend_def)

lemma new_row_sane: "0 \<le> rsv_max_fee res \<Longrightarrow> row_sane (new_sponsor_row now res)"
  by (simp add: row_sane_def) (simp add: new_sponsor_row_def)

lemma modes_differ [simp]: "mode_forward \<noteq> mode_sponsored" "mode_sponsored \<noteq> mode_forward"
  by (simp_all add: mode_forward_def mode_sponsored_def)

lemma day_spend_later:
  assumes "\<forall>r \<in> set rows. row_sane r" "now \<le> t"
  shows "spend (day_rows t m) rows \<le> spend (day_rows now m) rows"
  using assms(1) by (intro spend_mono day_rows_later [OF assms(2)]) (auto simp: row_sane_def)

lemma reserve_caps:
  assumes inv: "caps_inv lim now rows" and later: "now \<le> t" and lim: "limits_ok lim"
    and fee: "0 \<le> rsv_max_fee res" "rsv_max_fee res < 2 ^ 62"
    and new: "check_limits res lim t rows = None"
  shows "caps_hold lim t (rows @ [new_sponsor_row t res])"
proof -
  let ?n = "new_sponsor_row t res" and ?w = "rsv_wallet res"
  have old: "int (length (filter (wallet_rows mode_sponsored w) rows)) \<le> max_tx_per_wallet lim"
      "spend (wallet_rows mode_sponsored w) rows \<le> max_stroops_per_wallet lim"
      "int (length (filter (forward_in_flight w) rows)) \<le> max_forward_in_flight lim"
      "t \<le> u \<Longrightarrow> spend (day_rows u mode_sponsored) rows \<le> max_stroops_per_day lim"
      "t \<le> u \<Longrightarrow> int (length (filter (exposed_forward lim u w) rows)) \<le>
         max_forward_failures lim + max_forward_in_flight lim - 1" for w u
    using inv later by (simp_all add: caps_inv_def caps_hold_def)
  have caps: "check_caps res lim t rows = None" if "rsv_mode res = mode_sponsored"
    using new that by (simp add: check_limits_def)
  have expo: "check_forward_exposure res lim t rows = None" if "rsv_mode res = mode_forward"
    using new that by (simp add: check_limits_def)
  show ?thesis
    unfolding caps_hold_def
  proof (intro conjI allI impI)
    fix w u
    show "int (length (filter (wallet_rows mode_sponsored w) (rows @ [?n]))) \<le> max_tx_per_wallet lim"
      using old(1) [of w] check_caps_None(1) [OF inv later lim _ fee caps] by auto
    show "spend (wallet_rows mode_sponsored w) (rows @ [?n]) \<le> max_stroops_per_wallet lim"
      using old(2) [of w] check_caps_None(2) [OF inv later lim _ fee caps] by (auto simp: spend_snoc)
    show "int (length (filter (forward_in_flight w) (rows @ [?n]))) \<le> max_forward_in_flight lim"
      using old(3) [of w] check_exposure_None(1) [OF expo] by auto
    assume u: "t \<le> u"
    have "spend (day_rows u mode_sponsored) rows \<le> spend (day_rows t mode_sponsored) rows"
      using inv u by (intro day_spend_later) (simp_all add: caps_inv_def)
    then show "spend (day_rows u mode_sponsored) (rows @ [?n]) \<le> max_stroops_per_day lim"
      using old(4) [OF u] check_caps_None(3) [OF inv later lim _ fee caps] new_row_counts(4)
      by (fastforce simp: spend_snoc)
    have "exposed_forward lim u w ?n \<longleftrightarrow> rsv_wallet res = w \<and> rsv_mode res = mode_forward"
      by (simp add: exposed_forward_def)
    then show "int (length (filter (exposed_forward lim u w) (rows @ [?n]))) \<le>
        max_forward_failures lim + max_forward_in_flight lim - 1"
      using old(5) [OF u, of w] check_exposure_None(2) [OF expo u] by auto
  qed
qed

lemma step_caps:
  assumes "caps_inv lim now rows" "now \<le> sponsor_time ev" "limits_ok lim" "event_ok ev rows"
  shows "caps_inv lim (sponsor_time ev) (sponsor_step lim ev rows)"
proof (cases ev)
  case (EvReserve res t)
  have same: "caps_inv lim t rows"
    using assms EvReserve by (auto simp: caps_inv_def caps_hold_def)
  show ?thesis
  proof (cases rule: reserve_cases [of res lim t rows])
    case kept
    then show ?thesis using same EvReserve by simp
  next
    case new
    have "caps_hold lim t (rows @ [new_sponsor_row t res])"
      using assms EvReserve new(4) by (intro reserve_caps) simp_all
    moreover have "rsv_id res \<notin> rq_id ` set rows" using new(3) by (simp add: row_of_None)
    ultimately show ?thesis
      using same assms(4) EvReserve new(1) new_row_sane [of res t] by (auto simp: caps_inv_def)
  qed
next
  case (EvFinish i oc t)
  have "rq_id r \<noteq> i \<or> charge_ok oc r" if "r \<in> set rows" for r
    using that assms(1,4) EvFinish row_of_Some [of rows r] by (auto simp: caps_inv_def)
  then show ?thesis
    using fi.caps_kept [OF assms(1)] assms(2) EvFinish by (simp add: finish_rows)
next
  case (EvSetHash i h t)
  then show ?thesis
    using hs.caps_kept [OF assms(1)] assms(2) by (simp add: set_hash_rows)
qed

lemma run_caps:
  "caps_inv lim now rows \<Longrightarrow> limits_ok lim \<Longrightarrow> history_ok lim now evs rows \<Longrightarrow>
    \<exists>t \<ge> now. t \<le> fold max (map sponsor_time evs) now \<and> caps_inv lim t (sponsor_run lim evs rows)"
proof (induction evs arbitrary: now rows)
  case Nil
  then show ?case by (auto simp: sponsor_run_def)
next
  case (Cons ev evs)
  then have le: "now \<le> sponsor_time ev" and "caps_inv lim (sponsor_time ev) (sponsor_step lim ev rows)"
    by (simp_all add: step_caps)
  from Cons.IH [OF this(2) Cons.prems(2)] Cons.prems(3) obtain t where t: "sponsor_time ev \<le> t"
    "t \<le> fold max (map sponsor_time evs) (sponsor_time ev)"
    "caps_inv lim t (sponsor_run lim evs (sponsor_step lim ev rows))"
    by auto
  with le show ?case by (intro exI [of _ t]) (simp add: sponsor_run_def max_absorb1)
qed

lemma empty_caps: "limits_ok lim \<Longrightarrow> caps_inv lim now []"
  by (simp add: caps_inv_def caps_hold_def limits_ok_def spend_def)

lemma caps_hold_later: "caps_hold lim now rows \<Longrightarrow> now \<le> t \<Longrightarrow> caps_hold lim t rows"
  by (auto simp: caps_hold_def)


section \<open>The life of a record\<close>

text \<open>After any statement, a request's row is the one it was, advanced.\<close>

lemma settled_row_of:
  assumes "\<And>r. advances r (f r)"
  shows "sponsor_row_of (map f rows) i = map_option f (sponsor_row_of rows i)"
  unfolding sponsor_row_of_def select_one_def
  by (rule find_map_cong) (use assms in \<open>simp add: advances_def same_request_def\<close>)

lemma step_advances:
  assumes "sponsor_row_of rows i = Some r"
  shows "\<exists>r'. sponsor_row_of (sponsor_step lim ev rows) i = Some r' \<and> advances r r'"
proof (cases ev)
  case (EvReserve res t)
  then show ?thesis
    using assms by (cases rule: reserve_cases [of res lim t rows])
      (auto simp: sponsor_row_of_def select_one_def find_append)
next
  case (EvFinish j oc t)
  then show ?thesis
    using assms fi.advance by (simp add: finish_rows settled_row_of [OF fi.advance])
next
  case (EvSetHash j h t)
  then show ?thesis
    using assms hs.advance by (simp add: set_hash_rows settled_row_of [OF hs.advance])
qed

lemma run_advances:
  "sponsor_row_of rows i = Some r \<Longrightarrow> \<exists>r'. sponsor_row_of (sponsor_run lim evs rows) i = Some r' \<and> advances r r'"
proof (induction evs arbitrary: rows r)
  case Nil
  then show ?case by (auto simp: sponsor_run_def)
next
  case (Cons ev evs)
  from step_advances [OF Cons.prems, of lim ev] obtain s where
    s: "sponsor_row_of (sponsor_step lim ev rows) i = Some s" "advances r s" by blast
  from Cons.IH [OF s(1)] s(2) show ?case
    by (auto simp: sponsor_run_def intro: advances_trans)
qed

text \<open>
  C24: a submission's record is never lost, changed or reopened. Through any history its id, body
  hash, wallet, mode, reservation and user fee stay what \<open>Reserve\<close> wrote, and once its status
  is success, failed or rejected the whole row stays as it is.
\<close>

theorem record_is_final:
  assumes "sponsor_row_of rows i = Some r"
  shows "\<exists>r'. sponsor_row_of (sponsor_run lim evs rows) i = Some r' \<and> same_request r r' \<and>
    (if final (rq_status r) then r' = r else True)"
  using run_advances [OF assms, of lim evs] by (auto simp: advances_def)

lemma reserve_known:
  assumes "sponsor_row_of rows (rsv_id res) = Some r"
  shows "reserve_stmt res lim now rows =
    (if rq_payload r = rsv_payload res then Inr (scan_record r, True) else Inl ErrConflict, rows)"
  using assms by (simp add: reserve_stmt_def get_record_stmt_def sponsor_row_of_def scan_record_def)

lemma reserve_Inr:
  assumes "fst (reserve_stmt res lim now rows) = Inr (rc, existing)"
  shows "\<exists>r. sponsor_row_of (snd (reserve_stmt res lim now rows)) (rsv_id res) = Some r \<and>
    rq_payload r = rsv_payload res \<and> scan_record r = rc"
proof (cases "sponsor_row_of rows (rsv_id res)")
  case (Some r)
  then show ?thesis using assms by (simp add: reserve_known split: if_splits)
next
  case None
  then have n: "get_record_stmt (rsv_id res) rows = None"
    by (simp add: get_record_stmt_def sponsor_row_of_def)
  show ?thesis
  proof (cases "check_limits res lim now rows")
    case None
    then show ?thesis
      using n assms \<open>sponsor_row_of rows (rsv_id res) = None\<close>
      by (simp add: reserve_stmt_def sponsor_row_of_def select_one_def find_append)
        (simp add: new_sponsor_row_def)
  qed (use n assms in \<open>simp add: reserve_stmt_def\<close>)
qed

text \<open>
  C25: a request id is reserved once. After \<open>Reserve\<close> has answered for an id, every later \<open>Reserve\<close> of
  that id, whatever happened in between and whatever the caps say by then, writes nothing: with
  the same body it answers with that record and \<open>existing\<close>, with another body it is refused as a
  conflict.
\<close>

theorem reserve_idempotent:
  assumes "fst (reserve_stmt res lim now rows) = Inr (rc, existing)" and "rsv_id again = rsv_id res"
  shows "let later = sponsor_run lim evs (snd (reserve_stmt res lim now rows)) in
    snd (reserve_stmt again lim' t later) = later \<and>
    (if rsv_payload again = rsv_payload res
     then \<exists>rc'. fst (reserve_stmt again lim' t later) = Inr (rc', True) \<and> rec_id rc' = rsv_id res \<and>
       rec_wallet rc' = rec_wallet rc \<and> rec_mode rc' = rec_mode rc
     else fst (reserve_stmt again lim' t later) = Inl ErrConflict)"
proof -
  from reserve_Inr [OF assms(1)] obtain r where
    r: "sponsor_row_of (snd (reserve_stmt res lim now rows)) (rsv_id res) = Some r"
      "rq_payload r = rsv_payload res" "scan_record r = rc"
    by blast
  from run_advances [OF r(1), of lim evs] obtain s where
    s: "sponsor_row_of (sponsor_run lim evs (snd (reserve_stmt res lim now rows))) (rsv_id again) = Some s"
      "same_request r s"
    using assms(2) by (auto simp: advances_def)
  have "rq_id r = rsv_id res" using row_of_in [OF r(1)] by simp
  then show ?thesis
    using s(2) r(2,3) by (auto simp: Let_def reserve_known [OF s(1)] same_request_def scan_record_def)
qed

section \<open>A saturated reservation\<close>

text \<open>
  The caps compare \<open>walletSpend+res.MaxFeeStroops\<close> in \<open>int64\<close>. At the value \<open>maxBid\<close> saturates to,
  the sum of any positive spend wraps, and the reservation passes both caps.
\<close>

lemma saturated_reservation_passes_caps:
  assumes "rsv_max_fee res = max_int64" "0 \<le> max_stroops_per_wallet lim" "0 \<le> max_stroops_per_day lim"
    and "int (length (filter (wallet_rows (rsv_mode res) (rsv_wallet res)) rows)) < max_tx_per_wallet lim"
    and "0 < spend (wallet_rows (rsv_mode res) (rsv_wallet res)) rows"
      "spend (wallet_rows (rsv_mode res) (rsv_wallet res)) rows < 2 ^ 62"
    and "0 < spend (day_rows now (rsv_mode res)) rows" "spend (day_rows now (rsv_mode res)) rows < 2 ^ 62"
  shows "check_caps res lim now rows = None"
proof -
  have wrap: "int64 (a + max_int64) < 0" if "0 < a" "a < 2 ^ 62" for a
  proof -
    have "(a + max_int64 + 2 ^ 63) mod 2 ^ 64 = (a - 1 + 2 ^ 64) mod 2 ^ 64" by (simp add: max_int64_def)
    also have "\<dots> = a - 1" using that by (simp only: mod_add_self2) (simp add: mod_pos_pos_trivial)
    finally show ?thesis using that unfolding int64_mod by simp
  qed
  let ?w = "spend (wallet_rows (rsv_mode res) (rsv_wallet res)) rows" and ?d = "spend (day_rows now (rsv_mode res)) rows"
  have "fits_int64 ?w" "fits_int64 ?d" using assms(5-8) by (simp_all add: fits_int64_def)
  moreover have "int64 (?w + rsv_max_fee res) < 0" "int64 (?d + rsv_max_fee res) < 0"
    unfolding assms(1) using assms(5-8) by (simp_all add: wrap)
  ultimately show ?thesis using assms(2-4) by (simp add: check_caps_def Let_def)
qed

section \<open>A concrete history\<close>

definition demo_limits :: limits where
  "demo_limits =
     \<lparr>max_tx_per_wallet = 2, max_stroops_per_wallet = 5000, max_stroops_per_day = 9000,
      max_forward_failures = 2, forward_failure_window = day, max_forward_in_flight = 1\<rparr>"

definition demo_reservation :: "string \<Rightarrow> string \<Rightarrow> int \<Rightarrow> reservation" where
  "demo_reservation i wlt fee =
     \<lparr>rsv_id = i, rsv_payload = ''body-'' @ i, rsv_wallet = wlt, rsv_mode = mode_sponsored, rsv_contract = ''C'',
      rsv_function = ''add_signer'', rsv_max_fee = fee, rsv_user_fee = None\<rparr>"

definition demo_outcome :: outcome where
  "demo_outcome = \<lparr>out_status = Success, out_hash = ''OUT'', out_fee = Some 900, out_error_code = [], out_error_message = []\<rparr>"

text \<open>Two reservations fit, the first is charged less than it reserved, and a third is over the cap.\<close>

definition demo_history :: "sponsor_event list" where
  "demo_history =
     [EvReserve (demo_reservation ''r1'' ''W'' 2000) 10, EvSetHash ''r1'' ''OUT'' 11, EvFinish ''r1'' demo_outcome 12,
      EvReserve (demo_reservation ''r2'' ''W'' 4000) 20, EvReserve (demo_reservation ''r3'' ''W'' 10) 30]"

lemma demo_history_ok: "limits_ok demo_limits" "history_ok demo_limits 0 demo_history []"
  by code_simp+


definition demo_table :: "sponsor_row list" where
  "demo_table = sponsor_run demo_limits (take 3 demo_history) []"

theorem record_is_final_witness:
  "\<exists>r r'. sponsor_row_of demo_table ''r1'' = Some r \<and> rq_status r = Success \<and>
     sponsor_row_of (sponsor_run demo_limits [EvFinish ''r1'' (demo_outcome\<lparr>out_status := Rejected\<rparr>) 50] demo_table) ''r1'' = Some r' \<and>
     r' = r"
proof -
  have "map_option rq_status (sponsor_row_of demo_table ''r1'') = Some Success" by code_simp
  then obtain r where r: "sponsor_row_of demo_table ''r1'' = Some r" "rq_status r = Success" by auto
  with record_is_final [OF r(1), of demo_limits "[EvFinish ''r1'' (demo_outcome\<lparr>out_status := Rejected\<rparr>) 50]"]
  show ?thesis by (auto simp: final_def)
qed

theorem reserve_idempotent_witness:
  "\<exists>rc. fst (reserve_stmt (demo_reservation ''r4'' ''V'' 100) demo_limits 60 demo_table) = Inr (rc, False) \<and>
     fst (reserve_stmt (demo_reservation ''r4'' ''V'' 100\<lparr>rsv_payload := ''other''\<rparr>) demo_limits 70
       (sponsor_run demo_limits [EvSetHash ''r4'' ''OUT4'' 65]
          (snd (reserve_stmt (demo_reservation ''r4'' ''V'' 100) demo_limits 60 demo_table)))) = Inl ErrConflict"
proof -
  have "map_sum (\<lambda>e. ()) snd (fst (reserve_stmt (demo_reservation ''r4'' ''V'' 100) demo_limits 60 demo_table)) = Inr False"
    by code_simp
  then obtain rc where rc: "fst (reserve_stmt (demo_reservation ''r4'' ''V'' 100) demo_limits 60 demo_table) = Inr (rc, False)"
    by (cases "fst (reserve_stmt (demo_reservation ''r4'' ''V'' 100) demo_limits 60 demo_table)") auto
  with reserve_idempotent [OF rc, of "demo_reservation ''r4'' ''V'' 100\<lparr>rsv_payload := ''other''\<rparr>" "[EvSetHash ''r4'' ''OUT4'' 65]"
      demo_limits 70]
  show ?thesis by (auto simp: demo_reservation_def Let_def)
qed

end
