(* ===== verification/Gasless_World.thy ===== *)
theory Gasless_World
  imports Channels Sponsor_Laws Complex_Main
begin

text \<open>
  The state of the gasless service and its calls to the outside. \<open>gasless_world\<close> extends the
  channel pool's world by the table of sponsored transactions, the price state of forward mode
  and the monitor's snapshot; \<open>accepted\<close> logs, per request, the transactions the network may have
  taken (a send answered with neither \<open>ERROR\<close> nor \<open>TRY_AGAIN_LATER\<close>). The methods of
  \<open>sponsor.Store\<close> are here with their error paths.
\<close>

section \<open>Floating point\<close>

text \<open>
  A \<open>float64\<close>. A finite one is the rational its shortest decimal form denotes; that form is
  injective and monotone in the value, so comparing the rationals is comparing the floats.
\<close>

datatype float64 = Finite rat | PlusInf | MinusInf | NaN

fun float_less :: "float64 \<Rightarrow> float64 \<Rightarrow> bool" where
  "float_less (Finite a) (Finite b) = (a < b)"
| "float_less (Finite a) PlusInf = True"
| "float_less MinusInf (Finite b) = True"
| "float_less MinusInf PlusInf = True"
| "float_less _ _ = False"

fun float_leq :: "float64 \<Rightarrow> float64 \<Rightarrow> bool" where
  "float_leq NaN _ = False"
| "float_leq _ NaN = False"
| "float_leq a b = (a = b \<or> float_less a b)"

definition float_zero :: float64 where
  "float_zero = Finite 0"

section \<open>The outside\<close>

text \<open>
  \<open>restore_preamble\<close> is whether the response has one; \<open>recorded_auth\<close> is \<open>None\<close> when it has no result
  or a result without authorizations; \<open>return_value\<close> likewise for the returned value.
\<close>

record sponsor_sim = sim_response +
  restore_preamble :: bool
  recorded_auth :: "string list option"
  return_value :: "string option"

datatype auth_mode = AuthModeDefault | AuthModeRecord | AuthModeEnforce

text \<open>The price service: no request could be made, the request failed, or it was answered.\<close>

datatype price_reply =
    PriceRequestErr string
  | PriceTransportErr string
  | PriceAnswer int "string + float64 option"

record ledger_account =
  acct_exists :: bool
  acct_balance :: int
  acct_seq :: int

text \<open>A raw entry of \<open>getLedgerEntries\<close>: its key and its encoded data.\<close>

record ledger_entry =
  entry_key :: string
  entry_data :: string

record gasless_runtime =
  rt :: runtime
  fee_stats :: "nat \<Rightarrow> string + int"
  latest_ledger :: "nat \<Rightarrow> string + 32 word"
  sponsor_simulate :: "nat \<Rightarrow> string \<Rightarrow> auth_mode \<Rightarrow> string + sponsor_sim"
  ledger_entries :: "nat \<Rightarrow> string list \<Rightarrow> string + ledger_entry list"
  network_passphrase_of :: "nat \<Rightarrow> string + string"
  price_feed :: "nat \<Rightarrow> price_reply"

section \<open>The world\<close>

record snapshot =
  snap_checked_at :: instant
  snap_funder :: int
  snap_executor :: int
  snap_sponsorship_ok :: bool
  snap_channels :: channel_stats
  snap_forwarder_fees :: "(string \<times> int) list"

record gasless_world = pool_world +
  sponsored :: "sponsor_row list"
  accepted :: "(string \<times> string) list"
  cache_price :: float64
  cache_fetched :: instant
  last_good :: float64
  last_good_at :: instant
  snap :: snapshot
  over_sweep :: "string list"
  loss_alerting :: bool

type_synonym 'a gasless = "(gasless_world, 'a) state"

section \<open>Store methods\<close>

definition sponsor_stmt ::
  "gasless_runtime \<Rightarrow> (instant \<Rightarrow> sponsor_row list \<Rightarrow> 'a \<times> sponsor_row list) \<Rightarrow> (string + 'a) gasless"
where
  "sponsor_stmt e stmt = db_stmt (rt e) sponsored sponsored_update stmt"

definition sponsor_query ::
  "gasless_runtime \<Rightarrow> (instant \<Rightarrow> sponsor_row list \<Rightarrow> 'a) \<Rightarrow> (string + 'a) gasless"
where
  "sponsor_query e q = sponsor_stmt e (\<lambda>now rows. (q now rows, rows))"

text \<open>\<open>Get\<close>: \<open>None\<close> is \<open>found=false\<close>.\<close>

definition get_record :: "gasless_runtime \<Rightarrow> string \<Rightarrow> (string + sponsor_record option) gasless" where
  "get_record e i = do {
     r \<leftarrow> sponsor_query e (\<lambda>_. get_record_stmt i);
     ret (wrap_err ''get sponsored transaction: '' r)
   }"

text \<open>\<open>Reserve\<close>: an error of the transaction, whichever statement of it failed, is the reply's text.\<close>

definition reserve ::
  "gasless_runtime \<Rightarrow> limits \<Rightarrow> reservation \<Rightarrow> (sponsor_error + sponsor_record \<times> bool) gasless"
where
  "reserve e lims res = do {
     r \<leftarrow> sponsor_stmt e (reserve_stmt res lims);
     ret (case r of Inl m \<Rightarrow> Inl (OtherErr m) | Inr answer \<Rightarrow> answer)
   }"

definition finish_record :: "gasless_runtime \<Rightarrow> string \<Rightarrow> outcome \<Rightarrow> (string + sponsor_record) gasless" where
  "finish_record e i oc = do {
     r \<leftarrow> sponsor_stmt e (finish_stmt i oc);
     (case r of
        Inl m \<Rightarrow> ret (Inl (''finish sponsored transaction: '' @ m))
      | Inr (Some rc) \<Rightarrow> ret (Inr rc)
      | Inr None \<Rightarrow> do {
          g \<leftarrow> get_record e i;
          ret (case g of
                 Inl m \<Rightarrow> Inl m
               | Inr None \<Rightarrow> Inl (''finish '' @ i @ '': no such request'')
               | Inr (Some rc) \<Rightarrow> Inr rc) })
   }"

definition set_hash :: "gasless_runtime \<Rightarrow> string \<Rightarrow> string \<Rightarrow> (string + unit) gasless" where
  "set_hash e i h = do {
     r \<leftarrow> sponsor_stmt e (set_hash_stmt i h);
     ret (wrap_err ''record hash: '' r)
   }"

definition forward_loss :: "gasless_runtime \<Rightarrow> duration \<Rightarrow> (string + int) gasless" where
  "forward_loss e window = do {
     r \<leftarrow> sponsor_query e (forward_loss_stmt window);
     ret (case r of
            Inl m \<Rightarrow> Inl (''forward loss: '' @ m)
          | Inr loss \<Rightarrow>
              if fits_int64 loss then Inr loss else Inl ''forward loss: value out of range'')
   }"

definition stale :: "gasless_runtime \<Rightarrow> duration \<Rightarrow> (string + stale_record list) gasless" where
  "stale e older_than = do {
     r \<leftarrow> sponsor_query e (stale_stmt older_than);
     ret (wrap_err ''list stale: '' r)
   }"

section \<open>Rules\<close>

lemma wp_sponsor_stmt:
  fixes w :: gasless_world
  assumes "\<And>a. a = fst (stmt (db_now (rt e) (tick w)) (sponsored w)) \<Longrightarrow>
      Q (Inr a) (w\<lparr>tick := Suc (tick w), sponsored := snd (stmt (db_now (rt e) (tick w)) (sponsored w))\<rparr>)"
    and "\<And>m. Q (Inl m) (w\<lparr>tick := Suc (tick w)\<rparr>)"
    and "\<And>m. Q (Inl m) (w\<lparr>tick := Suc (tick w), sponsored := snd (stmt (db_now (rt e) (tick w)) (sponsored w))\<rparr>)"
  shows "wp (sponsor_stmt e stmt) Q w"
  unfolding sponsor_stmt_def by (rule wp_db_stmt) (use assms in simp_all)

lemma wp_sponsor_query:
  fixes w :: gasless_world
  assumes "Q (Inr (q (db_now (rt e) (tick w)) (sponsored w))) (w\<lparr>tick := Suc (tick w)\<rparr>)"
    and "\<And>m. Q (Inl m) (w\<lparr>tick := Suc (tick w)\<rparr>)"
  shows "wp (sponsor_query e q) Q w"
  unfolding sponsor_query_def by (rule wp_sponsor_stmt) (use assms in simp_all)

end
