(* ===== verification/Chain.thy ===== *)
theory Chain
  imports Gasless_World
begin

text \<open>
  Package \<open>internal/gasless/chain\<close>: reads of account state and token balances in batches of ledger
  keys, and the role check by simulation. The lemmas show that the batches cover every key once
  and stay within the RPC's limit, and that what is returned for an address is what the ledger
  holds for it.
\<close>

section \<open>Addresses and values\<close>

definition sc_address_from_string :: "gasless_sdk \<Rightarrow> string \<Rightarrow> string + sc_address" where
  "sc_address_from_string k address =
     (if has_prefix ''G'' address
      then (case account_address k address of
              Inl m \<Rightarrow> Inl (''decode account address '' @ go_quote address @ '': '' @ m)
            | Inr a \<Rightarrow> Inr a)
      else if has_prefix ''C'' address
      then (case contract_address k address of
              Inl m \<Rightarrow> Inl (''decode contract address '' @ go_quote address @ '': '' @ m)
            | Inr a \<Rightarrow> Inr a)
      else Inl (''unsupported address '' @ go_quote address))"

definition sc_address_val :: "gasless_sdk \<Rightarrow> string \<Rightarrow> string + sc_val" where
  "sc_address_val k address = map_sum id ScvAddress (sc_address_from_string k address)"

definition invoke_contract :: "gasless_sdk \<Rightarrow> string \<Rightarrow> string \<Rightarrow> sc_val list \<Rightarrow> string + host_function" where
  "invoke_contract k contract fn args =
     (case contract_address k contract of
        Inl m \<Rightarrow> Inl (''decode contract address '' @ go_quote contract @ '': '' @ m)
      | Inr a \<Rightarrow> Inr (InvokeContract \<lparr>inv_contract = a, inv_function = fn, inv_args = args\<rparr>))"

section \<open>Accounts\<close>

definition max_ledger_keys_per_call :: nat where
  "max_ledger_keys_per_call = 200"

definition no_account :: ledger_account where
  "no_account = \<lparr>acct_exists = False, acct_balance = 0, acct_seq = 0\<rparr>"

text \<open>The loop over the addresses: each key with the address it is for.\<close>

fun account_keys :: "gasless_sdk \<Rightarrow> string list \<Rightarrow> string + (string \<times> string) list" where
  "account_keys k [] = Inr []"
| "account_keys k (addr # addrs) =
     (case account_address k addr of
        Inl m \<Rightarrow> Inl (''account '' @ go_quote addr @ '': '' @ m)
      | Inr aid \<Rightarrow>
     (case account_ledger_key k aid of
        Inl m \<Rightarrow> Inl (''ledger key for '' @ addr @ '': '' @ m)
      | Inr lk \<Rightarrow>
     (case marshal_ledger_key k lk of
        Inl m \<Rightarrow> Inl m
      | Inr key \<Rightarrow>
     (case account_keys k addrs of Inl m \<Rightarrow> Inl m | Inr rest \<Rightarrow> Inr ((key, addr) # rest)))))"

text \<open>The entries of one response; a key that was not asked for is skipped.\<close>

fun read_accounts ::
  "gasless_sdk \<Rightarrow> (string \<times> string) list \<Rightarrow> ledger_entry list \<Rightarrow> (string \<Rightarrow> ledger_account) \<Rightarrow>
   string + (string \<Rightarrow> ledger_account)"
where
  "read_accounts k keys [] out = Inr out"
| "read_accounts k keys (en # es) out =
     (case map_of keys (entry_key en) of
        None \<Rightarrow> read_accounts k keys es out
      | Some addr \<Rightarrow>
          (case decode_ledger_data k (entry_data en) of
             Inl m \<Rightarrow> Inl (''decode account '' @ addr @ '': '' @ m)
           | Inr (AccountData bal s) \<Rightarrow>
               read_accounts k keys es (out(addr := \<lparr>acct_exists = True, acct_balance = bal, acct_seq = s\<rparr>))
           | Inr _ \<Rightarrow> Inl (''ledger entry for '' @ addr @ '' is not an account'')))"

text \<open>\<open>for start := 0; start < len(keys); start += maxLedgerKeysPerCall\<close>.\<close>

function chunks :: "nat \<Rightarrow> 'a list \<Rightarrow> 'a list list" where
  "chunks n xs = (if xs = [] \<or> n = 0 then [] else take n xs # chunks n (drop n xs))"
  by pat_completeness auto
termination
  by (relation "measure (\<lambda>(n, xs). length xs)") auto

declare chunks.simps [simp del]

fun load_batches ::
  "gasless_runtime \<Rightarrow> gasless_sdk \<Rightarrow> (string \<times> string) list \<Rightarrow> string list list \<Rightarrow>
   (string \<Rightarrow> ledger_account) \<Rightarrow> (string + (string \<Rightarrow> ledger_account)) gasless"
where
  "load_batches e k keys [] out = ret (Inr out)"
| "load_batches e k keys (b # bs) out = do {
     r \<leftarrow> ask (\<lambda>n. ledger_entries e n b);
     (case r of
        Inl m \<Rightarrow> ret (Inl (''getLedgerEntries: '' @ m))
      | Inr es \<Rightarrow>
          (case read_accounts k keys es out of
             Inl m \<Rightarrow> ret (Inl m)
           | Inr out' \<Rightarrow> load_batches e k keys bs out'))
   }"

definition accounts ::
  "gasless_runtime \<Rightarrow> gasless_sdk \<Rightarrow> string list \<Rightarrow> (string + (string \<Rightarrow> ledger_account)) gasless"
where
  "accounts e k addrs =
     (case account_keys k addrs of
        Inl m \<Rightarrow> ret (Inl m)
      | Inr keys \<Rightarrow>
          load_batches e k keys (chunks max_ledger_keys_per_call (map fst keys)) (\<lambda>_. no_account))"

section \<open>Token balances\<close>

fun find_amount :: "(sc_val \<times> sc_val) list \<Rightarrow> string + int" where
  "find_amount [] = Inl ''balance value has no amount''"
| "find_amount ((key, v) # es) =
     (if key \<noteq> ScvSymbol ''amount'' then find_amount es
      else case v of
             ScvI128 hi lo \<Rightarrow>
               if hi \<noteq> 0 \<or> sint lo < 0 then Inl ''amount does not fit in int64'' else Inr (sint lo)
           | _ \<Rightarrow> Inl ''amount is not an i128'')"

definition sac_balance_amount :: "sc_val \<Rightarrow> string + int" where
  "sac_balance_amount v = (case v of ScvMap es \<Rightarrow> find_amount es | _ \<Rightarrow> Inl ''balance value is not a map'')"

fun balance_keys :: "gasless_sdk \<Rightarrow> sc_val \<Rightarrow> string list \<Rightarrow> string + (string \<times> string) list" where
  "balance_keys k bk [] = Inr []"
| "balance_keys k bk (token # tokens) =
     (case sc_address_from_string k token of
        Inl m \<Rightarrow> Inl (''token: '' @ m)
      | Inr a \<Rightarrow>
     (case balance_ledger_key k a bk of
        Inl m \<Rightarrow> Inl m
      | Inr key \<Rightarrow>
     (case balance_keys k bk tokens of Inl m \<Rightarrow> Inl m | Inr rest \<Rightarrow> Inr ((key, token) # rest))))"

fun read_balances ::
  "gasless_sdk \<Rightarrow> (string \<times> string) list \<Rightarrow> ledger_entry list \<Rightarrow> (string \<Rightarrow> int) \<Rightarrow> string + (string \<Rightarrow> int)"
where
  "read_balances k keys [] out = Inr out"
| "read_balances k keys (en # es) out =
     (case map_of keys (entry_key en) of
        None \<Rightarrow> read_balances k keys es out
      | Some token \<Rightarrow>
          (case decode_ledger_data k (entry_data en) of
             Inl m \<Rightarrow> Inl (''decode '' @ token @ '' balance: '' @ m)
           | Inr (ContractData v) \<Rightarrow>
               (case sac_balance_amount v of
                  Inl m \<Rightarrow> Inl (token @ '' balance: '' @ m)
                | Inr n \<Rightarrow> read_balances k keys es (out(token := n)))
           | Inr _ \<Rightarrow> Inl (token @ '' balance entry is not contract data'')))"

definition token_balances ::
  "gasless_runtime \<Rightarrow> gasless_sdk \<Rightarrow> string \<Rightarrow> string list \<Rightarrow> (string + (string \<Rightarrow> int)) gasless"
where
  "token_balances e k holder tokens =
     (case sc_address_val k holder of
        Inl m \<Rightarrow> ret (Inl (''holder: '' @ m))
      | Inr h \<Rightarrow>
     (case balance_keys k (ScvVec [ScvSymbol ''Balance'', h]) tokens of
        Inl m \<Rightarrow> ret (Inl m)
      | Inr keys \<Rightarrow> do {
          r \<leftarrow> ask (\<lambda>n. ledger_entries e n (map fst keys));
          ret (case r of
                 Inl m \<Rightarrow> Inl (''getLedgerEntries: '' @ m)
               | Inr es \<Rightarrow> read_balances k keys es (\<lambda>_. 0)) }))"

section \<open>The role check\<close>

definition chain_simulate ::
  "gasless_runtime \<Rightarrow> gasless_sdk \<Rightarrow> string \<Rightarrow> host_function \<Rightarrow> (string + sc_val) gasless"
where
  "chain_simulate e k source fn =
     (let env = \<lparr>env_source = source, env_seq = 0, env_ops = [InvokeHostFunction fn []], env_memo = None,
                 env_fee = word_of_int min_base_fee, env_max_time = 0, env_soroban = None\<rparr>
      in case new_transaction_error (base_sdk k) env of
           Some m \<Rightarrow> ret (Inl (''build simulation tx: '' @ m))
         | None \<Rightarrow>
         (case tx_base64 (base_sdk k) \<lparr>stx_env = env, stx_signers = []\<rparr> of
           Inl m \<Rightarrow> ret (Inl m)
         | Inr b64 \<Rightarrow> do {
             r \<leftarrow> ask (\<lambda>n. sponsor_simulate e n b64 AuthModeDefault);
             ret (case r of
                    Inl m \<Rightarrow> Inl m
                  | Inr resp \<Rightarrow>
                      if sim_error resp \<noteq> [] then Inl (sim_error resp)
                      else (case return_value resp of
                              None \<Rightarrow> Inl ''simulation returned no result''
                            | Some b \<Rightarrow>
                                (case decode_scval k b of
                                   Inl m \<Rightarrow> Inl (''decode return value: '' @ m)
                                 | Inr v \<Rightarrow> Inr v))) }))"

definition has_role ::
  "gasless_runtime \<Rightarrow> gasless_sdk \<Rightarrow> string \<Rightarrow> string \<Rightarrow> string \<Rightarrow> string \<Rightarrow> (string + bool) gasless"
where
  "has_role e k source contract account role =
     (case sc_address_val k account of
        Inl m \<Rightarrow> ret (Inl m)
      | Inr acct \<Rightarrow>
     (case invoke_contract k contract ''has_role'' [acct, ScvSymbol role] of
        Inl m \<Rightarrow> ret (Inl m)
      | Inr fn \<Rightarrow> do {
          r \<leftarrow> chain_simulate e k source fn;
          ret (case r of
                 Inl m \<Rightarrow> Inl (''simulate has_role: '' @ m)
               | Inr ScvVoid \<Rightarrow> Inr False
               | Inr (ScvU32 i) \<Rightarrow> Inr True
               | Inr v \<Rightarrow> Inl ''has_role returned unexpected type'') }))"

section \<open>Lemmas: batching\<close>

lemma concat_chunks: "0 < n \<Longrightarrow> concat (chunks n xs) = xs"
proof (induction n xs rule: chunks.induct)
  case (1 n xs)
  show ?case
  proof (cases "xs = []")
    case True
    then show ?thesis by (subst chunks.simps) simp
  next
    case False
    then have "concat (chunks n (drop n xs)) = drop n xs" using 1 by simp
    then show ?thesis using False 1(2) by (subst chunks.simps) simp
  qed
qed

lemma chunks_bound: "b \<in> set (chunks n xs) \<Longrightarrow> b \<noteq> [] \<and> length b \<le> n"
proof (induction n xs rule: chunks.induct)
  case (1 n xs)
  then show ?case by (subst (asm) chunks.simps) (auto split: if_splits)
qed

text \<open>
  What the RPC's answer to a batch says, over a ledger that maps keys to entries: exactly the
  entries of the asked keys, each once.
\<close>

definition answers_ledger :: "(string \<Rightarrow> string option) \<Rightarrow> gasless_runtime \<Rightarrow> bool" where
  "answers_ledger ledger e \<longleftrightarrow>
     (\<forall>n keys es. ledger_entries e n keys = Inr es \<longrightarrow>
        distinct (map entry_key es) \<and>
        (\<forall>key d. (\<exists>en \<in> set es. entry_key en = key \<and> entry_data en = d) \<longleftrightarrow> key \<in> set keys \<and> ledger key = Some d))"

text \<open>What the ledger holds for an account, by its key.\<close>

definition account_at :: "gasless_sdk \<Rightarrow> (string \<Rightarrow> string option) \<Rightarrow> string \<Rightarrow> ledger_account" where
  "account_at k ledger key =
     (case ledger key of
        None \<Rightarrow> no_account
      | Some d \<Rightarrow>
          (case decode_ledger_data k d of
             Inr (AccountData bal s) \<Rightarrow> \<lparr>acct_exists = True, acct_balance = bal, acct_seq = s\<rparr>
           | _ \<Rightarrow> no_account))"

definition key_of :: "gasless_sdk \<Rightarrow> string \<Rightarrow> string option" where
  "key_of k addr =
     (case account_keys k [addr] of Inr [(key, _)] \<Rightarrow> Some key | _ \<Rightarrow> None)"

lemma account_keys_Inr:
  "account_keys k addrs = Inr keys \<Longrightarrow>
    map snd keys = addrs \<and> (\<forall>(key, addr) \<in> set keys. key_of k addr = Some key)"
proof (induction addrs arbitrary: keys)
  case (Cons a addrs)
  then obtain aid lk key rest where "account_address k a = Inr aid" "account_ledger_key k aid = Inr lk"
    "marshal_ledger_key k lk = Inr key" "account_keys k addrs = Inr rest" "keys = (key, a) # rest"
    by (auto split: sum.splits)
  with Cons.IH [of rest] show ?case by (auto simp: key_of_def)
qed simp

lemma read_accounts_Inr:
  assumes "read_accounts k keys es out = Inr out'" and "distinct (map entry_key es)"
    and "\<And>a b. a \<in> dom (map_of keys) \<Longrightarrow> b \<in> dom (map_of keys) \<Longrightarrow> map_of keys a = map_of keys b \<Longrightarrow> a = b"
    and "map_of keys key = Some addr"
  shows "out' addr =
    (case map_of (map (\<lambda>en. (entry_key en, entry_data en)) es) key of
       None \<Rightarrow> out addr
     | Some d \<Rightarrow>
         (case decode_ledger_data k d of
            Inr (AccountData bal s) \<Rightarrow> \<lparr>acct_exists = True, acct_balance = bal, acct_seq = s\<rparr>
          | _ \<Rightarrow> no_account))"
  using assms(1,2)
proof (induction es arbitrary: out)
  case (Cons en es)
  show ?case
  proof (cases "map_of keys (entry_key en)")
    case None
    then have "entry_key en \<noteq> key" using assms(4) by auto
    with None Cons show ?thesis by simp
  next
    case (Some a)
    with Cons.prems obtain bal s where d: "decode_ledger_data k (entry_data en) = Inr (AccountData bal s)"
      by (auto split: sum.splits ledger_data.splits)
    let ?out = "out(a := \<lparr>acct_exists = True, acct_balance = bal, acct_seq = s\<rparr>)"
    have run: "read_accounts k keys es ?out = Inr out'" using Cons.prems Some d by simp
    show ?thesis
    proof (cases "entry_key en = key")
      case True
      then have "map_of (map (\<lambda>en. (entry_key en, entry_data en)) es) key = None"
        using Cons.prems(2) by (auto simp: map_of_eq_None_iff image_iff)
      with True Cons.IH [OF run] Cons.prems(2) Some assms(4) d show ?thesis by simp
    next
      case False
      then have "addr \<noteq> a" using assms(3) [of "entry_key en" key] Some assms(4) by (auto simp: dom_def)
      then have same: "?out addr = out addr" by simp
      show ?thesis using False Cons.IH [OF run, unfolded same] Cons.prems(2) by simp
    qed
  qed
qed simp

lemma read_batch:
  assumes "answers_ledger ledger e" "ledger_entries e n b = Inr es" "read_accounts k keys es out = Inr out'"
    and inj: "\<And>a b. a \<in> dom (map_of keys) \<Longrightarrow> b \<in> dom (map_of keys) \<Longrightarrow> map_of keys a = map_of keys b \<Longrightarrow> a = b"
    and key: "map_of keys key = Some addr" and out: "out addr \<in> {no_account, account_at k ledger key}"
  shows "out' addr = (if key \<in> set b then account_at k ledger key else out addr)"
proof -
  let ?m = "map_of (map (\<lambda>en. (entry_key en, entry_data en)) es)"
  have dist: "distinct (map entry_key es)"
    and mem: "(\<exists>en \<in> set es. entry_key en = key \<and> entry_data en = d) \<longleftrightarrow> key \<in> set b \<and> ledger key = Some d" for d
    using assms(1) [unfolded answers_ledger_def, rule_format, OF assms(2)] by simp_all
  have m: "?m key = Some d \<longleftrightarrow> key \<in> set b \<and> ledger key = Some d" for d
  proof -
    have "distinct (map fst (map (\<lambda>en. (entry_key en, entry_data en)) es))" using dist by (simp add: comp_def)
    from map_of_eq_Some_iff [OF this, of key d] mem [of d] show ?thesis by auto
  qed
  have res: "out' addr = (case ?m key of None \<Rightarrow> out addr | Some d \<Rightarrow>
      (case decode_ledger_data k d of
         Inr (AccountData bal s) \<Rightarrow> \<lparr>acct_exists = True, acct_balance = bal, acct_seq = s\<rparr>
       | _ \<Rightarrow> no_account))"
    by (rule read_accounts_Inr [OF assms(3) dist _ key]) (rule inj)
  show ?thesis
  proof (cases "?m key")
    case None
    then have "key \<notin> set b \<or> ledger key = None" using m by fastforce
    then have "key \<in> set b \<Longrightarrow> account_at k ledger key = no_account" by (auto simp: account_at_def)
    moreover have "out' addr = out addr" using res None by simp
    ultimately show ?thesis using out by (cases "key \<in> set b") simp_all
  next
    case (Some d)
    then have "key \<in> set b" "ledger key = Some d" using m by simp_all
    then show ?thesis using res Some by (simp add: account_at_def)
  qed
qed

lemma wp_load_batches:
  fixes w :: gasless_world
  assumes "answers_ledger ledger e"
    and inj: "\<And>a b. a \<in> dom (map_of keys) \<Longrightarrow> b \<in> dom (map_of keys) \<Longrightarrow> map_of keys a = map_of keys b \<Longrightarrow> a = b"
    and "\<And>key addr. map_of keys key = Some addr \<Longrightarrow> out addr \<in> {no_account, account_at k ledger key}"
  shows "wp (load_batches e k keys bs out) (\<lambda>r w'. \<forall>out'. r = Inr out' \<longrightarrow>
    (\<forall>key addr. map_of keys key = Some addr \<longrightarrow>
       out' addr = (if key \<in> set (concat bs) then account_at k ledger key else out addr))) w"
  using assms(3)
proof (induction bs arbitrary: out w)
  case (Cons b bs out w)
  let ?r = "ledger_entries e (tick w) b"
  show ?case
    unfolding load_batches.simps wp_bind wp_ask
  proof (rule wp_sumI, goal_cases)
    case (2 es)
    note es = this
    show ?case
    proof (rule wp_sumI, goal_cases)
      case (2 o1)
      note o1 = this
      have step: "o1 addr = (if key \<in> set b then account_at k ledger key else out addr)"
        if "map_of keys key = Some addr" for key addr
        using read_batch [OF assms(1) es o1 inj that Cons.prems [OF that]] by blast
      have "o1 addr \<in> {no_account, account_at k ledger key}" if "map_of keys key = Some addr" for key addr
        using step [OF that] Cons.prems [OF that] by auto
      then have "wp (load_batches e k keys bs o1) (\<lambda>r w'. \<forall>out'. r = Inr out' \<longrightarrow>
          (\<forall>key addr. map_of keys key = Some addr \<longrightarrow>
             out' addr = (if key \<in> set (concat bs) then account_at k ledger key else o1 addr)))
          (w\<lparr>tick := Suc (tick w)\<rparr>)"
        by (rule Cons.IH)
      then show ?case
      proof (rule wp_mono, intro allI impI)
        fix r :: "string + (string \<Rightarrow> ledger_account)" and w' :: gasless_world and out' key addr
        assume "\<forall>out'. r = Inr out' \<longrightarrow> (\<forall>key addr. map_of keys key = Some addr \<longrightarrow>
            out' addr = (if key \<in> set (concat bs) then account_at k ledger key else o1 addr))"
          and "r = Inr out'" and m: "map_of keys key = Some addr"
        then have "out' addr = (if key \<in> set (concat bs) then account_at k ledger key else o1 addr)" by blast
        then show "out' addr = (if key \<in> set (concat (b # bs)) then account_at k ledger key else out addr)"
          using step [OF m] by simp
      qed
    qed simp
  qed simp
qed simp

lemma max_keys_pos: "0 < max_ledger_keys_per_call"
  by (simp add: max_ledger_keys_per_call_def)

lemma accounts_entries:
  fixes w :: gasless_world
  assumes "answers_ledger ledger e" "inj_on (key_of k) (set addrs)"
    and "account_keys k addrs = Inr keys" and "run_state (accounts e k addrs) w = (Inr out, w')"
    and "addr \<in> set addrs"
  shows "out addr = account_at k ledger (the (key_of k addr))"
proof -
  note keys = account_keys_Inr [OF assms(3)]
  have addr_in: "addr \<in> set addrs \<and> key_of k addr = Some key" if "(key, addr) \<in> set keys" for key addr
    using keys that by force
  have inj: "a = b" if "a \<in> dom (map_of keys)" "b \<in> dom (map_of keys)" "map_of keys a = map_of keys b" for a b
  proof -
    from that obtain addr where "map_of keys a = Some addr" "map_of keys b = Some addr" by auto
    then have "(a, addr) \<in> set keys" "(b, addr) \<in> set keys" by (auto dest: map_of_SomeD)
    then show ?thesis using addr_in [of a addr] addr_in [of b addr] by simp
  qed
  obtain key where key: "(key, addr) \<in> set keys" using keys assms(5) by auto
  then obtain addr' where a': "map_of keys key = Some addr'" by (metis weak_map_of_SomeI)
  then have "addr' = addr"
    using addr_in key map_of_SomeD [OF a'] assms(2) by (metis inj_onD)
  moreover have "run_state (load_batches e k keys (chunks max_ledger_keys_per_call (map fst keys)) (\<lambda>_. no_account)) w
      = (Inr out, w')"
    using assms(3,4) by (simp add: accounts_def)
  from wp_run [OF this wp_load_batches [OF assms(1) inj, where k = k]] a'
  have "out addr' = (if key \<in> set (map fst keys) then account_at k ledger key else no_account)"
    unfolding concat_chunks [OF max_keys_pos] by blast
  moreover have "key \<in> set (map fst keys)" using key by force
  ultimately show ?thesis using addr_in [OF key] by simp
qed

text \<open>
  C30: accounts are read in full. Whatever number of addresses is asked for, \<open>Accounts\<close> asks for every
  ledger key, in calls of at most 200 keys; and when the RPC answers with the ledger's entries
  and different addresses have different keys, what it returns for each address is that
  account's state on the ledger, or \<open>Exists = false\<close> when the ledger has none.
\<close>

theorem accounts_read_ledger:
  fixes w :: gasless_world
  assumes "answers_ledger ledger e" "inj_on (key_of k) (set addrs)"
    and "account_keys k addrs = Inr keys" and "run_state (accounts e k addrs) w = (Inr out, w')"
  shows "concat (chunks max_ledger_keys_per_call (map fst keys)) = map fst keys \<and>
    (\<forall>b \<in> set (chunks max_ledger_keys_per_call (map fst keys)). length b \<le> 200) \<and>
    (\<forall>addr \<in> set addrs. out addr = account_at k ledger (the (key_of k addr)))"
  using concat_chunks [OF max_keys_pos] accounts_entries [OF assms]
  by (auto simp: max_ledger_keys_per_call_def dest!: chunks_bound)

end
