(* ===== verification/Gasless_Ops.thy ===== *)
theory Gasless_Ops
  imports Chain "HOL-Library.AList"
begin

text \<open>
  What runs around the submitter: channel keys (\<open>internal/gasless/keys/derive.go\<close>), the start-up
  checks (\<open>startup/preflight.go\<close>) and the balance monitor (\<open>balance/monitor.go\<close>), with what each of them
  lets through.
\<close>

section \<open>Channel keys\<close>

record channel_key =
  ck_index :: int
  ck_keypair :: keypair

definition ck_address :: "channel_key \<Rightarrow> string" where
  "ck_address c = kp_address (ck_keypair c)"

definition min_seed_bytes :: nat where
  "min_seed_bytes = 16"

text \<open>
  \<open>derive\<close> stands for \<open>derivation.DeriveForPath\<close> at the path of an index, \<open>from_raw\<close> for
  \<open>keypair.FromRawSeed\<close>.
\<close>

definition derive_channel ::
  "(int \<Rightarrow> string \<Rightarrow> string + string) \<Rightarrow> (string \<Rightarrow> string + keypair) \<Rightarrow> string \<Rightarrow> int \<Rightarrow> string + channel_key"
where
  "derive_channel derive from_raw seed index =
     (if length seed < min_seed_bytes
      then Inl (''channel seed must be at least '' @ show_nat min_seed_bytes @ '' bytes, got '' @ show_nat (length seed))
      else if index < 0 then Inl ''channel index must not be negative''
      else case derive index seed of
        Inl m \<Rightarrow> Inl (''derive channel '' @ show_int index @ '': '' @ m)
      | Inr raw \<Rightarrow>
          (case from_raw raw of
             Inl m \<Rightarrow> Inl (''channel '' @ show_int index @ '' keypair: '' @ m)
           | Inr kp \<Rightarrow> Inr \<lparr>ck_index = index, ck_keypair = kp\<rparr>))"

fun derive_from ::
  "(int \<Rightarrow> string + channel_key) \<Rightarrow> int \<Rightarrow> nat \<Rightarrow> string + channel_key list"
where
  "derive_from one i 0 = Inr []"
| "derive_from one i (Suc n) =
     (case one i of
        Inl m \<Rightarrow> Inl m
      | Inr ch \<Rightarrow> (case derive_from one (i + 1) n of Inl m \<Rightarrow> Inl m | Inr chs \<Rightarrow> Inr (ch # chs)))"

definition derive_channels ::
  "(int \<Rightarrow> string \<Rightarrow> string + string) \<Rightarrow> (string \<Rightarrow> string + keypair) \<Rightarrow> string \<Rightarrow> nat \<Rightarrow> string + channel_key list"
where
  "derive_channels derive from_raw seed count = derive_from (derive_channel derive from_raw seed) 0 count"

section \<open>Preflight\<close>

record preflight_check =
  pf_passphrase :: string
  pf_forwarder :: string
  pf_executor :: string
  pf_funder :: string

datatype preflight_error = ErrMisconfigured string | PreflightErr string

definition executor_role :: string where
  "executor_role = ''executor''"

text \<open>The loop over the map of the two accounts, whose order Go leaves open: \<open>order\<close> is the one taken.\<close>

fun missing_account :: "(string \<Rightarrow> ledger_account) \<Rightarrow> (string \<times> string) list \<Rightarrow> preflight_error option" where
  "missing_account accts [] = None"
| "missing_account accts ((name, addr) # rest) =
     (if \<not> acct_exists (accts addr)
      then Some (ErrMisconfigured (name @ '' account '' @ addr @ '' does not exist on the network (fund it first)''))
      else missing_account accts rest)"

definition named_accounts :: "preflight_check \<Rightarrow> bool \<Rightarrow> (string \<times> string) list" where
  "named_accounts c order =
     (if order then [(''executor'', pf_executor c), (''funder'', pf_funder c)]
      else [(''funder'', pf_funder c), (''executor'', pf_executor c)])"

definition preflight_once ::
  "gasless_runtime \<Rightarrow> gasless_sdk \<Rightarrow> preflight_check \<Rightarrow> bool \<Rightarrow> preflight_error option gasless"
where
  "preflight_once e k c order = do {
     net \<leftarrow> ask (network_passphrase_of e);
     (case net of
        Inl m \<Rightarrow> ret (Some (PreflightErr (''getNetwork: '' @ m)))
      | Inr pass \<Rightarrow>
          if pass \<noteq> pf_passphrase c
          then ret (Some (ErrMisconfigured (''RPC_URL serves '' @ pass @ '' but NETWORK expects '' @ pf_passphrase c)))
          else do {
            r \<leftarrow> accounts e k [pf_executor c, pf_funder c];
            (case r of
               Inl m \<Rightarrow> ret (Some (PreflightErr m))
             | Inr accts \<Rightarrow>
                 (case missing_account accts (named_accounts c order) of
                    Some err \<Rightarrow> ret (Some err)
                  | None \<Rightarrow> do {
                      h \<leftarrow> has_role e k (pf_funder c) (pf_forwarder c) (pf_executor c) executor_role;
                      ret (case h of
                             Inl m \<Rightarrow> Some (PreflightErr m)
                           | Inr True \<Rightarrow> None
                           | Inr False \<Rightarrow> Some (ErrMisconfigured (pf_executor c @ '' does not hold the '' @ executor_role @
                               '' role on FeeForwarder '' @ pf_forwarder c @
                               ''; the contract admin must grant_role it''))) })) })
   }"

definition misconfigured :: "preflight_error option \<Rightarrow> bool" where
  "misconfigured r \<longleftrightarrow> (case r of Some (ErrMisconfigured m) \<Rightarrow> True | _ \<Rightarrow> False)"

text \<open>The back-off before attempt \<open>n + 2\<close>: a second, then doubling up to fifteen.\<close>

fun backoff :: "nat \<Rightarrow> duration" where
  "backoff 0 = second"
| "backoff (Suc n) = min (backoff n * 2) (15 * second)"

lemma backoff_bounds: "second \<le> backoff n \<and> backoff n \<le> 15 * second"
  by (induction n) (auto simp: second_def millisecond_def)

lemma backoff_pos: "0 < backoff n"
  using backoff_bounds [of n] by (simp add: second_def millisecond_def)

text \<open>
  \<open>Preflight\<close>: a back-off of at least a second passes between two attempts, so the clock reading
  after it is at least that much later and the deadline ends the loop.
\<close>

function preflight_loop ::
  "gasless_runtime \<Rightarrow> gasless_sdk \<Rightarrow> preflight_check \<Rightarrow> (nat \<Rightarrow> bool) \<Rightarrow> instant \<Rightarrow> instant \<Rightarrow> nat \<Rightarrow> gasless_world \<Rightarrow>
   preflight_error option \<times> gasless_world"
where
  "preflight_loop e k c order deadline earliest tries w =
     (case run_state (preflight_once e k c (order (tick w))) w of (r, w1) \<Rightarrow>
        if r = None \<or> misconfigured r then (r, w1)
        else
          let now = max (clock (rt e) (tick w1)) earliest; w2 = w1\<lparr>tick := Suc (tick w1)\<rparr>
          in if deadline < now then (r, w2)
             else if ctx_done (rt e) (tick w2)
             then (Some (PreflightErr (ctx_err (rt e) (tick w2))), w2\<lparr>tick := Suc (tick w2)\<rparr>)
             else preflight_loop e k c order deadline (now + backoff tries) (Suc tries) (w2\<lparr>tick := Suc (tick w2)\<rparr>))"
  by pat_completeness auto
termination
proof (relation "measure (\<lambda>(e, k, c, order, deadline, earliest, tries, w). nat (deadline - earliest + 1))", goal_cases)
  case (2 e k c order deadline earliest tries w x y now w2)
  then have "earliest \<le> now" "now \<le> deadline" by (simp, simp only: not_less)
  then show ?case using backoff_pos [of tries] by simp
qed simp

declare preflight_loop.simps [simp del]

definition preflight ::
  "gasless_runtime \<Rightarrow> gasless_sdk \<Rightarrow> preflight_check \<Rightarrow> (nat \<Rightarrow> bool) \<Rightarrow> duration \<Rightarrow> preflight_error option gasless"
where
  "preflight e k c order retry_for = do {
     start \<leftarrow> ask (clock (rt e));
     State (\<lambda>w. preflight_loop e k c order (start + retry_for) start 0 w)
   }"

section \<open>The monitor\<close>

text \<open>The pool's two methods the monitor calls.\<close>

definition record_balance :: "gasless_runtime \<Rightarrow> int \<Rightarrow> int \<Rightarrow> int \<Rightarrow> (string + unit) gasless" where
  "record_balance e idx bal minimum = do {
     r \<leftarrow> db_stmt (rt e) channels channels_update (record_balance_stmt idx bal minimum);
     ret (wrap_err (''record channel '' @ show_int idx @ '' balance: '') r)
   }"

definition stats :: "gasless_runtime \<Rightarrow> (string + channel_stats) gasless" where
  "stats e = do {
     r \<leftarrow> db_stmt (rt e) channels channels_update (\<lambda>now db. (stats_stmt now db, db));
     ret (wrap_err ''channel stats: '' r)
   }"

record monitor_config =
  mon_executor :: string
  mon_funder :: string
  mon_channels :: "channel_key list"
  funder_min :: int
  channel_min :: int
  mon_forwarder :: string
  mon_fee_tokens :: "(string \<times> string) list"
  sweep_alert_units :: int

text \<open>
  \<open>checkForwarder\<close>: the list of fee tokens is the map in the order it is iterated; \<open>over_sweep\<close> holds the
  symbols over the alert.
\<close>

fun sweep_alerts :: "int \<Rightarrow> (string \<Rightarrow> int) \<Rightarrow> (string \<times> string) list \<Rightarrow> string list \<Rightarrow> string list" where
  "sweep_alerts limit bal [] over = over"
| "sweep_alerts limit bal ((contract, symbol) # ts) over =
     sweep_alerts limit bal ts
       (if limit > 0 \<and> bal contract > limit then List.insert symbol over else removeAll symbol over)"

definition check_forwarder ::
  "gasless_runtime \<Rightarrow> gasless_sdk \<Rightarrow> monitor_config \<Rightarrow> (string \<times> int) list gasless"
where
  "check_forwarder e k mc =
     (if mon_forwarder mc = [] \<or> mon_fee_tokens mc = [] then ret []
      else do {
        r \<leftarrow> token_balances e k (mon_forwarder mc) (map fst (mon_fee_tokens mc));
        (case r of
           Inl m \<Rightarrow> gets (\<lambda>w. snap_forwarder_fees (snap w))
         | Inr bal \<Rightarrow> do {
             modify (\<lambda>w. w\<lparr>over_sweep := sweep_alerts (sweep_alert_units mc) bal (mon_fee_tokens mc) (over_sweep w)\<rparr>);
             ret (fold (\<lambda>(contract, symbol) out. AList.update symbol (bal contract) out) (mon_fee_tokens mc) []) }) })"

fun record_balances ::
  "gasless_runtime \<Rightarrow> (string \<Rightarrow> ledger_account) \<Rightarrow> int \<Rightarrow> channel_key list \<Rightarrow> unit gasless"
where
  "record_balances e accts minimum [] = ret ()"
| "record_balances e accts minimum (ch # chs) = do {
     _ \<leftarrow> record_balance e (ck_index ch)
            (if acct_exists (accts (ck_address ch)) then acct_balance (accts (ck_address ch)) else -1) minimum;
     record_balances e accts minimum chs
   }"

definition no_stats :: channel_stats where
  "no_stats = \<lparr>stats_active = 0, stats_leased = 0, stats_disabled = 0, stats_retired = 0\<rparr>"

text \<open>The zero \<open>Snapshot\<close> a monitor starts with: sponsorship is refused until the first check.\<close>

definition no_snapshot :: snapshot where
  "no_snapshot =
     \<lparr>snap_checked_at = zero_time, snap_funder = 0, snap_executor = 0, snap_sponsorship_ok = False,
      snap_channels = no_stats, snap_forwarder_fees = []\<rparr>"

definition monitor_check :: "gasless_runtime \<Rightarrow> gasless_sdk \<Rightarrow> monitor_config \<Rightarrow> unit gasless" where
  "monitor_check e k mc = do {
     r \<leftarrow> accounts e k ([mon_funder mc, mon_executor mc] @ map ck_address (mon_channels mc));
     (case r of
        Inl m \<Rightarrow> ret ()
      | Inr accts \<Rightarrow> do {
          record_balances e accts (channel_min mc) (mon_channels mc);
          st \<leftarrow> stats e;
          now \<leftarrow> ask (clock (rt e));
          fees \<leftarrow> check_forwarder e k mc;
          modify (\<lambda>w. w\<lparr>snap := \<lparr>snap_checked_at = now,
            snap_funder = acct_balance (accts (mon_funder mc)),
            snap_executor = acct_balance (accts (mon_executor mc)),
            snap_sponsorship_ok = acct_balance (accts (mon_funder mc)) \<ge> funder_min mc,
            snap_channels = (case st of Inl m \<Rightarrow> no_stats | Inr s \<Rightarrow> s),
            snap_forwarder_fees = fees\<rparr>\<rparr>) })
   }"

text \<open>The service status of \<open>api.go\<close>.\<close>

definition service_status :: "snapshot \<Rightarrow> string" where
  "service_status s = (if \<not> snap_sponsorship_ok s \<or> stats_active (snap_channels s) = 0 then ''degraded'' else ''ok'')"

section \<open>Lemmas\<close>

lemma derive_from_cases:
  "derive_from one i n = Inr chs \<longleftrightarrow>
     length chs = n \<and> (\<forall>j < n. one (i + int j) = Inr (chs ! j))"
proof (induction n arbitrary: i chs)
  case (Suc n)
  show ?case
  proof
    assume l: "derive_from one i (Suc n) = Inr chs"
    then obtain ch cs where c: "one i = Inr ch" "derive_from one (i + 1) n = Inr cs" "chs = ch # cs"
      by (auto split: sum.splits)
    then show "length chs = Suc n \<and> (\<forall>j < Suc n. one (i + int j) = Inr (chs ! j))"
      using Suc by (auto simp: less_Suc_eq_0_disj algebra_simps)
  next
    assume r: "length chs = Suc n \<and> (\<forall>j < Suc n. one (i + int j) = Inr (chs ! j))"
    then obtain ch cs where c: "chs = ch # cs" "length cs = n" by (cases chs) auto
    have "one i = Inr ch" using r c by force
    moreover have "one (i + 1 + int j) = Inr (cs ! j)" if "j < n" for j
      using r c that by (auto dest!: spec [of _ "Suc j"] simp: algebra_simps)
    then have "derive_from one (i + 1) n = Inr cs" using Suc.IH [of "i + 1" cs] c(2) by simp
    ultimately show "derive_from one i (Suc n) = Inr chs" using c(1) by simp
  qed
qed auto

lemma derive_channel_index: "derive_channel derive from_raw seed i = Inr ch \<Longrightarrow> ck_index ch = i"
  by (auto simp: derive_channel_def split: if_splits sum.splits)

text \<open>
  Raising the channel count keeps the channels. When \<open>DeriveChannels\<close> succeeds for a count, it
  returns that many channels, numbered from 0, and for every smaller count it succeeds too, with
  a prefix of them: no configured channel changes its index or its key.
\<close>

lemma derive_channels_prefix:
  assumes "derive_channels derive from_raw seed n = Inr chs" "m \<le> n"
  shows "length chs = n \<and> map ck_index chs = map int [0..<n] \<and>
    derive_channels derive from_raw seed m = Inr (take m chs)"
proof -
  have l: "length chs = n" and one: "\<forall>j < n. derive_channel derive from_raw seed (int j) = Inr (chs ! j)"
    using assms(1) by (simp_all add: derive_channels_def derive_from_cases)
  have "ck_index (chs ! j) = int j" if "j < n" for j
    using one that derive_channel_index by blast
  then have "map ck_index chs = map int [0..<n]" using l by (intro nth_equalityI) simp_all
  then show ?thesis using l one assms(2) by (simp add: derive_channels_def derive_from_cases)
qed

text \<open>What a passed preflight has seen.\<close>

definition cleared :: "gasless_runtime \<Rightarrow> gasless_sdk \<Rightarrow> preflight_check \<Rightarrow> bool" where
  "cleared e k c \<longleftrightarrow>
     (\<exists>n. network_passphrase_of e n = Inr (pf_passphrase c)) \<and>
     (\<exists>accts v v'. run_state (accounts e k [pf_executor c, pf_funder c]) v = (Inr accts, v') \<and>
        acct_exists (accts (pf_executor c)) \<and> acct_exists (accts (pf_funder c))) \<and>
     (\<exists>v v'. run_state (has_role e k (pf_funder c) (pf_forwarder c) (pf_executor c) executor_role) v = (Inr True, v'))"

lemma missing_account_None:
  "missing_account accts (named_accounts c order) = None \<longleftrightarrow>
     acct_exists (accts (pf_executor c)) \<and> acct_exists (accts (pf_funder c))"
  by (auto simp: named_accounts_def)

lemma preflight_once_cleared: "wp (preflight_once e k c order) (\<lambda>r _. r = None \<longrightarrow> cleared e k c) w"
  unfolding preflight_once_def wp_bind wp_ask
proof (rule wp_sumI, goal_cases)
  case net: (2 pass)
  show ?case
  proof (rule wp_ifI, goal_cases)
    case 2
    show ?case
      unfolding wp_bind
    proof (rule wp_runI, rule wp_sumI, goal_cases)
      case acc: (2 r v accts)
      show ?case
      proof (rule wp_optionI, goal_cases)
        case 1
        show ?case
          unfolding wp_bind
        proof (rule wp_runI, goal_cases)
          case (1 h v')
          then show ?case
            using net 2 acc \<open>missing_account _ _ = None\<close>
            by (auto simp: cleared_def missing_account_None split: sum.splits bool.splits)
        qed
      qed simp
    qed simp
  qed simp
qed simp

lemma preflight_loop_cleared:
  "preflight_loop e k c order deadline earliest tries w = (None, w') \<Longrightarrow> cleared e k c"
proof (induction e k c order deadline earliest tries w rule: preflight_loop.induct)
  case (1 e k c order deadline earliest tries w)
  obtain r w1 where run: "run_state (preflight_once e k c (order (tick w))) w = (r, w1)" by fastforce
  show ?case
  proof (cases r)
    case None
    then show ?thesis using wp_run [OF run preflight_once_cleared] by simp
  next
    case (Some err)
    then show ?thesis
      using 1(2) 1(1) [OF run [symmetric] _ refl refl]
      by (subst (asm) preflight_loop.simps) (auto simp: run Let_def split: if_splits)
  qed
qed

text \<open>
  The service starts only on a network it was configured for. When \<open>Preflight\<close> passes, the RPC has
  named the configured network, the executor and the funder have been read as existing accounts,
  and the FeeForwarder has confirmed the executor's role. It always returns, with an error
  otherwise: its retries end at the deadline.
\<close>

lemma wp_preflight: "wp (preflight e k c order retry_for) (\<lambda>r _. r = None \<longrightarrow> cleared e k c) w"
  unfolding preflight_def wp_bind wp_ask
  by (rule wp_runI) (use preflight_loop_cleared in auto)

section \<open>Lemmas: the monitor\<close>

text \<open>A read asks and changes nothing.\<close>

definition only_asks :: "gasless_world \<Rightarrow> gasless_world \<Rightarrow> bool" where
  "only_asks w w' \<longleftrightarrow> (\<exists>n \<ge> tick w. w' = w\<lparr>tick := n\<rparr>)"

lemma only_asks_simps [simp]: "only_asks w w" "only_asks w (w\<lparr>tick := Suc (tick w)\<rparr>)"
  by (auto simp: only_asks_def intro: exI [of _ "tick w"] exI [of _ "Suc (tick w)"])

lemma only_asks_trans: "only_asks u v \<Longrightarrow> only_asks v w \<Longrightarrow> only_asks u w"
  unfolding only_asks_def by (elim exE conjE, rule exI [of _ "tick w"]) simp

lemma wp_load_batches_asks: "wp (load_batches e k keys bs out) (\<lambda>_. only_asks w) w"
proof (induction bs arbitrary: out w)
  case (Cons b bs out w)
  have "wp (load_batches e k keys bs o1) (\<lambda>_. only_asks w) (w\<lparr>tick := Suc (tick w)\<rparr>)" for o1
    by (rule wp_mono [OF Cons.IH]) (rule only_asks_trans [OF only_asks_simps(2)])
  then show ?case by (simp split: sum.split)
qed simp

lemma wp_accounts_asks: "wp (accounts e k addrs) (\<lambda>_. only_asks w) w"
  unfolding accounts_def using wp_load_batches_asks by (auto split: sum.split)

lemma wp_token_balances_asks: "wp (token_balances e k holder tokens) (\<lambda>_. only_asks w) w"
  unfolding token_balances_def by (auto split: sum.split)

text \<open>What the monitor leaves alone.\<close>

definition ledger_kept :: "gasless_world \<Rightarrow> gasless_world \<Rightarrow> bool" where
  "ledger_kept w w' \<longleftrightarrow> snap w' = snap w \<and> sponsored w' = sponsored w \<and> accepted w' = accepted w \<and> tick w \<le> tick w'"

lemma ledger_kept_trans: "ledger_kept u v \<Longrightarrow> ledger_kept v w \<Longrightarrow> ledger_kept u w"
  by (simp add: ledger_kept_def)

lemma asks_kept: "only_asks w w' \<Longrightarrow> ledger_kept w w'"
  by (auto simp: only_asks_def ledger_kept_def)

lemma wp_pool_stmt_kept: "wp (db_stmt (rt e) channels channels_update stmt) (\<lambda>_. ledger_kept w) w"
  by (rule wp_db_stmt) (simp_all add: ledger_kept_def)

lemma wp_record_balances_kept: "wp (record_balances e accts minimum chs) (\<lambda>_. ledger_kept w) w"
proof (induction chs arbitrary: w)
  case (Cons ch chs w)
  show ?case
    unfolding record_balances.simps record_balance_def wp_bind wp_return
    by (rule wp_mono [OF wp_pool_stmt_kept], rule wp_mono [OF Cons.IH]) (rule ledger_kept_trans)
qed (simp add: ledger_kept_def)

lemma wp_check_forwarder_kept: "wp (check_forwarder e k mc) (\<lambda>_. ledger_kept w) w"
proof -
  have "wp (case r of Inl m \<Rightarrow> gets (\<lambda>w. snap_forwarder_fees (snap w)) | Inr bal \<Rightarrow> do {
       modify (\<lambda>w. w\<lparr>over_sweep := sweep_alerts (sweep_alert_units mc) bal (mon_fee_tokens mc) (over_sweep w)\<rparr>);
       ret (fold (\<lambda>(contract, symbol) out. AList.update symbol (bal contract) out) (mon_fee_tokens mc) []) })
     (\<lambda>_. ledger_kept w) v" if "only_asks w v" for r v
    using asks_kept [OF that] by (cases r) (simp_all add: ledger_kept_def)
  then show ?thesis
    unfolding check_forwarder_def
    by (intro wp_ifI wp_bindI [OF wp_token_balances_asks]) (simp_all add: ledger_kept_def)
qed

lemma wp_monitor_check:
  "wp (monitor_check e k mc) (\<lambda>_ w'. sponsored w' = sponsored w \<and> accepted w' = accepted w \<and> tick w \<le> tick w' \<and>
     (snap w' = snap w \<or>
      (\<exists>accts v. run_state (accounts e k ([mon_funder mc, mon_executor mc] @ map ck_address (mon_channels mc))) w
           = (Inr accts, v) \<and>
         snap_funder (snap w') = acct_balance (accts (mon_funder mc)) \<and>
         (snap_sponsorship_ok (snap w') \<longleftrightarrow> funder_min mc \<le> acct_balance (accts (mon_funder mc)))))) w"
proof -
  have kept: "wp (accounts e k addrs) (\<lambda>_. ledger_kept w) w" for addrs
    by (rule wp_mono [OF wp_accounts_asks]) (rule asks_kept)
  show ?thesis
    unfolding monitor_check_def wp_bind
  proof (rule wp_runI, rule wp_sumI, goal_cases)
    case (1 r v m)
    then show ?case using wp_run [OF 1(1) kept] by (simp add: ledger_kept_def)
  next
    case (2 r v accts)
    then have v: "ledger_kept w v" using wp_run [OF 2(1) kept] by simp
    show ?case
      unfolding wp_bind wp_ask stats_def wp_return
    proof (rule wp_mono [OF wp_record_balances_kept], rule wp_mono [OF wp_pool_stmt_kept],
        rule wp_mono [OF wp_check_forwarder_kept], goal_cases)
      case (1 u v1 st v2 fees v3)
      then have "ledger_kept w v3"
        using v by (auto simp: ledger_kept_def)
      then show ?case using 2 by (auto simp: ledger_kept_def)
    qed
  qed
qed

text \<open>
  Sponsorship follows the funder's balance. After a \<open>Check\<close> either the read failed and the whole
  snapshot is the previous one, or sponsorship is available exactly when the funder's account, as
  the ledger has it, holds at least the configured floor. In no case are submissions touched.
\<close>

lemma monitor_follows_funder:
  fixes w :: gasless_world
  assumes "answers_ledger ledger e"
    and "inj_on (key_of k) (set ([mon_funder mc, mon_executor mc] @ map ck_address (mon_channels mc)))"
    and "account_keys k ([mon_funder mc, mon_executor mc] @ map ck_address (mon_channels mc)) = Inr keys"
    and "run_state (monitor_check e k mc) w = (u, w')"
  shows "(snap w' = snap w \<or>
      (let funder = account_at k ledger (the (key_of k (mon_funder mc)))
       in snap_funder (snap w') = acct_balance funder \<and>
          (snap_sponsorship_ok (snap w') \<longleftrightarrow> funder_min mc \<le> acct_balance funder))) \<and>
    sponsored w' = sponsored w \<and> accepted w' = accepted w"
proof -
  have "accts (mon_funder mc) = account_at k ledger (the (key_of k (mon_funder mc)))"
    if "run_state (accounts e k ([mon_funder mc, mon_executor mc] @ map ck_address (mon_channels mc))) w = (Inr accts, v)"
    for accts v
    by (rule accounts_entries [OF assms(1-3) that]) simp
  then show ?thesis using wp_run [OF assms(4) wp_monitor_check] unfolding Let_def by metis
qed

end
