(* ===== verification/Config.thy ===== *)
theory Config
  imports Gasless_Ops Forwarder_Submit Http
begin

text \<open>
  \<open>internal/config\<close>: what the two services read from their environment and refuse to start without. A
  loader is a function of the environment into an error text or the settings; the checks are in the
  order of the code, so the text is the one an operator sees. The lemmas say what every accepted
  configuration satisfies.
\<close>

section \<open>The environment\<close>

text \<open>
  The variables in the order \<open>os.Environ\<close> lists them, after \<open>godotenv.Load\<close> added those of the file. A name
  has no \<open>=\<close> in it; of a repeated name the first counts.
\<close>

type_synonym environment = "(string \<times> string) list"

definition getenv :: "environment \<Rightarrow> string \<Rightarrow> string" where
  "getenv env key = (case map_of env key of None \<Rightarrow> [] | Some v \<Rightarrow> v)"

text \<open>
  What the loaders call outside this repository: \<open>strconv.ParseFloat\<close> (rounding to the nearest double),
  \<open>amount.ParseInt64\<close>, the strkey checks, \<open>keypair.ParseFull\<close>, the key derivation, the network passphrases, and the
  host name and process id that name an instance.
\<close>

record config_sdk =
  parse_float :: "string \<Rightarrow> float64 option"
  parse_amount :: "string \<Rightarrow> int option"
  valid_contract :: "string \<Rightarrow> bool"
  valid_public_key :: "string \<Rightarrow> bool"
  parse_full :: "string \<Rightarrow> string + keypair"
  derive_path :: "int \<Rightarrow> string \<Rightarrow> string + string"
  from_raw_seed :: "string \<Rightarrow> string + keypair"
  public_passphrase :: string
  test_passphrase :: string
  default_instance :: string

definition and_then :: "string + 'a \<Rightarrow> ('a \<Rightarrow> string + 'b) \<Rightarrow> string + 'b" where
  "and_then r f = (case r of Inl m \<Rightarrow> Inl m | Inr x \<Rightarrow> f x)"

text \<open>An error of a parser replaced by the loader's own text.\<close>

definition or_else :: "string + 'a \<Rightarrow> string \<Rightarrow> string + 'a" where
  "or_else r m = (case r of Inl _ \<Rightarrow> Inl m | Inr x \<Rightarrow> Inr x)"

definition check :: "bool \<Rightarrow> string \<Rightarrow> string + 'a \<Rightarrow> string + 'a" where
  "check bad m r = (if bad then Inl m else r)"

definition get_env :: "environment \<Rightarrow> string \<Rightarrow> string \<Rightarrow> string" where
  "get_env env key fallback = (if getenv env key \<noteq> [] then getenv env key else fallback)"

definition env_int :: "environment \<Rightarrow> string \<Rightarrow> int \<Rightarrow> string + int" where
  "env_int env key fallback =
     (let v = getenv env key in
      if v = [] then Inr fallback
      else case parse_int64 v of
             None \<Rightarrow> Inl (key @ '' must be a positive integer, got '' @ go_quote v)
           | Some n \<Rightarrow> if n \<le> 0 then Inl (key @ '' must be a positive integer, got '' @ go_quote v) else Inr n)"

definition env_int32 :: "environment \<Rightarrow> string \<Rightarrow> int \<Rightarrow> string + int" where
  "env_int32 env key fallback =
     and_then (env_int env key fallback) (\<lambda>n. if n > 2 ^ 31 - 1 then Inl (key @ '' is too large'') else Inr n)"

definition env_float :: "config_sdk \<Rightarrow> environment \<Rightarrow> string \<Rightarrow> float64 \<Rightarrow> string + float64" where
  "env_float k env key fallback =
     (let v = getenv env key in
      if v = [] then Inr fallback
      else case parse_float k v of
             None \<Rightarrow> Inl (key @ '' must be a positive number, got '' @ go_quote v)
           | Some f \<Rightarrow> if float_leq f float_zero then Inl (key @ '' must be a positive number, got '' @ go_quote v) else Inr f)"

text \<open>A \<open>time.Duration\<close> is an \<open>int64\<close>: the product wraps.\<close>

definition env_millis :: "environment \<Rightarrow> string \<Rightarrow> int \<Rightarrow> string + duration" where
  "env_millis env key fallback = and_then (env_int env key fallback) (\<lambda>n. Inr (int64 (n * millisecond)))"

definition env_seconds :: "environment \<Rightarrow> string \<Rightarrow> int \<Rightarrow> string + duration" where
  "env_seconds env key fallback = and_then (env_int env key fallback) (\<lambda>n. Inr (int64 (n * second)))"

section \<open>Shared settings\<close>

record common_config =
  rpc_url :: string
  cc_passphrase :: string
  database_url :: string
  port :: string
  api_key :: string
  db_max_conns :: int
  db_min_conns :: int
  max_inflight :: int
  rate_limit_rps :: float64
  rate_limit_burst :: int
  rpc_timeout :: duration
  shutdown_drain :: duration
  metrics_namespace :: string

definition load_common :: "config_sdk \<Rightarrow> environment \<Rightarrow> string \<Rightarrow> string \<Rightarrow> string + common_config" where
  "load_common k env default_port namespace =
     (let key = getenv env ''RELAYER_API_KEY''; db = getenv env ''DATABASE_URL'' in
      check (db = []) ''DATABASE_URL is required''
      (check (length key < 32) ''RELAYER_API_KEY is required and must be at least 32 characters''
      (and_then (env_int32 env ''DB_MAX_CONNS'' 20) (\<lambda>most.
       and_then (env_int32 env ''DB_MIN_CONNS'' 2) (\<lambda>least.
       check (least > most) ''DB_MIN_CONNS must not exceed DB_MAX_CONNS''
      (and_then (env_int env ''MAX_INFLIGHT_REQUESTS'' 500) (\<lambda>inflight.
       and_then (env_float k env ''RATE_LIMIT_RPS'' (Finite 100)) (\<lambda>rps.
       and_then (env_int env ''RATE_LIMIT_BURST'' 300) (\<lambda>burst.
       and_then (env_millis env ''RPC_TIMEOUT_MS'' 15000) (\<lambda>timeout.
       and_then (env_seconds env ''SHUTDOWN_DRAIN_SECONDS'' 30) (\<lambda>drain.
         Inr \<lparr>rpc_url = get_env env ''RPC_URL'' ''https://soroban-testnet.stellar.org'',
              cc_passphrase = (if get_env env ''NETWORK'' ''testnet'' \<in> {''mainnet'', ''pubnet''}
                then public_passphrase k else test_passphrase k),
              database_url = db, port = get_env env ''PORT'' default_port, api_key = key,
              db_max_conns = most, db_min_conns = least, max_inflight = inflight, rate_limit_rps = rps,
              rate_limit_burst = burst, rpc_timeout = timeout, shutdown_drain = drain,
              metrics_namespace = namespace\<rparr>)))))))))))"

definition instance_name :: "config_sdk \<Rightarrow> environment \<Rightarrow> string" where
  "instance_name k env = (let i = getenv env ''INSTANCE_ID'' in if i = [] then default_instance k else i)"

section \<open>The deposit bridge\<close>

definition usdc_issuer_mainnet :: string where
  "usdc_issuer_mainnet = ''GA5ZSEJYB37JRC5AVCIA5MOP4RHTM335X2KGX3IHOJAPP5RE34K4KZVN''"

definition usdc_issuer_testnet :: string where
  "usdc_issuer_testnet = ''GBBD47IF6LWK7P7MDEVSCWR7DPUWV3NY3DTQEVFL4NAT4AQH3ZLLFLA5''"

record deposit_config = common_config +
  horizon_url :: string
  dc_pools :: "pool_account list"
  dc_recovery :: string
  dc_accepted :: "string list"
  dc_channels :: "channel_key list"
  dc_instance :: string
  retry_interval :: duration
  forward_workers :: int

definition forward_workers_default :: int where
  "forward_workers_default = 32"

fun parse_assets :: "config_sdk \<Rightarrow> string list \<Rightarrow> string + string list" where
  "parse_assets k [] = Inr []"
| "parse_assets k (part # parts) =
     (let a = trim_space part in
      if a = ''native'' then and_then (parse_assets k parts) (\<lambda>out. Inr (a # out))
      else case cut CHR '':'' a of (code, issuer, ok) \<Rightarrow>
        if \<not> ok \<or> code = [] \<or> length code > 12 \<or> \<not> valid_public_key k issuer
        then Inl (''ACCEPTED_ASSETS: '' @ go_quote a @ '' is not \"native\" or CODE:ISSUER'')
        else and_then (parse_assets k parts) (\<lambda>out. Inr (a # out)))"

definition accepted_assets_of :: "config_sdk \<Rightarrow> string \<Rightarrow> string \<Rightarrow> string + string list" where
  "accepted_assets_of k raw passphrase =
     (if trim_space raw = []
      then Inr [''native'', ''USDC:'' @
        (if passphrase = public_passphrase k then usdc_issuer_mainnet else usdc_issuer_testnet)]
      else parse_assets k (split_on CHR '','' raw))"

definition pool_var :: "string \<Rightarrow> nat \<Rightarrow> string" where
  "pool_var name i = name @ show_nat i"

text \<open>
  The loop over \<open>POOL_ADDRESS_1\<close>, \<open>POOL_ADDRESS_2\<close>, \<dots>: it stops at the first missing pair, and the
  environment is finite.
\<close>

lemma pool_var_inj: "pool_var name i = pool_var name j \<Longrightarrow> i = j"
proof -
  assume "pool_var name i = pool_var name j"
  then have "parse_digits (show_nat i) = parse_digits (show_nat j)" by (simp add: pool_var_def)
  then show "i = j" by (simp add: parse_digits_show_nat)
qed

definition pools_left :: "environment \<Rightarrow> nat \<Rightarrow> nat set" where
  "pools_left env i = {j. i \<le> j \<and> pool_var ''POOL_ADDRESS_'' j \<in> fst ` set env}"

lemma finite_pools_left: "finite (pools_left env i)"
proof (rule finite_imageD [where f = "pool_var ''POOL_ADDRESS_''"])
  show "finite (pool_var ''POOL_ADDRESS_'' ` pools_left env i)"
    by (rule finite_subset [where B = "fst ` set env"]) (auto simp: pools_left_def)
  show "inj_on (pool_var ''POOL_ADDRESS_'') (pools_left env i)" by (auto intro: inj_onI pool_var_inj)
qed

lemma getenv_set: "getenv env key \<noteq> [] \<Longrightarrow> key \<in> fst ` set env"
  by (auto simp: getenv_def split: option.splits dest!: map_of_SomeD intro: rev_image_eqI)

function load_pools :: "config_sdk \<Rightarrow> environment \<Rightarrow> nat \<Rightarrow> string + pool_account list" where
  "load_pools k env i =
     (let addr = getenv env (pool_var ''POOL_ADDRESS_'' i); seed = getenv env (pool_var ''POOL_PRIVATE_KEY_'' i) in
      if addr = [] \<or> seed = [] then Inr []
      else case parse_full k seed of
             Inl m \<Rightarrow> Inl (pool_var ''POOL_PRIVATE_KEY_'' i @ '' is invalid: '' @ m)
           | Inr kp \<Rightarrow>
               if kp_address kp \<noteq> addr
               then Inl (pool_var ''POOL_ADDRESS_'' i @ '' does not match '' @ pool_var ''POOL_PRIVATE_KEY_'' i)
               else and_then (load_pools k env (Suc i)) (\<lambda>ps. Inr (\<lparr>pa_address = addr, pa_keypair = kp\<rparr> # ps)))"
  by pat_completeness auto
termination
proof (relation "measure (\<lambda>(k, env, i). card (pools_left env i))")
  show "wf (measure (\<lambda>(k :: config_sdk, env, i). card (pools_left env i)))" by simp
next
  fix k :: config_sdk and env :: environment and i :: nat and addr seed kp
  assume "addr = getenv env (pool_var ''POOL_ADDRESS_'' i)" "\<not> (addr = [] \<or> seed = [])"
  then have "i \<in> pools_left env i" using getenv_set by (simp add: pools_left_def)
  moreover have "pools_left env (Suc i) \<subseteq> pools_left env i" "i \<notin> pools_left env (Suc i)"
    by (auto simp: pools_left_def)
  ultimately have "pools_left env (Suc i) \<subset> pools_left env i" by blast
  then show "((k, env, Suc i), k, env, i) \<in> measure (\<lambda>(k, env, i). card (pools_left env i))"
    using psubset_card_mono [OF finite_pools_left] by simp
qed

declare load_pools.simps [simp del]

fun channel_clash :: "string \<Rightarrow> pool_account list \<Rightarrow> channel_key list \<Rightarrow> string option" where
  "channel_clash recovery pools [] = None"
| "channel_clash recovery pools (ch # chs) =
     (if ck_address ch = recovery
      then Some (''deposit channel '' @ show_int (ck_index ch) @ '' derives to RECOVERY_ADDRESS; use a different DEPOSIT_CHANNEL_SEED'')
      else case List.find (\<lambda>p. ck_address ch = pa_address p) pools of
             Some p \<Rightarrow> Some (''deposit channel '' @ show_int (ck_index ch) @ '' derives to pool '' @ pa_address p @
               ''; use a different DEPOSIT_CHANNEL_SEED'')
           | None \<Rightarrow> channel_clash recovery pools chs)"

text \<open>\<open>strings.EqualFold\<close> of two seeds; the one that was decoded is hexadecimal, so ASCII case is enough.\<close>

definition equal_fold :: "string \<Rightarrow> string \<Rightarrow> bool" where
  "equal_fold a b \<longleftrightarrow> map lower_char a = map lower_char b"

definition seed_required :: string where
  "seed_required = ''DEPOSIT_CHANNEL_SEED is required when DEPOSIT_CHANNEL_COUNT > 0: hex, at least '' @
     show_nat min_seed_bytes @ '' bytes (generate with: openssl rand -hex 32)''"

definition deposit_channels :: "config_sdk \<Rightarrow> environment \<Rightarrow> string \<Rightarrow> pool_account list \<Rightarrow> string + channel_key list" where
  "deposit_channels k env recovery pools =
     (let v = trim_space (getenv env ''DEPOSIT_CHANNEL_COUNT''); raw = getenv env ''DEPOSIT_CHANNEL_SEED'';
          gasless = getenv env ''CHANNEL_SEED'' in
      if v = [] \<or> v = ''0'' then Inr []
      else and_then (env_int env ''DEPOSIT_CHANNEL_COUNT'' 0) (\<lambda>count.
        case hex_decode raw of
          None \<Rightarrow> Inl seed_required
        | Some seed \<Rightarrow>
            check (length seed < min_seed_bytes) seed_required
           (check (gasless \<noteq> [] \<and> equal_fold gasless raw) (''DEPOSIT_CHANNEL_SEED must differ from the gasless service'' @ [CHR 0x27] @ ''s CHANNEL_SEED'')
           (and_then (derive_channels (derive_path k) (from_raw_seed k) seed (nat count)) (\<lambda>chans.
              case channel_clash recovery pools chans of Some m \<Rightarrow> Inl m | None \<Rightarrow> Inr chans)))))"

definition load_config :: "config_sdk \<Rightarrow> environment \<Rightarrow> string + deposit_config" where
  "load_config k env =
     and_then (load_common k env ''4000'' ''latch_relayer'') (\<lambda>common.
     let recovery = getenv env ''RECOVERY_ADDRESS'' in
     check (recovery = []) ''RECOVERY_ADDRESS is required''
    (and_then (env_seconds env ''RETRY_INTERVAL_SEC'' 10) (\<lambda>interval.
     and_then (accepted_assets_of k (getenv env ''ACCEPTED_ASSETS'') (cc_passphrase common)) (\<lambda>assets.
     and_then (load_pools k env 1) (\<lambda>pools.
     check (pools = []) ''at least one pool account is required (POOL_ADDRESS_1 + POOL_PRIVATE_KEY_1)''
    (and_then (deposit_channels k env recovery pools) (\<lambda>chans.
     and_then (env_int env ''FORWARD_WORKERS'' (max forward_workers_default (int (length chans)))) (\<lambda>workers.
     check (workers < 1) ''FORWARD_WORKERS must be at least 1''
       (Inr (common_config.extend common
         (deposit_config.fields (get_env env ''HORIZON_URL'' ''https://horizon-testnet.stellar.org'') pools recovery
           assets chans (instance_name k env) interval workers)))))))))))"

section \<open>The gasless service\<close>

text \<open>The forward-mode fields of \<open>Gasless\<close>, those that \<open>loadForward\<close> sets.\<close>

record forward_settings =
  forward_enabled :: bool
  usdc_contract :: string
  fee_margin_bps :: int
  executor_auth_ledgers :: int
  xlm_usd_price :: float64
  stellar_expert_url :: string
  stellar_expert_key :: string
  xlm_usd_min :: float64
  xlm_usd_max :: float64
  fs_price_max_stale :: duration
  fs_max_failures :: int
  fs_failure_window :: duration
  fs_max_in_flight :: int
  loss_alert :: int
  sweep_alert :: int

record gasless_config = common_config +
  gc_forwarder :: string
  gc_executor :: keypair
  gc_funder :: keypair
  gc_channels :: "channel_key list"
  gc_funder_min :: int
  gc_channel_min :: int
  balance_check_interval :: duration
  gc_instance :: string
  sponsored_calls :: string
  sponsor_max_tx :: int
  sponsor_max_wallet :: int
  sponsor_max_day :: int
  gc_max_inclusion :: int
  sync_wait :: duration
  forward_settings :: forward_settings

definition load_keypair :: "config_sdk \<Rightarrow> environment \<Rightarrow> string \<Rightarrow> string + keypair" where
  "load_keypair k env prefix =
     (let addr = getenv env (prefix @ ''_ADDRESS''); seed = getenv env (prefix @ ''_PRIVATE_KEY'') in
      if addr = [] \<or> seed = [] then Inl (prefix @ ''_ADDRESS and '' @ prefix @ ''_PRIVATE_KEY are required'')
      else case parse_full k seed of
             Inl m \<Rightarrow> Inl (prefix @ ''_PRIVATE_KEY is invalid: '' @ m)
           | Inr kp \<Rightarrow>
               if kp_address kp \<noteq> addr then Inl (prefix @ ''_ADDRESS does not match '' @ prefix @ ''_PRIVATE_KEY'') else Inr kp)"

definition env_xlm :: "config_sdk \<Rightarrow> environment \<Rightarrow> string \<Rightarrow> string \<Rightarrow> string + int" where
  "env_xlm k env key fallback =
     (let v = get_env env key fallback in
      case parse_amount k v of
        None \<Rightarrow> Inl (key @ '' must be a positive XLM amount, got '' @ go_quote v)
      | Some n \<Rightarrow> if n \<le> 0 then Inl (key @ '' must be a positive XLM amount, got '' @ go_quote v) else Inr n)"

definition fixed_price :: "config_sdk \<Rightarrow> environment \<Rightarrow> string + float64" where
  "fixed_price k env =
     (let v = getenv env ''XLM_USD_PRICE'' in
      if v = [] then Inr float_zero
      else case parse_float k v of
             None \<Rightarrow> Inl (''XLM_USD_PRICE must be a positive number, got '' @ go_quote v)
           | Some p \<Rightarrow> if float_leq p float_zero then Inl (''XLM_USD_PRICE must be a positive number, got '' @ go_quote v) else Inr p)"

text \<open>\<open>show_price\<close> is the verb \<open>%v\<close> of a \<open>float64\<close>, which only an error text uses.\<close>

definition load_forward :: "config_sdk \<Rightarrow> (float64 \<Rightarrow> string) \<Rightarrow> environment \<Rightarrow> string \<Rightarrow> string + forward_settings" where
  "load_forward k show_price env passphrase =
     (let usdc = getenv env ''USDC_CONTRACT_ID''; sweep = get_env env ''FORWARDER_SWEEP_ALERT'' ''10'';
          net = (if passphrase = public_passphrase k then ''public'' else ''testnet'');
          margin_text = ''FEE_MARGIN_BPS must be an integer between 0 and 50000'';
          ledgers_text = ''EXECUTOR_AUTH_LEDGERS must be an integer of at least 10'';
          stale_text = ''PRICE_MAX_STALE_MINUTES must be a non-negative integer'';
          failures_text = ''FORWARD_MAX_FAILURES_PER_WALLET must be a positive integer'';
          window_text = ''FORWARD_FAILURE_WINDOW_HOURS must be a positive integer'';
          flight_text = ''FORWARD_MAX_IN_FLIGHT_PER_WALLET must be a positive integer'';
          sweep_text = ''FORWARDER_SWEEP_ALERT must be a non-negative token amount, got '' @ go_quote sweep in
      check (usdc \<noteq> [] \<and> \<not> valid_contract k usdc)
        (''USDC_CONTRACT_ID must be the USDC SAC'' @ [CHR 0x27] @ ''s C-address'')
     (and_then (or_else (env_int env ''FEE_MARGIN_BPS'' 2500) margin_text) (\<lambda>margin.
      check (margin < 0 \<or> margin > 50000) margin_text
     (and_then (or_else (env_int env ''EXECUTOR_AUTH_LEDGERS'' 60) ledgers_text) (\<lambda>ledgers.
      check (ledgers < 10) ledgers_text
     (and_then (fixed_price k env) (\<lambda>price.
      and_then (env_float k env ''XLM_USD_MIN'' (Finite (1 / 100))) (\<lambda>low.
      and_then (env_float k env ''XLM_USD_MAX'' (Finite 10)) (\<lambda>high.
      check (float_leq high low) ''XLM_USD_MIN must be below XLM_USD_MAX''
     (check (float_less float_zero price \<and> (float_less price low \<or> float_less high price))
        (''XLM_USD_PRICE '' @ show_price price @ '' is outside [XLM_USD_MIN, XLM_USD_MAX]'')
     (and_then (or_else (env_int env ''PRICE_MAX_STALE_MINUTES'' 30) stale_text) (\<lambda>stale.
      check (stale < 0) stale_text
     (and_then (or_else (env_int env ''FORWARD_MAX_FAILURES_PER_WALLET'' 24) failures_text) (\<lambda>failures.
      check (failures \<le> 0) failures_text
     (and_then (or_else (env_int env ''FORWARD_FAILURE_WINDOW_HOURS'' 6) window_text) (\<lambda>hours.
      check (hours \<le> 0) window_text
     (and_then (or_else (env_int env ''FORWARD_MAX_IN_FLIGHT_PER_WALLET'' 5) flight_text) (\<lambda>flight.
      check (flight \<le> 0) flight_text
     (and_then (env_xlm k env ''FORWARD_LOSS_ALERT_XLM_PER_DAY'' ''50'') (\<lambda>loss.
      (case parse_amount k sweep of
         None \<Rightarrow> Inl sweep_text
       | Some units \<Rightarrow>
           check (units < 0) sweep_text
          (Inr \<lparr>forward_enabled = (get_env env ''FORWARD_ENABLED'' ''true'' = ''true''), usdc_contract = usdc,
                fee_margin_bps = margin, executor_auth_ledgers = ledgers, xlm_usd_price = price,
                stellar_expert_url = get_env env ''STELLAR_EXPERT_PRICE_URL''
                  (''https://api.stellar.expert/explorer/'' @ net @ ''/asset/XLM''),
                stellar_expert_key = getenv env ''STELLAR_EXPERT_API_KEY'', xlm_usd_min = low, xlm_usd_max = high,
                fs_price_max_stale = int64 (stale * minute), fs_max_failures = failures,
                fs_failure_window = int64 (hours * (60 * minute)), fs_max_in_flight = flight, loss_alert = loss,
                sweep_alert = units\<rparr>))))))))))))))))))))))"

definition forbidden_in_gasless :: "string list" where
  "forbidden_in_gasless = [''POOL_ADDRESS_'', ''POOL_PRIVATE_KEY_'', ''RECOVERY_ADDRESS'']"

text \<open>The first variable of the deposit bridge that is set, as the scan of \<open>os.Environ\<close> finds it.\<close>

definition forbidden_var :: "environment \<Rightarrow> string option" where
  "forbidden_var env = List.find (\<lambda>name. list_ex (\<lambda>p. has_prefix p name) forbidden_in_gasless) (map fst env)"

definition gasless_seed_required :: string where
  "gasless_seed_required = ''CHANNEL_SEED is required: hex, at least '' @ show_nat min_seed_bytes @
     '' bytes (generate with: openssl rand -hex 32)''"

fun role_clash :: "string \<Rightarrow> string \<Rightarrow> channel_key list \<Rightarrow> string option" where
  "role_clash executor funder [] = None"
| "role_clash executor funder (ch # chs) =
     (if ck_address ch = executor \<or> ck_address ch = funder
      then Some (''channel '' @ show_int (ck_index ch) @ '' derives to the executor or funder address; use a different CHANNEL_SEED'')
      else role_clash executor funder chs)"

text \<open>The two keys and the channels, with the checks that keep them apart.\<close>

definition gasless_keys :: "config_sdk \<Rightarrow> environment \<Rightarrow> string + keypair \<times> keypair \<times> channel_key list" where
  "gasless_keys k env =
     and_then (load_keypair k env ''EXECUTOR'') (\<lambda>xkp.
     and_then (load_keypair k env ''FUNDER'') (\<lambda>fund.
     check (kp_address xkp = kp_address fund) ''EXECUTOR and FUNDER must be different accounts''
    (case hex_decode (getenv env ''CHANNEL_SEED'') of
       None \<Rightarrow> Inl gasless_seed_required
     | Some seed \<Rightarrow>
         check (length seed < min_seed_bytes) gasless_seed_required
        (and_then (or_else (env_int env ''CHANNEL_COUNT'' 0) ''CHANNEL_COUNT is required and must be a positive integer'') (\<lambda>count.
         check (count = 0) ''CHANNEL_COUNT is required and must be a positive integer''
        (and_then (derive_channels (derive_path k) (from_raw_seed k) seed (nat count)) (\<lambda>chans.
           case role_clash (kp_address xkp) (kp_address fund) chans of
             Some m \<Rightarrow> Inl m
           | None \<Rightarrow> Inr (xkp, fund, chans))))))))"

definition load_gasless :: "config_sdk \<Rightarrow> (float64 \<Rightarrow> string) \<Rightarrow> environment \<Rightarrow> string + gasless_config" where
  "load_gasless k show_price env =
     (case forbidden_var env of
        Some name \<Rightarrow> Inl (name @ '' is set: pool keys and deposit settings must not be present in the gasless service'')
      | None \<Rightarrow>
     and_then (load_common k env ''4001'' ''latch_gasless'') (\<lambda>common.
     let forwarder = getenv env ''FEE_FORWARDER_CONTRACT_ID''; calls = getenv env ''SPONSORED_CALLS'';
         tx_text = ''SPONSOR_MAX_TX_PER_WALLET must be a positive integer'';
         fee_text = ''MAX_INCLUSION_FEE_STROOPS must be an integer of at least 100'' in
     check (\<not> valid_contract k forwarder) ''FEE_FORWARDER_CONTRACT_ID is required and must be a C-address''
    (and_then (gasless_keys k env) (\<lambda>(xkp, fund, chans).
     and_then (env_xlm k env ''FUNDER_MIN_XLM'' ''50'') (\<lambda>fund_min.
     and_then (env_xlm k env ''CHANNEL_MIN_XLM'' ''1'') (\<lambda>chan_min.
     and_then (env_seconds env ''BALANCE_CHECK_SECONDS'' 60) (\<lambda>interval.
     check (trim_space calls = []) (''SPONSORED_CALLS is required: the setup calls Latch pays for, e.g. '' @
       ''CFACTORY...:create_account,wallet:add_context_rule,wallet:add_signer'')
    (and_then (or_else (env_int env ''SPONSOR_MAX_TX_PER_WALLET'' 5) tx_text) (\<lambda>max_tx.
     check (max_tx \<le> 0) tx_text
    (and_then (env_xlm k env ''SPONSOR_MAX_XLM_PER_WALLET'' ''2'') (\<lambda>per_wallet.
     and_then (env_xlm k env ''SPONSOR_MAX_XLM_PER_DAY'' ''200'') (\<lambda>per_day.
     and_then (or_else (env_int env ''MAX_INCLUSION_FEE_STROOPS'' 20000) fee_text) (\<lambda>inclusion.
     check (inclusion < 100) fee_text
    (and_then (env_seconds env ''SPONSOR_SYNC_WAIT_SECONDS'' 20) (\<lambda>wait.
     and_then (load_forward k show_price env (cc_passphrase common)) (\<lambda>fwd.
     check (wait > 25 * second) ''SPONSOR_SYNC_WAIT_SECONDS must be at most 25''
       (Inr (common_config.extend common
         (gasless_config.fields forwarder xkp fund chans fund_min chan_min interval (instance_name k env) calls
           max_tx per_wallet per_day inclusion wait fwd)))))))))))))))))))"

section \<open>What an accepted configuration satisfies\<close>

lemma and_then_Inr: "and_then r f = Inr y \<longleftrightarrow> (\<exists>x. r = Inr x \<and> f x = Inr y)"
  by (cases r) (simp_all add: and_then_def)

lemma or_else_Inr: "or_else r m = Inr y \<longleftrightarrow> r = Inr y"
  by (cases r) (simp_all add: or_else_def)

lemma check_Inr: "check bad m r = Inr y \<longleftrightarrow> \<not> bad \<and> r = Inr y"
  by (simp add: check_def)

lemmas loaded = and_then_Inr or_else_Inr check_Inr

lemma env_int_pos: "env_int env key d = Inr n \<Longrightarrow> 0 < d \<or> getenv env key \<noteq> [] \<Longrightarrow> 0 < n"
  by (auto simp: env_int_def Let_def split: if_splits option.splits)

lemma env_int_nonneg: "env_int env key d = Inr n \<Longrightarrow> 0 \<le> d \<Longrightarrow> 0 \<le> n"
  by (auto simp: env_int_def Let_def split: if_splits option.splits)

lemma env_int_bound: "env_int env key d = Inr n \<Longrightarrow> d < 2 ^ 63 \<Longrightarrow> n < 2 ^ 63"
  by (auto simp: env_int_def parse_int64_def Let_def split: if_splits option.splits list.splits)

lemma env_int32_bounds: "env_int32 env key d = Inr n \<Longrightarrow> 0 < d \<Longrightarrow> 0 < n \<and> n < 2 ^ 31"
  by (auto simp: env_int32_def loaded split: if_splits dest: env_int_pos)

lemma env_xlm_pos: "env_xlm k env key d = Inr n \<Longrightarrow> 0 < n"
  by (auto simp: env_xlm_def Let_def split: if_splits option.splits)

lemma env_float_pos: "env_float k env key (Finite d) = Inr f \<Longrightarrow> 0 < d \<Longrightarrow> f = NaN \<or> float_less float_zero f"
  by (cases f) (auto simp: env_float_def float_zero_def Let_def split: if_splits option.splits)

definition common_ok :: "'a common_config_scheme \<Rightarrow> bool" where
  "common_ok c \<longleftrightarrow> 32 \<le> length (api_key c) \<and> database_url c \<noteq> [] \<and> 0 < db_min_conns c \<and>
     db_min_conns c \<le> db_max_conns c \<and> db_max_conns c < 2 ^ 31 \<and> 0 < max_inflight c \<and> 0 < rate_limit_burst c \<and>
     (rate_limit_rps c = NaN \<or> float_less float_zero (rate_limit_rps c))"

lemma load_common_ok:
  assumes "load_common k env p ns = Inr c"
  shows "common_ok c"
  using assms
  by (auto simp: load_common_def loaded Let_def common_ok_def
      dest: env_int32_bounds [OF _ zero_less_numeral] env_int_pos env_float_pos)

lemma load_pools_run:
  "load_pools k env i = Inr ps \<Longrightarrow>
    (\<forall>j < length ps. getenv env (pool_var ''POOL_ADDRESS_'' (i + j)) = pa_address (ps ! j) \<and> pa_address (ps ! j) \<noteq> [] \<and>
       parse_full k (getenv env (pool_var ''POOL_PRIVATE_KEY_'' (i + j))) = Inr (pa_keypair (ps ! j)) \<and>
       kp_address (pa_keypair (ps ! j)) = pa_address (ps ! j)) \<and>
    (getenv env (pool_var ''POOL_ADDRESS_'' (i + length ps)) = [] \<or> getenv env (pool_var ''POOL_PRIVATE_KEY_'' (i + length ps)) = [])"
proof (induction ps arbitrary: i)
  case Nil
  then show ?case by (subst (asm) load_pools.simps) (auto simp: Let_def and_then_Inr split: if_splits sum.splits)
next
  case (Cons p ps)
  let ?a = "getenv env (pool_var ''POOL_ADDRESS_'' i)" and ?s = "getenv env (pool_var ''POOL_PRIVATE_KEY_'' i)"
  have p: "?a = pa_address p \<and> pa_address p \<noteq> [] \<and> parse_full k ?s = Inr (pa_keypair p) \<and> kp_address (pa_keypair p) = pa_address p"
    and ps: "load_pools k env (Suc i) = Inr ps"
    using Cons.prems by (subst (asm) load_pools.simps, auto simp: Let_def and_then_Inr split: if_splits sum.splits)+
  show ?case
  proof (intro conjI allI impI)
    fix j assume "j < length (p # ps)"
    then show "getenv env (pool_var ''POOL_ADDRESS_'' (i + j)) = pa_address ((p # ps) ! j)"
      and "pa_address ((p # ps) ! j) \<noteq> []"
      and "parse_full k (getenv env (pool_var ''POOL_PRIVATE_KEY_'' (i + j))) = Inr (pa_keypair ((p # ps) ! j))"
      and "kp_address (pa_keypair ((p # ps) ! j)) = pa_address ((p # ps) ! j)"
      using Cons.IH [OF ps] p by (cases j; simp)+
  next
    show "getenv env (pool_var ''POOL_ADDRESS_'' (i + length (p # ps))) = [] \<or>
        getenv env (pool_var ''POOL_PRIVATE_KEY_'' (i + length (p # ps))) = []"
      using Cons.IH [OF ps] by simp
  qed
qed

lemma load_pools_length: "load_pools k env i = Inr ps \<Longrightarrow> length ps \<le> length env"
proof -
  assume l: "load_pools k env i = Inr ps"
  let ?v = "\<lambda>j. pool_var ''POOL_ADDRESS_'' (i + j)"
  have set: "?v j \<in> fst ` set env" if "j < length ps" for j
    by (rule getenv_set) (use load_pools_run [OF l] that in simp)
  have inj: "inj_on ?v {..<length ps}"
  proof (rule inj_onI)
    fix x y assume "?v x = ?v y"
    then show "x = y" using pool_var_inj [of "''POOL_ADDRESS_''" "i + x" "i + y"] by simp
  qed
  have "card {..<length ps} = card (?v ` {..<length ps})" by (rule card_image [OF inj, symmetric])
  also have "\<dots> \<le> card (fst ` set env)" by (rule card_mono) (use set in auto)
  also have "\<dots> \<le> length env" by (metis card_length set_map length_map)
  finally show "length ps \<le> length env" by simp
qed

text \<open>
  Reading the pool accounts ends, and reads what is there. Whatever the environment holds, the loop over
  \<open>POOL_ADDRESS_1\<close>, \<open>POOL_ADDRESS_2\<close>, \<dots> stops after at most as many rounds as there are variables; the accounts it
  returns are those of the indexes 1 to n without a gap, each with the key that belongs to its address, and
  the pair n + 1 is incomplete.
\<close>

lemma pools_read_to_first_gap:
  assumes "load_pools k env 1 = Inr ps"
  shows "length ps \<le> length env \<and>
    (\<forall>j < length ps. getenv env (pool_var ''POOL_ADDRESS_'' (j + 1)) = pa_address (ps ! j) \<and>
       kp_address (pa_keypair (ps ! j)) = pa_address (ps ! j) \<and>
       parse_full k (getenv env (pool_var ''POOL_PRIVATE_KEY_'' (j + 1))) = Inr (pa_keypair (ps ! j))) \<and>
    (getenv env (pool_var ''POOL_ADDRESS_'' (length ps + 1)) = [] \<or>
     getenv env (pool_var ''POOL_PRIVATE_KEY_'' (length ps + 1)) = [])"
  using load_pools_run [OF assms] load_pools_length [OF assms] by simp

section \<open>The deposit bridge's configuration\<close>

lemma channel_clash_None:
  "channel_clash recovery pools chs = None \<longleftrightarrow>
    (\<forall>ch \<in> set chs. ck_address ch \<noteq> recovery \<and> ck_address ch \<notin> pa_address ` set pools)"
proof (induction chs)
  case (Cons ch chs)
  have "List.find (\<lambda>p. ck_address ch = pa_address p) pools = None \<longleftrightarrow> ck_address ch \<notin> pa_address ` set pools"
    by (auto simp: find_None_list_ex list_ex_iff)
  then show ?case using Cons by (auto split: option.splits)
qed simp

lemma deposit_channels_apart:
  assumes "deposit_channels k env recovery pools = Inr chs"
  shows "\<forall>ch \<in> set chs. ck_address ch \<noteq> recovery \<and> ck_address ch \<notin> pa_address ` set pools"
  using assms
  by (auto simp: deposit_channels_def loaded Let_def channel_clash_None [symmetric] split: if_splits option.splits)

text \<open>An entry that the watcher can meet: the native asset, or a code of one to twelve letters and a valid issuer.\<close>

definition asset_entry :: "config_sdk \<Rightarrow> string \<Rightarrow> bool" where
  "asset_entry k a \<longleftrightarrow> a = ''native'' \<or>
     (\<exists>code issuer. a = code @ '':'' @ issuer \<and> code \<noteq> [] \<and> length code \<le> 12 \<and> valid_public_key k issuer)"

lemma cut_eq: "cut c s = (b, a, True) \<Longrightarrow> s = b @ c # a"
  by (induction s arbitrary: b a) (auto split: if_splits prod.splits)

lemma parse_assets_entries: "parse_assets k parts = Inr out \<Longrightarrow> \<forall>a \<in> set out. asset_entry k a"
proof (induction parts arbitrary: out)
  case (Cons p ps)
  obtain b a f where c: "cut CHR '':'' (trim_space p) = (b, a, f)" by (metis prod_cases3)
  show ?case
  proof (cases "trim_space p = ''native''")
    case True
    then obtain out' where "parse_assets k ps = Inr out'" "out = ''native'' # out'"
      using Cons.prems by (auto simp: and_then_Inr)
    then show ?thesis using Cons.IH by (simp add: asset_entry_def)
  next
    case False
    then obtain out' where o: "f" "b \<noteq> []" "length b \<le> 12" "valid_public_key k a" "parse_assets k ps = Inr out'"
        "out = trim_space p # out'"
      using Cons.prems c by (auto simp: and_then_Inr Let_def split: if_splits)
    then have "asset_entry k (trim_space p)" using cut_eq [of "CHR '':''" "trim_space p" b a] c by (auto simp: asset_entry_def)
    then show ?thesis using Cons.IH [OF o(5)] o(6) by simp
  qed
qed simp

lemma accepted_assets_entries:
  assumes "accepted_assets_of k raw pass = Inr out" "valid_public_key k usdc_issuer_mainnet" "valid_public_key k usdc_issuer_testnet"
  shows "\<forall>a \<in> set out. asset_entry k a"
proof (cases "trim_space raw = []")
  case True
  have "asset_entry k (''USDC:'' @ i)" if "valid_public_key k i" for i
    unfolding asset_entry_def using that by (intro disjI2 exI [of _ "''USDC''"] exI [of _ i]) simp
  moreover have "asset_entry k ''native''" by (simp add: asset_entry_def)
  ultimately show ?thesis using assms True
    by (simp add: accepted_assets_of_def split: if_splits) (metis append_Cons append_Nil list.set_cases empty_iff set_ConsD empty_set)+
qed (use assms parse_assets_entries in \<open>auto simp: accepted_assets_of_def\<close>)

text \<open>
  The bridge starts only with a configuration its parts can rely on. Whatever the environment, an accepted
  configuration has a bearer key of at least 32 characters, room for at least one request and one forward
  worker, at least one pool account (so an intent always gets one), keys that belong to their pool addresses, a
  recovery address, channel accounts that are neither a pool nor the recovery address, and accepted assets that are
  native or a code with a valid issuer.
\<close>

lemma deposit_config_sound:
  assumes "load_config k env = Inr c"
    and "valid_public_key k usdc_issuer_mainnet" "valid_public_key k usdc_issuer_testnet"
  shows "common_ok c \<and> dc_pools c \<noteq> [] \<and> dc_recovery c \<noteq> [] \<and> 1 \<le> forward_workers c \<and>
    (\<forall>p \<in> set (dc_pools c). kp_address (pa_keypair p) = pa_address p) \<and>
    (\<forall>ch \<in> set (dc_channels c). ck_address ch \<noteq> dc_recovery c \<and> ck_address ch \<notin> pa_address ` set (dc_pools c)) \<and>
    (\<forall>a \<in> set (dc_accepted c). asset_entry k a)"
proof -
  obtain common interval assets pools chans workers where
      l: "load_common k env ''4000'' ''latch_relayer'' = Inr common" "getenv env ''RECOVERY_ADDRESS'' \<noteq> []"
        "accepted_assets_of k (getenv env ''ACCEPTED_ASSETS'') (cc_passphrase common) = Inr assets"
        "load_pools k env 1 = Inr pools" "pools \<noteq> []"
        "deposit_channels k env (getenv env ''RECOVERY_ADDRESS'') pools = Inr chans" "\<not> workers < 1"
      and c: "c = common_config.extend common
        (deposit_config.fields (get_env env ''HORIZON_URL'' ''https://horizon-testnet.stellar.org'') pools
          (getenv env ''RECOVERY_ADDRESS'') assets chans (instance_name k env) interval workers)"
    using assms(1) unfolding load_config_def Let_def loaded by blast
  have "\<forall>p \<in> set pools. kp_address (pa_keypair p) = pa_address p"
    using load_pools_run [OF l(4)] by (metis in_set_conv_nth)
  moreover have "common_ok c"
    using load_common_ok [OF l(1)] unfolding c by (simp add: common_ok_def common_config.defs)
  ultimately show ?thesis
    using l deposit_channels_apart [OF l(6)] accepted_assets_entries [OF l(3) assms(2,3)]
    by (simp add: c common_config.defs deposit_config.defs)
qed

section \<open>The gasless service's configuration\<close>

lemma role_clash_None: "role_clash x f chs = None \<longleftrightarrow> (\<forall>ch \<in> set chs. ck_address ch \<noteq> x \<and> ck_address ch \<noteq> f)"
  by (induction chs) auto

lemma gasless_keys_apart:
  assumes "gasless_keys k env = Inr (xkp, fund, chans)"
  shows "kp_address xkp \<noteq> kp_address fund \<and> chans \<noteq> [] \<and>
    (\<forall>ch \<in> set chans. ck_address ch \<noteq> kp_address xkp \<and> ck_address ch \<noteq> kp_address fund)"
proof -
  obtain seed count where l: "kp_address xkp \<noteq> kp_address fund" "env_int env ''CHANNEL_COUNT'' 0 = Inr count" "count \<noteq> 0"
      "derive_channels (derive_path k) (from_raw_seed k) seed (nat count) = Inr chans"
      "role_clash (kp_address xkp) (kp_address fund) chans = None"
    using assms by (auto simp: gasless_keys_def loaded split: option.splits)
  have "0 < count" using env_int_nonneg [OF l(2)] l(3) by simp
  then have "length chans \<noteq> 0" using l(4) by (simp add: derive_channels_def derive_from_cases)
  then show ?thesis using l(1,5) by (auto simp: role_clash_None)
qed

definition forward_ok :: "config_sdk \<Rightarrow> forward_settings \<Rightarrow> bool" where
  "forward_ok k f \<longleftrightarrow> (usdc_contract f \<noteq> [] \<longrightarrow> valid_contract k (usdc_contract f)) \<and>
     1 \<le> fee_margin_bps f \<and> fee_margin_bps f \<le> 50000 \<and> 10 \<le> executor_auth_ledgers f \<and>
     1 \<le> fs_max_failures f \<and> 1 \<le> fs_max_in_flight f \<and> 0 < loss_alert f \<and> 0 \<le> sweep_alert f \<and>
     (xlm_usd_min f \<noteq> NaN \<longrightarrow> xlm_usd_max f \<noteq> NaN \<longrightarrow>
        float_less float_zero (xlm_usd_min f) \<and> float_less (xlm_usd_min f) (xlm_usd_max f) \<and>
        (float_less float_zero (xlm_usd_price f) \<longrightarrow>
           float_leq (xlm_usd_min f) (xlm_usd_price f) \<and> float_leq (xlm_usd_price f) (xlm_usd_max f)))"

lemma float_total: "a \<noteq> NaN \<Longrightarrow> b \<noteq> NaN \<Longrightarrow> \<not> float_less a b \<longleftrightarrow> float_leq b a"
  by (cases a; cases b) auto

lemma load_forward_ok:
  assumes "load_forward k sp env pass = Inr f"
  shows "forward_ok k f"
proof -
  let ?sweep = "get_env env ''FORWARDER_SWEEP_ALERT'' ''10''"
  let ?text = "''FORWARDER_SWEEP_ALERT must be a non-negative token amount, got '' @ go_quote ?sweep"
  let ?net = "if pass = public_passphrase k then ''public'' else ''testnet''"
  let ?url = "get_env env ''STELLAR_EXPERT_PRICE_URL'' (''https://api.stellar.expert/explorer/'' @ ?net @ ''/asset/XLM'')"
  obtain margin ledgers price low high stale failures hours flight loss where
      l: "\<not> (getenv env ''USDC_CONTRACT_ID'' \<noteq> [] \<and> \<not> valid_contract k (getenv env ''USDC_CONTRACT_ID''))"
        "env_int env ''FEE_MARGIN_BPS'' 2500 = Inr margin" "\<not> (margin < 0 \<or> margin > 50000)"
        "\<not> ledgers < 10" "env_float k env ''XLM_USD_MIN'' (Finite (1 / 100)) = Inr low"
        "env_float k env ''XLM_USD_MAX'' (Finite 10) = Inr high" "\<not> float_leq high low"
        "\<not> (float_less float_zero price \<and> (float_less price low \<or> float_less high price))"
        "\<not> failures \<le> 0" "\<not> flight \<le> 0"
        "env_xlm k env ''FORWARD_LOSS_ALERT_XLM_PER_DAY'' ''50'' = Inr loss"
      and rest: "(case parse_amount k ?sweep of None \<Rightarrow> Inl ?text
        | Some units \<Rightarrow> check (units < 0) ?text
          (Inr \<lparr>forward_enabled = (get_env env ''FORWARD_ENABLED'' ''true'' = ''true''),
             usdc_contract = getenv env ''USDC_CONTRACT_ID'', fee_margin_bps = margin, executor_auth_ledgers = ledgers,
             xlm_usd_price = price, stellar_expert_url = ?url, stellar_expert_key = getenv env ''STELLAR_EXPERT_API_KEY'',
             xlm_usd_min = low, xlm_usd_max = high, fs_price_max_stale = int64 (stale * minute), fs_max_failures = failures,
             fs_failure_window = int64 (hours * (60 * minute)), fs_max_in_flight = flight, loss_alert = loss,
             sweep_alert = units\<rparr>)) = Inr f"
    using assms unfolding load_forward_def Let_def loaded by blast
  obtain units where f: "0 \<le> units" "usdc_contract f = getenv env ''USDC_CONTRACT_ID''" "fee_margin_bps f = margin"
      "executor_auth_ledgers f = ledgers" "xlm_usd_price f = price" "xlm_usd_min f = low" "xlm_usd_max f = high"
      "fs_max_failures f = failures" "fs_max_in_flight f = flight" "loss_alert f = loss" "sweep_alert f = units"
    using rest by (cases "parse_amount k ?sweep") (auto simp: check_Inr)
  have "0 < margin" using env_int_pos [OF l(2)] by simp
  moreover have "low \<noteq> NaN \<Longrightarrow> float_less float_zero low" using env_float_pos [OF l(5)] by simp
  moreover have "low \<noteq> NaN \<Longrightarrow> high \<noteq> NaN \<Longrightarrow> float_less low high" using l(7) float_total by blast
  moreover have "price \<noteq> NaN" if "float_less float_zero price" using that by (cases price) (auto simp: float_zero_def)
  ultimately show ?thesis
    using l env_xlm_pos [OF l(11)] float_total by (auto simp: forward_ok_def f)
qed

definition gasless_ok :: "config_sdk \<Rightarrow> gasless_config \<Rightarrow> bool" where
  "gasless_ok k g \<longleftrightarrow> common_ok g \<and> valid_contract k (gc_forwarder g) \<and>
     kp_address (gc_executor g) \<noteq> kp_address (gc_funder g) \<and> gc_channels g \<noteq> [] \<and>
     (\<forall>ch \<in> set (gc_channels g). ck_address ch \<noteq> kp_address (gc_executor g) \<and> ck_address ch \<noteq> kp_address (gc_funder g)) \<and>
     0 < gc_funder_min g \<and> 0 < gc_channel_min g \<and> 0 < sponsor_max_tx g \<and> 0 < sponsor_max_wallet g \<and>
     0 < sponsor_max_day g \<and> 100 \<le> gc_max_inclusion g \<and> gc_max_inclusion g < 2 ^ 63 \<and> sync_wait g \<le> 25 * second \<and>
     forward_ok k (forward_settings g)"

lemma forbidden_None:
  "forbidden_var env = None \<longleftrightarrow> (\<forall>name \<in> fst ` set env. \<forall>p \<in> set forbidden_in_gasless. \<not> has_prefix p name)"
  unfolding forbidden_var_def find_None_list_ex list_ex_iff by (simp add: image_iff)

lemma load_gasless_ok:
  assumes "load_gasless k sp env = Inr g"
  shows "gasless_ok k g \<and> forbidden_var env = None"
proof -
  have free: "forbidden_var env = None" using assms by (auto simp: load_gasless_def split: option.splits)
  let ?calls = "getenv env ''SPONSORED_CALLS''" and ?fwd = "getenv env ''FEE_FORWARDER_CONTRACT_ID''"
  obtain common ks fund_min chan_min interval max_tx per_wallet per_day inclusion wait fwd where
      l: "load_common k env ''4001'' ''latch_gasless'' = Inr common" "\<not> \<not> valid_contract k ?fwd"
        "gasless_keys k env = Inr ks" "env_xlm k env ''FUNDER_MIN_XLM'' ''50'' = Inr fund_min"
        "env_xlm k env ''CHANNEL_MIN_XLM'' ''1'' = Inr chan_min"
        "\<not> max_tx \<le> 0" "env_xlm k env ''SPONSOR_MAX_XLM_PER_WALLET'' ''2'' = Inr per_wallet"
        "env_xlm k env ''SPONSOR_MAX_XLM_PER_DAY'' ''200'' = Inr per_day"
        "env_int env ''MAX_INCLUSION_FEE_STROOPS'' 20000 = Inr inclusion" "\<not> inclusion < 100"
        "load_forward k sp env (cc_passphrase common) = Inr fwd" "\<not> wait > 25 * second"
      and g: "Inr (common_config.extend common
         (gasless_config.fields ?fwd (fst ks) (fst (snd ks)) (snd (snd ks)) fund_min chan_min interval (instance_name k env) ?calls
           max_tx per_wallet per_day inclusion wait fwd)) = (Inr g :: string + gasless_config)"
    using assms unfolding load_gasless_def Let_def free option.case loaded case_prod_beta by blast
  have ks: "gasless_keys k env = Inr (fst ks, fst (snd ks), snd (snd ks))" using l(3) by simp
  show ?thesis
    using l load_common_ok [OF l(1)] gasless_keys_apart [OF ks] load_forward_ok [OF l(11)] free g
      env_xlm_pos [OF l(4)] env_xlm_pos [OF l(5)] env_xlm_pos [OF l(7)] env_xlm_pos [OF l(8)] env_int_bound [OF l(9)]
    by (auto simp: gasless_ok_def common_ok_def common_config.defs gasless_config.defs)
qed


text \<open>
  A setting the message allows and the loader does not: a margin of zero. And one the message does not allow and the
  loader accepts: a bound that is not a number.
\<close>

lemma zero_margin_refused: "getenv env ''FEE_MARGIN_BPS'' = ''0'' \<Longrightarrow> load_forward k sp env pass \<noteq> Inr f"
proof -
  assume v: "getenv env ''FEE_MARGIN_BPS'' = ''0''"
  have "parse_int64 ''0'' = Some 0" by (simp add: parse_int64_def parse_digits_def is_digit_def digits_value_def)
  then have "isl (env_int env ''FEE_MARGIN_BPS'' 2500)" using v by (simp add: env_int_def Let_def)
  then obtain m where "env_int env ''FEE_MARGIN_BPS'' 2500 = Inl m" by (auto simp: isl_def)
  then show ?thesis by (simp add: load_forward_def Let_def check_def or_else_def and_then_def)
qed

lemma nan_accepted: "parse_float k ''NaN'' = Some NaN \<Longrightarrow> getenv env key = ''NaN'' \<Longrightarrow> env_float k env key d = Inr NaN"
  by (simp add: env_float_def Let_def)

section \<open>Concrete environments\<close>

lemma parse_int64_code [code]:
  "parse_int64 s =
     (case s of
        [] \<Rightarrow> None
      | c # cs \<Rightarrow>
          if c = CHR ''-'' then
            (case parse_digits cs of None \<Rightarrow> None | Some n \<Rightarrow> if int n \<le> 9223372036854775808 then Some (- int n) else None)
          else
            (case parse_digits (if c = CHR ''+'' then cs else s) of
               None \<Rightarrow> None | Some n \<Rightarrow> if int n < 9223372036854775808 then Some (int n) else None))"
proof -
  have "n \<le> 2 ^ 63 \<longleftrightarrow> int n \<le> 9223372036854775808" "n < 2 ^ 63 \<longleftrightarrow> int n < 9223372036854775808" for n :: nat by simp_all
  then show ?thesis by (simp only: parse_int64_def)
qed

definition demo_config_sdk :: config_sdk where
  "demo_config_sdk =
     \<lparr>parse_float = (\<lambda>s. None), parse_amount = (\<lambda>s. Some 20000000), valid_contract = (\<lambda>s. True), valid_public_key = (\<lambda>s. True),
      parse_full = (\<lambda>s. Inr \<lparr>kp_address = ''G'' @ s, kp_seed = s\<rparr>),
      derive_path = (\<lambda>i s. Inr (show_int i)), from_raw_seed = (\<lambda>r. Inr \<lparr>kp_address = ''GCH'' @ r, kp_seed = r\<rparr>),
      public_passphrase = ''public'', test_passphrase = ''net'', default_instance = ''host-1''\<rparr>"

definition demo_common_env :: environment where
  "demo_common_env = [(''DATABASE_URL'', ''postgres://db''), (''RELAYER_API_KEY'', replicate 32 CHR ''k'')]"

definition demo_deposit_env :: environment where
  "demo_deposit_env = demo_common_env @ [(''RECOVERY_ADDRESS'', ''GREC''), (''POOL_ADDRESS_1'', ''G1''), (''POOL_PRIVATE_KEY_1'', ''1''),
     (''POOL_ADDRESS_2'', ''G2''), (''POOL_PRIVATE_KEY_2'', ''2''), (''POOL_ADDRESS_4'', ''G4'')]"

definition demo_gasless_env :: environment where
  "demo_gasless_env = demo_common_env @ [(''FEE_FORWARDER_CONTRACT_ID'', ''CFWD''), (''EXECUTOR_ADDRESS'', ''Gx''),
     (''EXECUTOR_PRIVATE_KEY'', ''x''), (''FUNDER_ADDRESS'', ''Gf''), (''FUNDER_PRIVATE_KEY'', ''f''),
     (''CHANNEL_SEED'', replicate 32 CHR ''a''), (''CHANNEL_COUNT'', ''2''), (''SPONSORED_CALLS'', ''wallet:add_signer'')]"


end
