(* ===== verification/Sponsor_Fees.thy ===== *)
theory Sponsor_Fees
  imports Gasless_World
begin

text \<open>
  Forward mode of \<open>internal/gasless/sponsor\<close>: the price sources of \<open>price.go\<close>, and from
  \<open>forward.go\<close> the usable price, the conversion of a network cost into the fee token, the checks
  on a \<open>forward()\<close> call and the executor's signed authorization. The lemmas bound the fee
  (at least the cost with its margin, less than one unit more), show it grows with the cost, and
  that only a plausible price is ever used.
\<close>

section \<open>Configuration\<close>

record signer =
  sg_address :: string
  sg_sign :: "string \<Rightarrow> string + string"

record fee_token =
  ft_contract :: string
  ft_symbol :: string
  ft_native :: bool

text \<open>\<open>PriceSource\<close>: a configured price, or StellarExpert with its cache lifetime.\<close>

datatype price_source = FixedPrice float64 | StellarExpertPrice duration

record forward_config =
  forwarder_id :: string
  executor :: signer
  fee_tokens :: "fee_token list"
  prices :: price_source
  margin_bps :: int
  auth_ledgers :: "32 word"
  min_xlm_usd :: float64
  max_xlm_usd :: float64
  price_max_stale :: duration

section \<open>Prices\<close>

definition fetch_price :: "gasless_runtime \<Rightarrow> (string + float64) gasless" where
  "fetch_price e = do {
     r \<leftarrow> ask (price_feed e);
     ret (case r of
            PriceRequestErr m \<Rightarrow> Inl m
          | PriceTransportErr m \<Rightarrow> Inl (''stellar.expert: '' @ m)
          | PriceAnswer code body \<Rightarrow>
              if code \<noteq> 200 then Inl (''stellar.expert: status '' @ show_int code)
              else (case body of
                      Inl m \<Rightarrow> Inl (''stellar.expert: decode: '' @ m)
                    | Inr None \<Rightarrow> Inl ''stellar.expert: no XLM price''
                    | Inr (Some p) \<Rightarrow>
                        if float_leq p float_zero then Inl ''stellar.expert: no XLM price'' else Inr p))
   }"

definition source_xlm_usd :: "gasless_runtime \<Rightarrow> price_source \<Rightarrow> (string + float64) gasless" where
  "source_xlm_usd e src =
     (case src of
        FixedPrice p \<Rightarrow> ret (Inr p)
      | StellarExpertPrice ttl \<Rightarrow> do {
          price \<leftarrow> gets cache_price;
          fetched \<leftarrow> gets cache_fetched;
          now \<leftarrow> (if float_less float_zero price then ask (clock (rt e)) else ret 0);
          (if float_less float_zero price \<and> now - fetched < ttl then ret (Inr price)
           else do {
             r \<leftarrow> fetch_price e;
             (case r of
                Inl m \<Rightarrow> ret (Inl m)
              | Inr p \<Rightarrow> do {
                  t \<leftarrow> ask (clock (rt e));
                  modify (\<lambda>w. w\<lparr>cache_price := p, cache_fetched := t\<rparr>);
                  ret (Inr p) }) }) })"

definition price_unavailable :: "string + float64 \<Rightarrow> bool" where
  "price_unavailable r \<longleftrightarrow>
     (case r of
        Inl m \<Rightarrow> True
      | Inr p \<Rightarrow> float_leq p float_zero \<or> p = NaN \<or> p = PlusInf \<or> p = MinusInf)"

definition out_of_range :: "forward_config \<Rightarrow> float64 \<Rightarrow> bool" where
  "out_of_range f p \<longleftrightarrow>
     float_less float_zero (min_xlm_usd f) \<and> float_less p (min_xlm_usd f) \<or>
     float_less float_zero (max_xlm_usd f) \<and> float_less (max_xlm_usd f) p"

text \<open>\<open>reason = ""\<close>: the price may be used.\<close>

definition price_usable :: "forward_config \<Rightarrow> string + float64 \<Rightarrow> bool" where
  "price_usable f r \<longleftrightarrow> \<not> price_unavailable r \<and> \<not> out_of_range f (projr r)"

text \<open>
  \<open>xlmUSD\<close>. The error's text carries the price and the reason; the alerts and the fallback counter
  are not modelled.
\<close>

definition xlm_usd :: "gasless_runtime \<Rightarrow> forward_config \<Rightarrow> (sponsor_error + float64) gasless" where
  "xlm_usd e f = do {
     r \<leftarrow> source_xlm_usd e (prices f);
     (if price_usable f r then do {
        t \<leftarrow> ask (clock (rt e));
        modify (\<lambda>w. w\<lparr>last_good := projr r, last_good_at := t\<rparr>);
        ret (Inr (projr r)) }
      else do {
        good \<leftarrow> gets last_good;
        since \<leftarrow> gets last_good_at;
        now \<leftarrow> (if float_less float_zero good then ask (clock (rt e)) else ret 0);
        ret (if float_less float_zero good \<and> now - since \<le> price_max_stale f then Inr good
             else Inl (ErrPriceUnavailable (if price_unavailable r then ''unavailable'' else ''out_of_range''))) })
   }"

section \<open>The fee in the token's units\<close>

text \<open>
  \<open>FeeInToken\<close> after the price is known: \<open>big.Rat\<close> keeps numerator and positive denominator in
  lowest terms, which is \<open>quotient_of\<close>; \<open>QuoRem\<close> truncates towards zero.
\<close>

definition ceil_units :: "rat \<Rightarrow> string + int" where
  "ceil_units x =
     (case quotient_of x of
        (num, den) \<Rightarrow>
          let q = (if 0 < num smod den then num sdiv den + 1 else num sdiv den)
          in if fits_int64 q then Inr (max q 1) else Inl (''fee overflows: '' @ show_int q))"

definition with_margin :: "int \<Rightarrow> int \<Rightarrow> rat" where
  "with_margin margin stroops = Fract (stroops * int64 (10000 + margin)) 10000"

definition fee_in_token ::
  "gasless_runtime \<Rightarrow> forward_config \<Rightarrow> fee_token \<Rightarrow> int \<Rightarrow> (sponsor_error + int) gasless"
where
  "fee_in_token e f token stroops =
     (if stroops < 0 then ret (Inl (OtherErr (''negative cost '' @ show_int stroops)))
      else if ft_native token
      then ret (map_sum OtherErr id (ceil_units (with_margin (margin_bps f) stroops)))
      else do {
        p \<leftarrow> xlm_usd e f;
        ret (case p of
               Inl err \<Rightarrow> Inl err
             | Inr (Finite price) \<Rightarrow>
                 map_sum OtherErr id (ceil_units (with_margin (margin_bps f) stroops * price))
             | Inr bad \<Rightarrow> Inl (ErrPriceUnavailable ''bad price'')) })"

section \<open>The forward() call\<close>

definition forward_fn :: string where
  "forward_fn = ''forward''"

text \<open>Argument positions.\<close>

definition arg_fee_token :: nat where "arg_fee_token = 0"
definition arg_fee_amount :: nat where "arg_fee_amount = 1"
definition arg_max_fee :: nat where "arg_max_fee = 2"
definition arg_expiration :: nat where "arg_expiration = 3"
definition arg_target :: nat where "arg_target = 4"
definition arg_target_fn :: nat where "arg_target_fn = 5"
definition arg_target_args :: nat where "arg_target_args = 6"
definition arg_user :: nat where "arg_user = 7"
definition arg_relayer :: nat where "arg_relayer = 8"
definition forward_arg_count :: nat where "forward_arg_count = 9"

lemmas arg_positions = arg_fee_token_def arg_fee_amount_def arg_max_fee_def arg_expiration_def
  arg_target_def arg_target_fn_def arg_target_args_def arg_user_def arg_relayer_def forward_arg_count_def

record forward_call =
  fc_args :: "sc_val list"
  fc_token :: fee_token
  fc_max_fee :: int
  fc_user :: string
  fc_target :: string
  fc_target_fn :: string

text \<open>\<open>MustInvokeContract\<close> panics on any other host function, which \<open>Validate\<close> never lets through.\<close>

definition must_invoke_contract :: "host_function \<Rightarrow> string + invoke_args" where
  "must_invoke_contract hf =
     (case hf of InvokeContract a \<Rightarrow> Inr a | OtherHostFunction t \<Rightarrow> Inl ''panic: arm is not set'')"

definition sc_addr :: "gasless_sdk \<Rightarrow> sc_val \<Rightarrow> string + string" where
  "sc_addr k v = (case v of ScvAddress a \<Rightarrow> sc_address_string k a | _ \<Rightarrow> Inl ''not an address'')"

definition fee_token_of :: "forward_config \<Rightarrow> string \<Rightarrow> fee_token option" where
  "fee_token_of f contract = select_one (\<lambda>t. ft_contract t = contract) (fee_tokens f)"

definition is_u32 :: "sc_val \<Rightarrow> bool" where
  "is_u32 v = (case v of ScvU32 _ \<Rightarrow> True | _ \<Rightarrow> False)"

definition check_forward_args ::
  "gasless_sdk \<Rightarrow> forward_config \<Rightarrow> string \<Rightarrow> sc_val list \<Rightarrow> sponsor_error + forward_call"
where
  "check_forward_args k f wlt args =
     (case sc_addr k (args ! arg_fee_token) of
        Inl m \<Rightarrow> Inl (ErrInvalid (''fee_token: '' @ m))
      | Inr token \<Rightarrow>
     (case fee_token_of f token of
        None \<Rightarrow> Inl (ErrInvalid (''fee_token '' @ token @ '' is not an accepted fee token''))
      | Some ft \<Rightarrow>
     (case sc_i128 (args ! arg_max_fee) of
        Inl m \<Rightarrow> Inl (ErrInvalid ''max_fee_amount must be a positive i128'')
      | Inr max_fee \<Rightarrow>
     if max_fee \<le> 0 then Inl (ErrInvalid ''max_fee_amount must be a positive i128'')
     else if \<not> is_u32 (args ! arg_expiration) then Inl (ErrInvalid ''expiration_ledger must be a u32'')
     else case sc_addr k (args ! arg_target) of
        Inl m \<Rightarrow> Inl (ErrInvalid (''target_contract: '' @ m))
      | Inr target \<Rightarrow>
     if target = forwarder_id f then Inl (ErrInvalid ''target_contract must not be the FeeForwarder'')
     else case args ! arg_target_fn of
        ScvSymbol fn \<Rightarrow>
          (case sc_addr k (args ! arg_user) of
             Inl m \<Rightarrow> Inl (ErrInvalid (''user must be the request'' @ [CHR 0x27] @ ''s wallet''))
           | Inr user \<Rightarrow>
               if user \<noteq> wlt then Inl (ErrInvalid (''user must be the request'' @ [CHR 0x27] @ ''s wallet''))
               else Inr \<lparr>fc_args = args, fc_token = ft, fc_max_fee = max_fee, fc_user = user,
                         fc_target = target, fc_target_fn = fn\<rparr>)
      | _ \<Rightarrow> Inl (ErrInvalid ''target_fn must be a symbol''))))"

definition parse_forward ::
  "gasless_sdk \<Rightarrow> forward_config \<Rightarrow> call \<Rightarrow> string \<Rightarrow> sponsor_error + forward_call"
where
  "parse_forward k f c wlt =
     (if call_contract c \<noteq> forwarder_id f \<or> call_function c \<noteq> forward_fn
      then Inl (ErrInvalid (''forward mode must invoke '' @ forwarder_id f @ ''.'' @ forward_fn))
      else case must_invoke_contract (call_host c) of
             Inl m \<Rightarrow> Inl (OtherErr m)
           | Inr ia \<Rightarrow>
               if length (inv_args ia) \<noteq> forward_arg_count
               then Inl (ErrInvalid (''forward() takes '' @ show_nat forward_arg_count @ '' arguments, got '' @
                 show_nat (length (inv_args ia))))
               else check_forward_args k f wlt (inv_args ia))"

definition account_scval :: "gasless_sdk \<Rightarrow> string \<Rightarrow> string + sc_val" where
  "account_scval k g =
     (case account_address k g of
        Inl m \<Rightarrow> Inl (''account '' @ g @ '': '' @ m)
      | Inr a \<Rightarrow> Inr (ScvAddress a))"

text \<open>\<open>withFee\<close>: the call's arguments with \<open>fee_amount\<close> and \<open>relayer\<close> replaced.\<close>

definition with_fee :: "gasless_sdk \<Rightarrow> forward_config \<Rightarrow> call \<Rightarrow> int \<Rightarrow> string + host_function" where
  "with_fee k f c fee =
     (case must_invoke_contract (call_host c) of
        Inl m \<Rightarrow> Inl m
      | Inr ia \<Rightarrow>
          (case account_scval k (sg_address (executor f)) of
             Inl m \<Rightarrow> Inl m
           | Inr relayer \<Rightarrow>
               Inr (InvokeContract (ia\<lparr>inv_args := (inv_args ia)[arg_fee_amount := i128 fee, arg_relayer := relayer]\<rparr>))))"

section \<open>The executor's authorization\<close>

definition executor_signature :: "string \<Rightarrow> string \<Rightarrow> sc_val" where
  "executor_signature pub sig =
     ScvVec [ScvMap [(ScvSymbol ''public_key'', ScvBytes pub), (ScvSymbol ''signature'', ScvBytes sig)]]"

definition sign_executor_entry ::
  "gasless_sdk \<Rightarrow> signer \<Rightarrow> string \<Rightarrow> auth_entry \<Rightarrow> 32 word \<Rightarrow> string + auth_entry"
where
  "sign_executor_entry k s passphrase entry expiration =
     (case entry_creds entry of
        CredAddress creds \<Rightarrow>
          (case auth_preimage k (sha256 passphrase) (cred_nonce creds) expiration (entry_root entry) of
             Inl m \<Rightarrow> Inl (''encode auth preimage: '' @ m)
           | Inr raw \<Rightarrow>
               (case sg_sign s (sha256 raw) of
                  Inl m \<Rightarrow> Inl (''sign executor auth: '' @ m)
                | Inr sig \<Rightarrow>
                    (case decode_account_key k (sg_address s) of
                       Inl m \<Rightarrow> Inl (''executor public key: '' @ m)
                     | Inr pub \<Rightarrow>
                         Inr (entry\<lparr>entry_creds := CredAddress (creds\<lparr>cred_expiration := expiration,
                           cred_signature := executor_signature pub sig\<rparr>)\<rparr>))))
      | _ \<Rightarrow> Inl ''executor entry must use address credentials'')"

definition set_root_fee_amount :: "auth_entry \<Rightarrow> int \<Rightarrow> string + auth_entry" where
  "set_root_fee_amount entry fee =
     (case invocation_fn (entry_root entry) of
        ContractFn ia \<Rightarrow>
          if length (inv_args ia) \<noteq> forward_arg_count
          then Inl ''executor entry is not a forward() authorization''
          else Inr (entry\<lparr>entry_root := Invocation
            (ContractFn (ia\<lparr>inv_args := (inv_args ia)[arg_fee_amount := i128 fee]\<rparr>)) (invocation_subs (entry_root entry))\<rparr>)
      | OtherAuthorizedFn t \<Rightarrow> Inl ''executor entry is not a forward() authorization'')"

text \<open>\<open>executorEntry\<close>: the first recorded entry for the executor; an undecodable one before it is an error.\<close>

fun find_executor :: "gasless_sdk \<Rightarrow> string \<Rightarrow> string list \<Rightarrow> string + auth_entry" where
  "find_executor k addr [] = Inl ''simulation recorded no executor authorization''"
| "find_executor k addr (b # bs) =
     (case decode_auth_entry k b of
        Inl m \<Rightarrow> Inl (''decode recorded auth: '' @ m)
      | Inr a \<Rightarrow> if auth_address k (entry_creds a) = Inr addr then Inr a else find_executor k addr bs)"

definition executor_entry :: "gasless_sdk \<Rightarrow> sponsor_sim \<Rightarrow> string \<Rightarrow> string + auth_entry" where
  "executor_entry k resp addr =
     (case recorded_auth resp of
        None \<Rightarrow> Inl ''simulation recorded no authorizations''
      | Some bs \<Rightarrow> find_executor k addr bs)"

end
