(* ===== verification/Sponsor_Submit.thy ===== *)
theory Sponsor_Submit
  imports Sponsor_Fees Chain
begin

text \<open>
  \<open>internal/gasless/sponsor/submitter.go\<close>, the quote of \<open>price.go\<close> and \<open>resolver.go\<close>: \<open>prepare\<close>
  validates, simulates and reserves; \<open>sponsor_attempt\<close> runs one lease; \<open>sponsor_submit\<close> is \<open>Run\<close>; the
  resolver settles what a crash or a lost answer left open. Every call that leaves the process
  is an external question, as in the bridge.
\<close>

section \<open>Configuration and constants\<close>

record sponsor_config =
  sc_instance :: string
  sc_channel_keys :: "string \<Rightarrow> keypair option"
  funder :: signer
  passphrase :: string
  sc_policy :: policy
  sc_limits :: limits
  max_inclusion_fee :: int
  relayer_accounts :: "string list"
  sc_forward :: "forward_config option"

definition lease_ttl :: duration where "lease_ttl = 3 * minute"
definition lease_wait :: duration where "lease_wait = 10 * second"
definition sponsor_validity :: duration where "sponsor_validity = 2 * minute"
definition poll_timeout :: duration where "poll_timeout = 60 * second"
definition sponsor_try_again :: nat where "sponsor_try_again = 5"
definition sponsor_fee_retries :: nat where "sponsor_fee_retries = 2"
definition max_lease_retries :: nat where "max_lease_retries = 3"
definition ledger_time :: duration where "ledger_time = 5 * second"

text \<open>\<open>MaxResourceFeeStroops\<close>.\<close>

definition max_resource_fee :: int where
  "max_resource_fee = 1000000000"

section \<open>Simulation\<close>

text \<open>\<open>envelope\<close>: \<open>None\<close> for the Soroban data is the simulation's.\<close>

definition sponsor_envelope ::
  "gasless_sdk \<Rightarrow> string \<Rightarrow> int \<Rightarrow> call \<Rightarrow> soroban_data option \<Rightarrow> int \<Rightarrow> instant \<Rightarrow> string + tx_envelope"
where
  "sponsor_envelope k source s c sd inclusion valid_until =
     (case set_address_error (base_sdk k) source of
        Some m \<Rightarrow> Inl (''source account: '' @ m)
      | None \<Rightarrow>
          (let fee = (case sd of None \<Rightarrow> inclusion | Some d \<Rightarrow> int64 (inclusion + resource_fee d))
           in if fee > 2 ^ 32 - 1 then Inl (''fee '' @ show_int fee @ '' overflows a transaction fee'')
              else Inr \<lparr>env_source = source, env_seq = s,
                        env_ops = [InvokeHostFunction (call_host c) (call_auth c)], env_memo = None,
                        env_fee = word_of_int fee, env_max_time = unix_seconds valid_until, env_soroban = sd\<rparr>))"

definition simulate_raw ::
  "gasless_runtime \<Rightarrow> gasless_sdk \<Rightarrow> sponsor_config \<Rightarrow> call \<Rightarrow> auth_mode \<Rightarrow> (sponsor_error + sponsor_sim) gasless"
where
  "simulate_raw e k cfg c am = do {
     now \<leftarrow> ask (clock (rt e));
     (case sponsor_envelope k (sg_address (funder cfg)) 0 c None min_base_fee (now + sponsor_validity) of
        Inl m \<Rightarrow> ret (Inl (OtherErr m))
      | Inr env \<Rightarrow>
          (case marshal_base64 (base_sdk k) env of
             Inl m \<Rightarrow> ret (Inl (OtherErr (''encode simulation: '' @ m)))
           | Inr b64 \<Rightarrow> do {
               r \<leftarrow> ask (\<lambda>n. sponsor_simulate e n b64 am);
               ret (case r of
                      Inl m \<Rightarrow> Inl (OtherErr (''simulate: '' @ m))
                    | Inr resp \<Rightarrow>
                        if sim_error resp \<noteq> [] then Inl (ErrSimulation (sim_error resp))
                        else if restore_preamble resp
                        then Inl (ErrSimulation ''contract state is archived and must be restored first'')
                        else Inr resp) }))
   }"

definition simulate ::
  "gasless_runtime \<Rightarrow> gasless_sdk \<Rightarrow> sponsor_config \<Rightarrow> call \<Rightarrow> (sponsor_error + soroban_data) gasless"
where
  "simulate e k cfg c = do {
     r \<leftarrow> simulate_raw e k cfg c AuthModeEnforce;
     ret (case r of
            Inl err \<Rightarrow> Inl err
          | Inr resp \<Rightarrow>
              (case decode_soroban_data (base_sdk k) (sim_data_xdr resp) of
                 Decoded sd \<Rightarrow> Inr sd
               | BadBase64 m \<Rightarrow> Inl (ErrSimulation (''decode transaction data: '' @ m))
               | BadXDR m \<Rightarrow> Inl (ErrSimulation (''decode transaction data: '' @ m))))
   }"

section \<open>Fees\<close>

definition inclusion_fee :: "gasless_runtime \<Rightarrow> sponsor_config \<Rightarrow> int gasless" where
  "inclusion_fee e cfg = do {
     r \<leftarrow> ask (fee_stats e);
     ret (min (case r of Inl m \<Rightarrow> min_base_fee | Inr p90 \<Rightarrow> max min_base_fee (int64 p90)) (max_inclusion_fee cfg))
   }"

definition max_bid :: "sponsor_config \<Rightarrow> int \<Rightarrow> int" where
  "max_bid cfg resource =
     (if resource > int64 (max_int64 - int64 (2 * max_inclusion_fee cfg)) then max_int64
      else int64 (int64 (2 * max_inclusion_fee cfg) + resource))"

definition fee_for ::
  "gasless_runtime \<Rightarrow> forward_config \<Rightarrow> forward_call \<Rightarrow> int \<Rightarrow> int \<Rightarrow> (sponsor_error + int) gasless"
where
  "fee_for e f fc inclusion resource =
     (if resource < 0 \<or> resource > max_resource_fee
      then ret (Inl (ErrSimulation (''implausible resource fee '' @ show_int resource)))
      else do {
        r \<leftarrow> fee_in_token e f (fc_token fc) (int64 (int64 (2 * inclusion) + resource));
        ret (case r of
               Inl err \<Rightarrow> Inl err
             | Inr fee \<Rightarrow>
                 if fee > fc_max_fee fc
                 then Inl (ErrFeeTooLow (''needs '' @ show_int fee @ '' '' @ ft_symbol (fc_token fc) @
                   '' units, user allowed '' @ show_int (fc_max_fee fc)))
                 else Inr fee) })"

definition with_executor ::
  "gasless_sdk \<Rightarrow> sponsor_config \<Rightarrow> forward_config \<Rightarrow> call \<Rightarrow> auth_entry \<Rightarrow> int \<Rightarrow> 32 word \<Rightarrow> sponsor_error + call"
where
  "with_executor k cfg f c recorded fee expiration =
     (case with_fee k f c fee of
        Inl m \<Rightarrow> Inl (OtherErr m)
      | Inr hf \<Rightarrow>
     (case set_root_fee_amount recorded fee of
        Inl m \<Rightarrow> Inl (ErrSimulation m)
      | Inr entry \<Rightarrow>
     (case sign_executor_entry k (executor f) (passphrase cfg) entry expiration of
        Inl m \<Rightarrow> Inl (OtherErr m)
      | Inr se \<Rightarrow> Inr (c\<lparr>call_host := hf, call_auth := call_auth c @ [se]\<rparr>))))"

text \<open>The steps of \<open>priceForward\<close> after the first estimate: probe in enforce mode, price, sign again.\<close>

definition price_enforced ::
  "gasless_runtime \<Rightarrow> gasless_sdk \<Rightarrow> sponsor_config \<Rightarrow> forward_config \<Rightarrow> call \<Rightarrow> forward_call \<Rightarrow> int \<Rightarrow>
   auth_entry \<Rightarrow> int \<Rightarrow> 32 word \<Rightarrow> (sponsor_error + call \<times> user_fee) gasless"
where
  "price_enforced e k cfg f c fc inclusion recorded estimate expiration =
     (case with_executor k cfg f c recorded estimate expiration of
        Inl err \<Rightarrow> ret (Inl err)
      | Inr probe \<Rightarrow> do {
          enforced \<leftarrow> simulate_raw e k cfg probe AuthModeEnforce;
          (case enforced of
             Inl err \<Rightarrow> ret (Inl err)
           | Inr resp \<Rightarrow> do {
               r \<leftarrow> fee_for e f fc inclusion (min_resource_fee resp);
               ret (case r of
                      Inl err \<Rightarrow> Inl err
                    | Inr fee \<Rightarrow>
                        (case with_executor k cfg f c recorded fee expiration of
                           Inl err \<Rightarrow> Inl err
                         | Inr out \<Rightarrow>
                             Inr (out, \<lparr>uf_token = ft_contract (fc_token fc), uf_symbol = ft_symbol (fc_token fc),
                               uf_amount = fee\<rparr>))) }) })"

definition price_forward ::
  "gasless_runtime \<Rightarrow> gasless_sdk \<Rightarrow> sponsor_config \<Rightarrow> forward_config \<Rightarrow> call \<Rightarrow> forward_call \<Rightarrow> int \<Rightarrow>
   (sponsor_error + call \<times> user_fee) gasless"
where
  "price_forward e k cfg f c fc inclusion =
     (case with_fee k f c (fc_max_fee fc) of
        Inl m \<Rightarrow> ret (Inl (OtherErr m))
      | Inr placeholder \<Rightarrow> do {
          r \<leftarrow> simulate_raw e k cfg
            \<lparr>call_contract = [], call_function = [], call_host = placeholder, call_auth = []\<rparr> AuthModeRecord;
          (case r of
             Inl err \<Rightarrow> ret (Inl err)
           | Inr resp \<Rightarrow>
               (case executor_entry k resp (sg_address (executor f)) of
                  Inl m \<Rightarrow> ret (Inl (ErrSimulation m))
                | Inr recorded \<Rightarrow> do {
                    est \<leftarrow> fee_for e f fc inclusion (min_resource_fee resp);
                    (case est of
                       Inl err \<Rightarrow> ret (Inl err)
                     | Inr estimate \<Rightarrow> do {
                         latest \<leftarrow> ask (latest_ledger e);
                         (case latest of
                            Inl m \<Rightarrow> ret (Inl (OtherErr (''latest ledger: '' @ m)))
                          | Inr ledger \<Rightarrow>
                              price_enforced e k cfg f c fc inclusion recorded estimate (ledger + auth_ledgers f)) }) })) })"

section \<open>Prepare and Quote\<close>

record prepared_tx =
  pr_record :: sponsor_record
  pr_call :: call
  pr_data :: soroban_data
  pr_inclusion :: int

text \<open>\<open>Prepared{Record: rec}\<close>: the other fields keep their zero values.\<close>

definition known_request :: "sponsor_record \<Rightarrow> prepared_tx" where
  "known_request rc =
     \<lparr>pr_record = rc,
      pr_call = \<lparr>call_contract = [], call_function = [], call_host = OtherHostFunction [], call_auth = []\<rparr>,
      pr_data = \<lparr>resource_fee = 0, footprint = []\<rparr>, pr_inclusion = 0\<rparr>"

definition reserve_call ::
  "gasless_runtime \<Rightarrow> gasless_sdk \<Rightarrow> sponsor_config \<Rightarrow> request \<Rightarrow> call \<Rightarrow> string \<Rightarrow> string \<Rightarrow> user_fee option \<Rightarrow> int \<Rightarrow>
   (sponsor_error + prepared_tx \<times> bool) gasless"
where
  "reserve_call e k cfg req c contract fn fee inclusion = do {
     r \<leftarrow> simulate e k cfg c;
     (case r of
        Inl err \<Rightarrow> ret (Inl err)
      | Inr sd \<Rightarrow> do {
          v \<leftarrow> reserve e (sc_limits cfg)
            \<lparr>rsv_id = request_id req, rsv_payload = payload_hash req, rsv_wallet = wallet req, rsv_mode = mode req,
             rsv_contract = contract, rsv_function = fn, rsv_max_fee = max_bid cfg (resource_fee sd),
             rsv_user_fee = fee\<rparr>;
          ret (case v of
                 Inl err \<Rightarrow> Inl err
               | Inr (rc, existing) \<Rightarrow>
                   Inr (\<lparr>pr_record = rc, pr_call = c, pr_data = sd, pr_inclusion = inclusion\<rparr>, existing)) })
   }"

definition prepare_new ::
  "gasless_runtime \<Rightarrow> gasless_sdk \<Rightarrow> sponsor_config \<Rightarrow> request \<Rightarrow> call \<Rightarrow> (sponsor_error + prepared_tx \<times> bool) gasless"
where
  "prepare_new e k cfg req c = do {
     ok \<leftarrow> gets (\<lambda>w. snap_sponsorship_ok (snap w));
     (if \<not> ok then ret (Inl ErrUnavailable)
      else do {
        inclusion \<leftarrow> inclusion_fee e cfg;
        (case sc_forward cfg of
           Some f \<Rightarrow>
             if mode req = mode_forward then
               (case parse_forward k f c (wallet req) of
                  Inl err \<Rightarrow> ret (Inl err)
                | Inr fc \<Rightarrow> do {
                    p \<leftarrow> price_forward e k cfg f c fc inclusion;
                    (case p of
                       Inl err \<Rightarrow> ret (Inl err)
                     | Inr (c', fee) \<Rightarrow>
                         reserve_call e k cfg req c' (fc_target fc) (fc_target_fn fc) (Some fee) inclusion) })
             else reserve_call e k cfg req c (call_contract c) (call_function c) None inclusion
         | None \<Rightarrow> reserve_call e k cfg req c (call_contract c) (call_function c) None inclusion) })
   }"

definition prepare ::
  "gasless_runtime \<Rightarrow> gasless_sdk \<Rightarrow> sponsor_config \<Rightarrow> request \<Rightarrow> (sponsor_error + prepared_tx \<times> bool) gasless"
where
  "prepare e k cfg req =
     (case validate k (sc_policy cfg) (relayer_accounts cfg) (sc_forward cfg \<noteq> None) req of
        Inl err \<Rightarrow> ret (Inl err)
      | Inr c \<Rightarrow> do {
          g \<leftarrow> get_record e (request_id req);
          (case g of
             Inl m \<Rightarrow> ret (Inl (OtherErr m))
           | Inr (Some rc) \<Rightarrow>
               ret (if rec_payload rc \<noteq> payload_hash req then Inl ErrConflict else Inr (known_request rc, True))
           | Inr None \<Rightarrow> prepare_new e k cfg req c) })"

record quote =
  q_fee_forwarder :: string
  q_relayer :: string
  q_fee_token :: string
  q_symbol :: string
  q_max_fee_amount :: int

definition price_quote ::
  "gasless_runtime \<Rightarrow> sponsor_config \<Rightarrow> string \<Rightarrow> int \<Rightarrow> (sponsor_error + quote) gasless"
where
  "price_quote e cfg token resource =
     (case sc_forward cfg of
        None \<Rightarrow> ret (Inl ErrForwardNotBuilt)
      | Some f \<Rightarrow>
     (case fee_token_of f token of
        None \<Rightarrow> ret (Inl (ErrInvalid (''fee_token '' @ token @ '' is not an accepted fee token'')))
      | Some ft \<Rightarrow>
     if resource < 0 \<or> resource > max_resource_fee
     then ret (Inl (ErrInvalid (''resource_fee_stroops must be between 0 and '' @ show_int max_resource_fee)))
     else do {
       r \<leftarrow> fee_in_token e f ft (max_bid cfg resource);
       ret (case r of
              Inl err \<Rightarrow> Inl err
            | Inr fee \<Rightarrow>
                Inr \<lparr>q_fee_forwarder = forwarder_id f, q_relayer = sg_address (executor f),
                     q_fee_token = ft_contract ft, q_symbol = ft_symbol ft, q_max_fee_amount = fee\<rparr>) }))"

definition list_fee_tokens :: "sponsor_config \<Rightarrow> fee_token list option" where
  "list_fee_tokens cfg = map_option fee_tokens (sc_forward cfg)"

definition forward_addresses :: "sponsor_config \<Rightarrow> string \<times> string" where
  "forward_addresses cfg =
     (case sc_forward cfg of None \<Rightarrow> ([], []) | Some f \<Rightarrow> (forwarder_id f, sg_address (executor f)))"

section \<open>Results\<close>

definition sponsor_result_code :: "gasless_sdk \<Rightarrow> string \<Rightarrow> result_code option" where
  "sponsor_result_code k x =
     (if x = [] then None
      else case decode_result_xdr (base_sdk k) x of Decoded r \<Rightarrow> Some (effective_code r) | _ \<Rightarrow> None)"

definition fee_charged_of :: "gasless_sdk \<Rightarrow> string \<Rightarrow> int option" where
  "fee_charged_of k x =
     (if x = [] then None
      else case decode_result_xdr (base_sdk k) x of Decoded r \<Rightarrow> Some (fee_charged r) | _ \<Rightarrow> None)"

datatype send_kind = SentQueued | SentUnknown | RejectedBadSeq | RejectedFee | RejectedBusy | RejectedOther

record send_result =
  send_kind :: send_kind
  send_code :: string
  send_msg :: string

definition classify_rejection :: "gasless_sdk \<Rightarrow> string \<Rightarrow> send_result" where
  "classify_rejection k x =
     (case sponsor_result_code k x of
        None \<Rightarrow> \<lparr>send_kind = RejectedOther, send_code = ''rejected'',
                 send_msg = ''transaction rejected without a readable result''\<rparr>
      | Some TxBadSeq \<Rightarrow> \<lparr>send_kind = RejectedBadSeq, send_code = [], send_msg = []\<rparr>
      | Some TxInsufficientFee \<Rightarrow> \<lparr>send_kind = RejectedFee, send_code = [], send_msg = []\<rparr>
      | Some c \<Rightarrow> \<lparr>send_kind = RejectedOther, send_code = code_string (base_sdk k) c,
                   send_msg = ''transaction rejected: '' @ code_string (base_sdk k) c\<rparr>)"

fun status_text :: "tx_status \<Rightarrow> string" where
  "status_text TxSuccess = ''SUCCESS''"
| "status_text TxFailed = ''FAILED''"
| "status_text TxNotFound = ''NOT_FOUND''"
| "status_text (TxOtherStatus t) = t"

definition landed :: "gasless_sdk \<Rightarrow> string \<Rightarrow> tx_response \<Rightarrow> outcome" where
  "landed k x resp =
     (case tx_status resp of
        TxSuccess \<Rightarrow>
          \<lparr>out_status = Success, out_hash = x, out_fee = fee_charged_of k (result_xdr resp),
           out_error_code = [], out_error_message = []\<rparr>
      | TxFailed \<Rightarrow>
          (let code = (case sponsor_result_code k (result_xdr resp) of
                         None \<Rightarrow> ''tx_failed'' | Some c \<Rightarrow> code_string (base_sdk k) c)
           in \<lparr>out_status = Failed, out_hash = x, out_fee = fee_charged_of k (result_xdr resp),
               out_error_code = code, out_error_message = ''transaction failed on-chain: '' @ code\<rparr>)
      | st \<Rightarrow>
          \<lparr>out_status = Unconfirmed, out_hash = x, out_fee = None, out_error_code = ''poll_unconfirmed'',
           out_error_message = ''status '' @ status_text st\<rparr>)"

definition poll_sent :: "gasless_runtime \<Rightarrow> gasless_sdk \<Rightarrow> string \<Rightarrow> outcome gasless" where
  "poll_sent e k x = do {
     r \<leftarrow> ask (\<lambda>n. poll_transaction (rt e) n x);
     ret (case r of
            Inl m \<Rightarrow> \<lparr>out_status = Unconfirmed, out_hash = x, out_fee = None,
                      out_error_code = ''poll_unconfirmed'', out_error_message = m\<rparr>
          | Inr resp \<Rightarrow> landed k x resp)
   }"

section \<open>Sealing and sending\<close>

text \<open>
  \<open>signer.SignFeeBump\<close>: the signer signs the transaction's hash; the signature is recorded as the
  signer's address. \<open>keypair.ParseAddress\<close> decodes the account key for the hint.
\<close>

definition signer_sign_fee_bump ::
  "gasless_sdk \<Rightarrow> signer \<Rightarrow> string \<Rightarrow> fee_bump \<Rightarrow> string + fee_bump"
where
  "signer_sign_fee_bump k s pass fb =
     (case fb_hash_hex (base_sdk k) pass fb of
        Inl m \<Rightarrow> Inl (''hash fee-bump tx: '' @ m)
      | Inr h \<Rightarrow>
     (case sg_sign s h of
        Inl m \<Rightarrow> Inl (''sign as '' @ sg_address s @ '': '' @ m)
      | Inr sig \<Rightarrow>
     (case decode_account_key k (sg_address s) of
        Inl m \<Rightarrow> Inl m
      | Inr pub \<Rightarrow> Inr (fb\<lparr>fb_signers := fb_signers fb @ [sg_address s]\<rparr>))))"

definition sponsor_seal ::
  "gasless_sdk \<Rightarrow> sponsor_config \<Rightarrow> keypair \<Rightarrow> string \<Rightarrow> int \<Rightarrow> prepared_tx \<Rightarrow> int \<Rightarrow> instant \<Rightarrow> string + string \<times> string"
where
  "sponsor_seal k cfg channel addr s p inclusion valid_until =
     (case sponsor_envelope k addr s (pr_call p) (Some (pr_data p)) inclusion valid_until of
        Inl m \<Rightarrow> Inl m
      | Inr env \<Rightarrow>
     (case marshal_base64 (base_sdk k) env of
        Inl m \<Rightarrow> Inl (''encode inner: '' @ m)
      | Inr raw \<Rightarrow>
     (case tx_from_xdr (base_sdk k) raw of
        Inl m \<Rightarrow> Inl (''parse inner: '' @ m)
      | Inr None \<Rightarrow> Inl ''inner envelope is not a transaction''
      | Inr (Some tx) \<Rightarrow>
     (case sign_tx (base_sdk k) (passphrase cfg) [channel] tx of
        Inl m \<Rightarrow> Inl (''sign inner: '' @ m)
      | Inr inner \<Rightarrow>
     (case at_inner_rate (base_sdk k) (EnvTx inner) (sg_address (funder cfg)) of
        Inl m \<Rightarrow> Inl m
      | Inr outer \<Rightarrow>
     (case signer_sign_fee_bump k (funder cfg) (passphrase cfg) outer of
        Inl m \<Rightarrow> Inl (''sign fee-bump: '' @ m)
      | Inr fb \<Rightarrow>
     (case fb_base64 (base_sdk k) fb of
        Inl m \<Rightarrow> Inl (''encode fee-bump: '' @ m)
      | Inr b64 \<Rightarrow>
     (case fb_hash_hex (base_sdk k) (passphrase cfg) fb of
        Inl m \<Rightarrow> Inl (''hash fee-bump: '' @ m)
      | Inr x \<Rightarrow> Inr (b64, x)))))))))"

text \<open>\<open>SendTransaction\<close>, logging what the network may have taken.\<close>

definition sponsor_rpc_send ::
  "gasless_runtime \<Rightarrow> string \<Rightarrow> string \<Rightarrow> string \<Rightarrow> (string + send_response) gasless"
where
  "sponsor_rpc_send e i x b64 = do {
     r \<leftarrow> ask (\<lambda>n. send_transaction (rt e) n b64);
     (if may_be_queued r then modify (\<lambda>w. w\<lparr>accepted := accepted w @ [(i, x)]\<rparr>) else skip);
     ret r
   }"

text \<open>What one answer means; \<open>None\<close> is \<open>TRY_AGAIN_LATER\<close>, the loop's \<open>continue\<close>.\<close>

definition send_answer :: "gasless_sdk \<Rightarrow> string \<Rightarrow> string + send_response \<Rightarrow> send_result option" where
  "send_answer k x r =
     (case r of
        Inl m \<Rightarrow> Some \<lparr>send_kind = SentUnknown, send_code = [], send_msg = ''send '' @ x @ '': '' @ m\<rparr>
      | Inr resp \<Rightarrow>
          (case send_status resp of
             SendPENDING \<Rightarrow> Some \<lparr>send_kind = SentQueued, send_code = [], send_msg = []\<rparr>
           | SendDUPLICATE \<Rightarrow> Some \<lparr>send_kind = SentQueued, send_code = [], send_msg = []\<rparr>
           | SendTRY_AGAIN_LATER \<Rightarrow> None
           | SendERROR \<Rightarrow> Some (classify_rejection k (error_result_xdr resp))
           | SendOther st \<Rightarrow> Some \<lparr>send_kind = SentUnknown, send_code = [],
               send_msg = ''unknown send status '' @ st @ '' for '' @ x\<rparr>))"

text \<open>\<open>send\<close>: the number of attempts left; the first, with \<open>sponsor_try_again + 1\<close> left, does not wait.\<close>

fun sponsor_send ::
  "gasless_runtime \<Rightarrow> gasless_sdk \<Rightarrow> string \<Rightarrow> string \<Rightarrow> string \<Rightarrow> nat \<Rightarrow> send_result gasless"
where
  "sponsor_send e k i x b64 0 =
     ret \<lparr>send_kind = RejectedBusy, send_code = [],
          send_msg = ''TRY_AGAIN_LATER after '' @ show_nat sponsor_try_again @ '' resends''\<rparr>"
| "sponsor_send e k i x b64 (Suc n) = do {
     cancelled \<leftarrow> (if n = sponsor_try_again then ret False else ask (ctx_done (rt e)));
     (if cancelled
      then ret \<lparr>send_kind = RejectedBusy, send_code = [], send_msg = ''cancelled while the network was busy''\<rparr>
      else do {
        r \<leftarrow> sponsor_rpc_send e i x b64;
        (case send_answer k x r of None \<Rightarrow> sponsor_send e k i x b64 n | Some res \<Rightarrow> ret res) })
   }"

section \<open>Attempts\<close>

definition rejected :: "string \<Rightarrow> string \<Rightarrow> outcome" where
  "rejected code msg =
     \<lparr>out_status = Rejected, out_hash = [], out_fee = None, out_error_code = code, out_error_message = msg\<rparr>"

record attempt_result =
  at_outcome :: outcome
  at_retry :: bool
  at_inclusion :: int

definition no_retry :: "int \<Rightarrow> outcome \<Rightarrow> attempt_result" where
  "no_retry inclusion oc = \<lparr>at_outcome = oc, at_retry = False, at_inclusion = inclusion\<rparr>"

text \<open>The closure \<open>release\<close>: every path of \<open>attempt\<close> calls it once; its error is only logged.\<close>

definition release_lease :: "gasless_runtime \<Rightarrow> lease \<Rightarrow> int option \<Rightarrow> bool \<Rightarrow> unit gasless" where
  "release_lease e l consumed resync = do { _ \<leftarrow> release (rt e) l consumed resync; ret () }"

text \<open>
  The fee loop of \<open>attempt\<close>, with the number of fee retries left: the first pass has
  \<open>sponsor_fee_retries\<close> left.
\<close>

fun sponsor_fee_loop ::
  "gasless_runtime \<Rightarrow> gasless_sdk \<Rightarrow> sponsor_config \<Rightarrow> prepared_tx \<Rightarrow> keypair \<Rightarrow> lease \<Rightarrow> int \<Rightarrow> instant \<Rightarrow> nat \<Rightarrow> int \<Rightarrow>
   attempt_result gasless"
where
  "sponsor_fee_loop e k cfg p key l last_seq valid_until left inclusion =
     (let s = int64 (last_seq + 1); i = rec_id (pr_record p) in
      case sponsor_seal k cfg key (lease_address l) s p inclusion valid_until of
        Inl m \<Rightarrow> do {
          release_lease e l (Some last_seq) False;
          ret (no_retry inclusion (rejected ''build_failed'' m)) }
      | Inr (b64, x) \<Rightarrow> do {
          h \<leftarrow> set_hash e i x;
          (case h of
             Inl m \<Rightarrow> do {
               release_lease e l (Some last_seq) False;
               ret (no_retry inclusion (rejected ''store_failed'' m)) }
           | Inr _ \<Rightarrow> do {
               res \<leftarrow> sponsor_send e k i x b64 (Suc sponsor_try_again);
               (case send_kind res of
                  SentQueued \<Rightarrow> do {
                    oc \<leftarrow> poll_sent e k x;
                    (if out_status oc = Unconfirmed then release_lease e l None True
                     else release_lease e l (Some s) False);
                    ret (no_retry inclusion oc) }
                | SentUnknown \<Rightarrow> do {
                    release_lease e l None True;
                    ret (no_retry inclusion
                      \<lparr>out_status = Unconfirmed, out_hash = x, out_fee = None,
                       out_error_code = ''send_unconfirmed'', out_error_message = send_msg res\<rparr>) }
                | RejectedBadSeq \<Rightarrow> do {
                    release_lease e l None True;
                    ret \<lparr>at_outcome = \<lparr>out_status = Pending, out_hash = [], out_fee = None,
                           out_error_code = [], out_error_message = []\<rparr>,
                         at_retry = True, at_inclusion = inclusion\<rparr> }
                | RejectedFee \<Rightarrow>
                    (case left of
                       Suc left' \<Rightarrow>
                         if int64 (inclusion * 2) \<le> max_inclusion_fee cfg
                         then sponsor_fee_loop e k cfg p key l last_seq valid_until left' (int64 (inclusion * 2))
                         else do {
                           release_lease e l None True;
                           ret (no_retry inclusion
                             (rejected ''insufficient_fee'' ''network fee exceeds the configured maximum'')) }
                     | 0 \<Rightarrow> do {
                         release_lease e l None True;
                         ret (no_retry inclusion
                           (rejected ''insufficient_fee'' ''network fee exceeds the configured maximum'')) })
                | RejectedBusy \<Rightarrow> do {
                    release_lease e l (Some last_seq) False;
                    ret (no_retry inclusion (rejected ''network_busy'' (send_msg res))) }
                | RejectedOther \<Rightarrow> do {
                    release_lease e l (Some last_seq) False;
                    ret (no_retry inclusion (rejected (send_code res) (send_msg res))) }) }) })"

text \<open>The channel's last sequence number: the lease's, or the account's when it must be reloaded.\<close>

definition lease_last_seq ::
  "gasless_runtime \<Rightarrow> gasless_sdk \<Rightarrow> lease \<Rightarrow> (string + int) gasless"
where
  "lease_last_seq e k l =
     (if \<not> lease_needs_resync l then ret (Inr (lease_seq l))
      else do {
        r \<leftarrow> accounts e k [lease_address l];
        ret (case r of
               Inl m \<Rightarrow> Inl (''load channel '' @ lease_address l @ '': '' @ m)
             | Inr accts \<Rightarrow>
                 if \<not> acct_exists (accts (lease_address l))
                 then Inl (''load channel '' @ lease_address l @ '': <nil>'')
                 else Inr (acct_seq (accts (lease_address l)))) })"

definition sponsor_attempt ::
  "gasless_runtime \<Rightarrow> gasless_sdk \<Rightarrow> sponsor_config \<Rightarrow> prepared_tx \<Rightarrow> int \<Rightarrow> attempt_result gasless"
where
  "sponsor_attempt e k cfg p inclusion = do {
     a \<leftarrow> acquire_wait (rt e) (sc_instance cfg) lease_ttl lease_wait;
     (case a of
        Inl ErrPoolCapacity \<Rightarrow>
          ret (no_retry inclusion (rejected ''channels_busy'' ''every channel is busy; retry shortly''))
      | Inl err \<Rightarrow> ret (no_retry inclusion (rejected ''lease_failed'' (pool_error_string err)))
      | Inr l \<Rightarrow>
          (case sc_channel_keys cfg (lease_address l) of
             None \<Rightarrow> do {
               release_lease e l None True;
               ret (no_retry inclusion (rejected ''lease_failed'' (''no key for leased channel '' @ lease_address l))) }
           | Some key \<Rightarrow> do {
               sq \<leftarrow> lease_last_seq e k l;
               (case sq of
                  Inl m \<Rightarrow> do {
                    release_lease e l None True;
                    ret (no_retry inclusion (rejected ''lease_failed'' m)) }
                | Inr last_seq \<Rightarrow> do {
                    now \<leftarrow> ask (clock (rt e));
                    sponsor_fee_loop e k cfg p key l last_seq (truncate_second (now + sponsor_validity))
                      sponsor_fee_retries inclusion }) }))
   }"

section \<open>Run\<close>

text \<open>\<open>finish\<close>: the stored record, or one made from the outcome when it could not be stored.\<close>

definition sponsor_finish :: "gasless_runtime \<Rightarrow> string \<Rightarrow> outcome \<Rightarrow> sponsor_record gasless" where
  "sponsor_finish e i oc = do {
     r \<leftarrow> finish_record e i oc;
     ret (case r of
            Inl m \<Rightarrow>
              \<lparr>rec_id = i, rec_payload = [], rec_wallet = [], rec_mode = [], rec_status = out_status oc,
               rec_hash = out_hash oc, rec_fee_charged = out_fee oc, rec_error_code = out_error_code oc,
               rec_error_message = out_error_message oc, rec_user_fee = None, rec_created = zero_time,
               rec_updated = zero_time\<rparr>
          | Inr rc \<Rightarrow> rc)
   }"

fun lease_attempts ::
  "gasless_runtime \<Rightarrow> gasless_sdk \<Rightarrow> sponsor_config \<Rightarrow> prepared_tx \<Rightarrow> nat \<Rightarrow> int \<Rightarrow> outcome gasless"
where
  "lease_attempts e k cfg p 0 inclusion =
     ret (rejected ''sequence_contention''
       (''channel sequence was stale '' @ show_nat max_lease_retries @ '' times; nothing was charged''))"
| "lease_attempts e k cfg p (Suc n) inclusion = do {
     a \<leftarrow> sponsor_attempt e k cfg p inclusion;
     (if at_retry a then lease_attempts e k cfg p n (at_inclusion a) else ret (at_outcome a))
   }"

definition sponsor_submit ::
  "gasless_runtime \<Rightarrow> gasless_sdk \<Rightarrow> sponsor_config \<Rightarrow> prepared_tx \<Rightarrow> sponsor_record gasless"
where
  "sponsor_submit e k cfg p = do {
     oc \<leftarrow> lease_attempts e k cfg p max_lease_retries (pr_inclusion p);
     sponsor_finish e (rec_id (pr_record p)) oc
   }"

section \<open>The resolver\<close>

definition stale_after :: duration where
  "stale_after = poll_timeout + 30 * second"

definition loss_window :: duration where
  "loss_window = day"

text \<open>\<open>resolve\<close>: \<open>None\<close> leaves the record for the next tick.\<close>

definition resolve_stale :: "gasless_runtime \<Rightarrow> gasless_sdk \<Rightarrow> stale_record \<Rightarrow> outcome option gasless" where
  "resolve_stale e k r =
     (if stale_hash r = []
      then ret (Some (rejected ''abandoned'' ''stopped before sending; nothing was charged''))
      else do {
        resp \<leftarrow> ask (\<lambda>n. get_transaction (rt e) n (stale_hash r));
        (case resp of
           Inl m \<Rightarrow> ret None
         | Inr t \<Rightarrow>
             if tx_status t = TxNotFound then do {
               now \<leftarrow> ask (clock (rt e));
               ret (if now - stale_updated r > sponsor_validity + ledger_time
                    then Some \<lparr>out_status = Rejected, out_hash = stale_hash r, out_fee = None,
                      out_error_code = ''expired'',
                      out_error_message = ''never landed before its time bounds expired; nothing was charged''\<rparr>
                    else None) }
             else (let oc = landed k (stale_hash r) t
                   in ret (if out_status oc \<noteq> Unconfirmed then Some oc else None))) })"

fun resolve_all :: "gasless_runtime \<Rightarrow> gasless_sdk \<Rightarrow> stale_record list \<Rightarrow> unit gasless" where
  "resolve_all e k [] = ret ()"
| "resolve_all e k (r # rs) = do {
     oc \<leftarrow> resolve_stale e k r;
     (case oc of
        None \<Rightarrow> resolve_all e k rs
      | Some v \<Rightarrow> do { _ \<leftarrow> finish_record e (stale_id r) v; resolve_all e k rs })
   }"

text \<open>\<open>checkLoss\<close>: \<open>threshold\<close> is \<open>LossAlertStroops\<close>; whether to alert is kept, the alert is only logged.\<close>

definition check_loss :: "gasless_runtime \<Rightarrow> int \<Rightarrow> unit gasless" where
  "check_loss e threshold = do {
     r \<leftarrow> forward_loss e loss_window;
     (case r of
        Inl m \<Rightarrow> ret ()
      | Inr loss \<Rightarrow> modify (\<lambda>w. w\<lparr>loss_alerting := 0 < threshold \<and> threshold < loss\<rparr>))
   }"

definition resolver_tick :: "gasless_runtime \<Rightarrow> gasless_sdk \<Rightarrow> int \<Rightarrow> unit gasless" where
  "resolver_tick e k threshold = do {
     r \<leftarrow> stale e stale_after;
     (case r of Inl m \<Rightarrow> ret () | Inr rs \<Rightarrow> resolve_all e k rs);
     check_loss e threshold
   }"

end
