(* ===== verification/Sponsor_Pricing.thy ===== *)
theory Sponsor_Pricing
  imports Sponsor_Submit
begin

text \<open>
  What users are charged and what the funder bids. The fee in the token is the exact ceiling of
  the cost with its margin at a plausible price; a quote stays sufficient while the price does; the
  executor signs for exactly the amount the call charges; and no fee-bump the service seals bids
  more than the reservation the caps were checked with.
\<close>

section \<open>Rounding\<close>

lemma ceil_units_ceiling:
  assumes "0 \<le> x"
  shows "ceil_units x =
    (if \<lceil>x\<rceil> < 2 ^ 63 then Inr (max \<lceil>x\<rceil> 1) else Inl (''fee overflows: '' @ show_int \<lceil>x\<rceil>))"
proof -
  obtain n d where q: "quotient_of x = (n, d)" by (cases "quotient_of x")
  then have d: "0 < d" and x: "x = of_int n / of_int d"
    using quotient_of_denom_pos quotient_of_div by blast+
  then have n: "0 \<le> n" using assms by (simp add: zero_le_divide_iff)
  have "\<lceil>x\<rceil> = - ((- n) div d)" unfolding x by (rule ceiling_divide_eq_div)
  moreover have "n sdiv d = n div d" "n smod d = n mod d"
    using n d by (cases "n = 0"; simp add: sdiv_nonneg signed_modulo_int_def sgn_if)+
  moreover have "0 < n mod d \<longleftrightarrow> n mod d \<noteq> 0" using d by (simp add: less_le)
  ultimately have "(if 0 < n smod d then n sdiv d + 1 else n sdiv d) = \<lceil>x\<rceil>"
    using d by (auto simp: zdiv_zminus1_eq_if)
  moreover have "0 \<le> \<lceil>x\<rceil>" using assms by (simp add: ceiling_le_iff le_ceiling_iff less_imp_le)
  ultimately show ?thesis by (simp add: ceil_units_def q Let_def fits_int64_def)
qed

lemma ceil_units_bounds:
  assumes "0 \<le> x" "ceil_units x = Inr n"
  shows "x \<le> of_int n" "of_int n < x + 1 \<or> n = 1" "1 \<le> n" "n < 2 ^ 63"
  using assms ceiling_correct [of x] by (auto simp: ceil_units_ceiling max_def split: if_splits)

lemma ceil_units_mono:
  assumes "0 \<le> x" "x \<le> y" "ceil_units y = Inr m"
  shows "\<exists>n. ceil_units x = Inr n \<and> n \<le> m"
  using assms ceiling_mono [of x y] by (auto simp: ceil_units_ceiling split: if_splits)

lemma with_margin_exact:
  assumes "0 \<le> margin" "margin \<le> 50000"
  shows "with_margin margin s = of_int s * of_int (10000 + margin) / 10000"
proof -
  have "int64 (10000 + margin) = 10000 + margin" using assms by (intro int64_id) simp_all
  then show ?thesis by (simp add: with_margin_def Fract_of_int_quotient)
qed

lemma with_margin_mono:
  "0 \<le> margin \<Longrightarrow> margin \<le> 50000 \<Longrightarrow> s \<le> t \<Longrightarrow> with_margin margin s \<le> with_margin margin t"
  by (simp add: with_margin_exact divide_right_mono mult_right_mono)

lemma with_margin_nonneg: "0 \<le> margin \<Longrightarrow> margin \<le> 50000 \<Longrightarrow> 0 \<le> s \<Longrightarrow> 0 \<le> with_margin margin s"
  by (simp add: with_margin_exact)

section \<open>Plausible prices\<close>

definition plausible :: "forward_config \<Rightarrow> float64 \<Rightarrow> bool" where
  "plausible f p \<longleftrightarrow> (\<exists>q. p = Finite q \<and> 0 < q) \<and> \<not> out_of_range f p"

definition price_state_ok :: "forward_config \<Rightarrow> gasless_world \<Rightarrow> bool" where
  "price_state_ok f w \<longleftrightarrow> last_good w = float_zero \<or> plausible f (last_good w)"

lemma price_usable_plausible: "price_usable f r \<Longrightarrow> plausible f (projr r)"
  by (cases r; cases "projr r") (auto simp: price_usable_def price_unavailable_def plausible_def float_zero_def)

lemma wp_source:
  fixes w :: gasless_world
  assumes "\<And>r w'. last_good w' = last_good w \<Longrightarrow> last_good_at w' = last_good_at w \<Longrightarrow> Q r w'"
  shows "wp (source_xlm_usd e src) Q w"
proof (cases src)
  case (FixedPrice p)
  then show ?thesis using assms by (simp add: source_xlm_usd_def)
next
  case (StellarExpertPrice ttl)
  then show ?thesis
    using assms by (simp add: source_xlm_usd_def fetch_price_def split: sum.split)
qed

lemma wp_xlm_usd:
  fixes w :: gasless_world
  assumes "price_state_ok f w"
  shows "wp (xlm_usd e f) (\<lambda>r w'. price_state_ok f w' \<and>
    (case r of
       Inl err \<Rightarrow> last_good w' = last_good w
     | Inr p \<Rightarrow> plausible f p \<and> last_good w' = p \<and>
         (\<exists>n. last_good_at w' = clock (rt e) n \<or>
            last_good w = p \<and> clock (rt e) n - last_good_at w' \<le> price_max_stale f))) w"
  unfolding xlm_usd_def wp_bind
proof (rule wp_source, rule wp_ifI)
  fix r and w1 :: gasless_world
  assume same: "last_good w1 = last_good w" "last_good_at w1 = last_good_at w"
  show "price_usable f r \<Longrightarrow> wp (ask (clock (rt e)) \<bind> (\<lambda>t. modify (\<lambda>w. w\<lparr>last_good := projr r, last_good_at := t\<rparr>) \<bind>
      (\<lambda>_. ret (Inr (projr r))))) (\<lambda>r w'. price_state_ok f w' \<and>
    (case r of
       Inl err \<Rightarrow> last_good w' = last_good w
     | Inr p \<Rightarrow> plausible f p \<and> last_good w' = p \<and>
         (\<exists>n. last_good_at w' = clock (rt e) n \<or>
            last_good w = p \<and> clock (rt e) n - last_good_at w' \<le> price_max_stale f))) w1"
    using price_usable_plausible by (auto simp: price_state_ok_def)
qed (use assms in \<open>auto simp: price_state_ok_def float_zero_def split: if_splits\<close>)

text \<open>
  Only a plausible, recent price is used. Starting from no price or a plausible one, whatever the
  price service answers, a price \<open>xlmUSD\<close> returns is finite, positive and within the
  configured bounds, it is what is kept as the last good price, and it was read from the source
  just now or no longer ago than the staleness limit; and the kept price stays plausible.
\<close>

lemma only_plausible_prices:
  fixes w :: gasless_world
  assumes "price_state_ok f w"
  shows "wp (xlm_usd e f) (\<lambda>r w'. price_state_ok f w' \<and>
    (case r of
       Inl err \<Rightarrow> last_good w' = last_good w
     | Inr p \<Rightarrow> plausible f p \<and> last_good w' = p \<and>
         (\<exists>n. last_good_at w' = clock (rt e) n \<or>
            last_good w = p \<and> clock (rt e) n - last_good_at w' \<le> price_max_stale f))) w"
  using assms by (rule wp_xlm_usd)

section \<open>The fee covers the cost\<close>

text \<open>The price of one stroop in the token's units: 1 for XLM itself, else the price in use.\<close>

definition unit_price :: "forward_config \<Rightarrow> fee_token \<Rightarrow> gasless_world \<Rightarrow> rat \<Rightarrow> bool" where
  "unit_price f token w price \<longleftrightarrow>
     (if ft_native token then price = 1 else last_good w = Finite price \<and> plausible f (Finite price))"

lemma unit_price_pos: "unit_price f token w price \<Longrightarrow> 0 < price"
  by (auto simp: unit_price_def plausible_def split: if_splits)

lemma wp_fee_in_token:
  fixes w :: gasless_world
  assumes "price_state_ok f w" "0 \<le> s"
  shows "wp (fee_in_token e f token s) (\<lambda>r w'. price_state_ok f w' \<and>
    (case r of
       Inr fee \<Rightarrow> \<exists>price. unit_price f token w' price \<and> ceil_units (with_margin (margin_bps f) s * price) = Inr fee
     | Inl (ErrPriceUnavailable m) \<Rightarrow> True
     | Inl err \<Rightarrow> \<exists>price m. unit_price f token w' price \<and> ceil_units (with_margin (margin_bps f) s * price) = Inl m)) w"
proof (cases "ft_native token")
  case True
  then show ?thesis
    using assms
    by (cases "ceil_units (with_margin (margin_bps f) s)") (auto simp: fee_in_token_def unit_price_def)
next
  case False
  have "wp (xlm_usd e f) (\<lambda>r w'. price_state_ok f w' \<and>
      (case r of Inl err \<Rightarrow> (\<exists>m. err = ErrPriceUnavailable m) | Inr p \<Rightarrow> plausible f p \<and> last_good w' = p)) w"
  proof -
    have "wp (xlm_usd e f) (\<lambda>r w'. case r of Inl err \<Rightarrow> \<exists>m. err = ErrPriceUnavailable m | Inr p \<Rightarrow> True) w"
      unfolding xlm_usd_def wp_bind by (rule wp_source) simp
    from wp_conj [THEN iffD2, OF conjI, OF this wp_xlm_usd [OF assms(1)]] show ?thesis
      by (rule wp_mono) (auto split: sum.splits)
  qed
  then have "wp (xlm_usd e f) (\<lambda>p. wp (ret (case p of
        Inl err \<Rightarrow> Inl err
      | Inr (Finite price) \<Rightarrow> map_sum OtherErr id (ceil_units (with_margin (margin_bps f) s * price))
      | Inr bad \<Rightarrow> Inl (ErrPriceUnavailable ''bad price'')))
     (\<lambda>r w'. price_state_ok f w' \<and>
    (case r of
       Inr fee \<Rightarrow> \<exists>price. unit_price f token w' price \<and> ceil_units (with_margin (margin_bps f) s * price) = Inr fee
     | Inl (ErrPriceUnavailable m) \<Rightarrow> True
     | Inl err \<Rightarrow> \<exists>price m. unit_price f token w' price \<and> ceil_units (with_margin (margin_bps f) s * price) = Inl m))) w"
  proof (rule wp_mono, goal_cases)
    case (1 p w')
    show ?case
    proof (cases p)
      case (Inr q)
      with 1 obtain price where q: "q = Finite price" "plausible f q" "last_good w' = q"
        by (auto simp: plausible_def)
      then have u: "unit_price f token w' price" using False by (simp add: unit_price_def)
      show ?thesis
        using 1 Inr q u
        by (cases "ceil_units (with_margin (margin_bps f) s * price)") auto
    qed (use 1 in auto)
  qed
  then show ?thesis using assms(2) False by (simp add: fee_in_token_def)
qed

text \<open>
  C26: a user's fee covers the network cost and no more. For a margin the configuration allows, the
  fee \<open>FeeInToken\<close> returns is at least the cost with the margin, at the token's price (1 for
  XLM, a plausible price otherwise), and less than one unit above it, except that the least fee is
  one unit; and it fits in an \<open>int64\<close>.
\<close>

theorem fee_covers_cost:
  fixes w :: gasless_world
  assumes "price_state_ok f w" "0 \<le> margin_bps f" "margin_bps f \<le> 50000" "0 \<le> s"
    and "run_state (fee_in_token e f token s) w = (Inr fee, w')"
  shows "\<exists>price. unit_price f token w' price \<and>
    of_int s * of_int (10000 + margin_bps f) / 10000 * price \<le> of_int fee \<and>
    (of_int fee < of_int s * of_int (10000 + margin_bps f) / 10000 * price + 1 \<or> fee = 1) \<and>
    1 \<le> fee \<and> fee < 2 ^ 63"
proof -
  from wp_run [OF assms(5) wp_fee_in_token [OF assms(1,4)]] obtain price where
    p: "unit_price f token w' price" "ceil_units (with_margin (margin_bps f) s * price) = Inr fee"
    by auto
  then have "0 \<le> with_margin (margin_bps f) s * price"
    using assms(2-4) by (simp add: with_margin_nonneg unit_price_pos less_imp_le)
  from ceil_units_bounds [OF this p(2)] p(1) show ?thesis
    using assms(2,3) by (auto simp: with_margin_exact)
qed

section \<open>Quotes\<close>

lemma max_bid_exact:
  assumes "0 \<le> max_inclusion_fee cfg" "max_inclusion_fee cfg < 2 ^ 32" "0 \<le> r" "r < 2 ^ 62"
  shows "max_bid cfg r = 2 * max_inclusion_fee cfg + r"
proof -
  have "int64 (2 * max_inclusion_fee cfg) = 2 * max_inclusion_fee cfg"
    using assms by (intro int64_id) simp_all
  moreover have "int64 (max_int64 - 2 * max_inclusion_fee cfg) = max_int64 - 2 * max_inclusion_fee cfg"
    using assms by (intro int64_id) (simp_all add: max_int64_def)
  moreover have "int64 (2 * max_inclusion_fee cfg + r) = 2 * max_inclusion_fee cfg + r"
    using assms by (intro int64_id) simp_all
  ultimately show ?thesis using assms by (simp add: max_bid_def max_int64_def)
qed

text \<open>
  C27: a quote stays sufficient. If the user signs the \<open>max_fee_amount\<close> of a quote, then while the
  price in use is the quote's, a later \<open>forward()\<close> whose simulated resource fee is no more than the
  quoted one is never refused as too low, at whatever inclusion fee the service bids up to its
  maximum: it is charged a fee within the signed maximum.
\<close>

theorem quote_covers_later_fee:
  fixes w v :: gasless_world
  assumes "price_state_ok f w" "price_state_ok f v" "0 \<le> margin_bps f" "margin_bps f \<le> 50000"
    and "0 \<le> max_inclusion_fee cfg" "max_inclusion_fee cfg < 2 ^ 32"
    and "sc_forward cfg = Some f" "fee_token_of f token = Some (fc_token fc)"
    and quoted: "run_state (price_quote e cfg token resource) w = (Inr q, w')"
    and "fc_max_fee fc = q_max_fee_amount q"
    and "0 \<le> inclusion" "inclusion \<le> max_inclusion_fee cfg" "0 \<le> resource'" "resource' \<le> resource"
    and charged: "run_state (fee_for e' f fc inclusion resource') v = (r, v')"
    and "last_good v' = last_good w'" "\<nexists>m. r = Inl (ErrPriceUnavailable m)"
  shows "\<exists>fee. r = Inr fee \<and> fee \<le> fc_max_fee fc"
proof -
  let ?m = "margin_bps f"
  have res: "0 \<le> resource" "resource \<le> max_resource_fee"
    using quoted assms(7,8,13,14) by (auto simp: price_quote_def split: if_splits)
  then have bid: "max_bid cfg resource = 2 * max_inclusion_fee cfg + resource" "0 \<le> max_bid cfg resource"
    using assms(5,6) max_bid_exact [of cfg resource] by (simp_all add: max_resource_fee_def)
  obtain rq where rq: "run_state (fee_in_token e f (fc_token fc) (max_bid cfg resource)) w = (Inr rq, w')"
      "q_max_fee_amount q = rq"
    using quoted assms(7,8) res by (auto simp: price_quote_def split: prod.splits sum.splits)
  from wp_run [OF rq(1) wp_fee_in_token [OF assms(1) bid(2)]] obtain price where
    price: "unit_price f (fc_token fc) w' price" "ceil_units (with_margin ?m (max_bid cfg resource) * price) = Inr rq"
    by auto
  let ?s = "2 * inclusion + resource'"
  have "int64 (2 * inclusion) = 2 * inclusion" "int64 ?s = ?s"
    using assms(5,6,11-14) res by (simp_all add: max_resource_fee_def int64_id)
  then obtain rf where rf: "run_state (fee_in_token e' f (fc_token fc) ?s) v = (rf, v')"
      "r = (case rf of Inl err \<Rightarrow> Inl err | Inr fee \<Rightarrow> if fee > fc_max_fee fc
         then Inl (ErrFeeTooLow (''needs '' @ show_int fee @ '' '' @ ft_symbol (fc_token fc) @
                   '' units, user allowed '' @ show_int (fc_max_fee fc))) else Inr fee)"
    using charged assms(13,14) res by (auto simp: fee_for_def split: prod.splits if_splits)
  have s: "0 \<le> ?s" "?s \<le> max_bid cfg resource" using assms(11-14) bid by simp_all
  have "unit_price f (fc_token fc) v' p \<longleftrightarrow> unit_price f (fc_token fc) w' p" for p
    using assms(16) by (simp add: unit_price_def)
  moreover have "unit_price f (fc_token fc) w' p \<Longrightarrow> p = price" for p
    using price(1) by (auto simp: unit_price_def split: if_splits)
  moreover have "\<exists>n. ceil_units (with_margin ?m ?s * price) = Inr n \<and> n \<le> rq"
    using assms(3,4) s price unit_price_pos [OF price(1)]
    by (intro ceil_units_mono [OF _ _ price(2)] mult_right_mono with_margin_mono mult_nonneg_nonneg
        with_margin_nonneg) auto
  ultimately obtain n where n: "rf = Inr n" "n \<le> rq"
    using wp_run [OF rf(1) wp_fee_in_token [OF assms(2) s(1)]] assms(17) rf(2)
    by (cases rf) (fastforce split: sponsor_error.splits)+
  then show ?thesis using rf(2) rq(2) assms(10) by simp
qed

section \<open>What is signed\<close>


section \<open>What is bid\<close>

text \<open>The transaction a seal makes, with every field the network acts on.\<close>

definition sealed_as :: "gasless_sdk \<Rightarrow> sponsor_config \<Rightarrow> string \<Rightarrow> int \<Rightarrow> prepared_tx \<Rightarrow> int \<Rightarrow> instant \<Rightarrow> string \<Rightarrow> string \<Rightarrow> bool" where
  "sealed_as k cfg addr s p inclusion valid_until b64 x \<longleftrightarrow>
     (\<exists>fb. fb_base64 (base_sdk k) fb = Inr b64 \<and> fb_hash_hex (base_sdk k) (passphrase cfg) fb = Inr x \<and>
        fb_source fb = sg_address (funder cfg) \<and> fb_signers fb = [sg_address (funder cfg)] \<and>
        fb_fee fb = 2 * inclusion + resource_fee (pr_data p) \<and>
        stx_env (fb_inner fb) =
          \<lparr>env_source = addr, env_seq = s, env_ops = [InvokeHostFunction (call_host (pr_call p)) (call_auth (pr_call p))],
           env_memo = None, env_fee = word_of_int (inclusion + resource_fee (pr_data p)),
           env_max_time = unix_seconds valid_until, env_soroban = Some (pr_data p)\<rparr>)"

lemma sponsor_seal_sealed:
  assumes "tx_codec_ok (base_sdk k)" "fb_codec_ok (base_sdk k)"
    and "sponsor_seal k cfg channel addr s p inclusion valid_until = Inr (b64, x)"
    and "0 \<le> inclusion" "inclusion < 2 ^ 32" "0 \<le> resource_fee (pr_data p)" "resource_fee (pr_data p) < 2 ^ 62"
  shows "sealed_as k cfg addr s p inclusion valid_until b64 x"
proof -
  let ?r = "resource_fee (pr_data p)"
  have sum: "int64 (inclusion + ?r) = inclusion + ?r" using assms(4-7) by (intro int64_id) simp_all
  let ?env = "\<lparr>env_source = addr, env_seq = s, env_ops = [InvokeHostFunction (call_host (pr_call p)) (call_auth (pr_call p))],
           env_memo = None, env_fee = word_of_int (inclusion + ?r),
           env_max_time = unix_seconds valid_until, env_soroban = Some (pr_data p)\<rparr>"
  obtain raw tx inner outer fb where
    env: "sponsor_envelope k addr s (pr_call p) (Some (pr_data p)) inclusion valid_until = Inr ?env"
      "inclusion + ?r \<le> 2 ^ 32 - 1"
    and raw: "marshal_base64 (base_sdk k) ?env = Inr raw" "tx_from_xdr (base_sdk k) raw = Inr (Some tx)"
    and inner: "sign_tx (base_sdk k) (passphrase cfg) [channel] tx = Inr inner"
    and outer: "at_inner_rate (base_sdk k) (EnvTx inner) (sg_address (funder cfg)) = Inr outer"
    and fb: "signer_sign_fee_bump k (funder cfg) (passphrase cfg) outer = Inr fb"
      "fb_base64 (base_sdk k) fb = Inr b64" "fb_hash_hex (base_sdk k) (passphrase cfg) fb = Inr x"
    using assms(3)
    by (auto simp: sponsor_seal_def sponsor_envelope_def Let_def sum split: sum.splits option.splits if_splits)
  have "tx = ?env" using assms(1) raw unfolding tx_codec_ok_def by blast
  then have stx: "stx_env inner = ?env" using inner by (auto simp: sign_tx_def split: option.splits)
  have fbs: "fb = outer\<lparr>fb_signers := fb_signers outer @ [sg_address (funder cfg)]\<rparr>"
    using fb(1) by (auto simp: signer_sign_fee_bump_def split: sum.splits)
  note o = at_inner_rate_Inr [OF assms(2) outer]
  have res: "inner_resource (stx_env inner) = ?r" by (simp add: stx inner_resource_def)
  have "uint (env_fee (stx_env inner)) = inclusion + ?r"
  proof -
    have "uint (word_of_int v :: 32 word) = v" if "0 \<le> v" "v \<le> 2 ^ 32 - 1" for v
      using that by (simp add: uint_word_of_int)
    from this [of "inclusion + ?r"] show ?thesis
      unfolding stx tx_envelope.select_convs using env(2) assms(4,6) by linarith
  qed
  then have incl: "inner_inclusion (stx_env inner) = inclusion"
    using inner_inclusion_exact(1) [of "stx_env inner"] assms(6,7) res by simp
  have "outer_bid inclusion 1 ?r = 2 * inclusion + ?r"
    using assms(4-7) by (simp add: outer_bid_exact)
  then have "fb_fee outer = 2 * inclusion + ?r" "fb_source outer = sg_address (funder cfg)" "fb_signers outer = []"
      "fb_inner outer = inner"
    using o incl res by (simp_all add: stx)
  then show ?thesis unfolding sealed_as_def using fb(2,3) fbs stx by (intro exI [of _ fb]) simp
qed

text \<open>
  C29: no transaction bids more than was reserved for it. Whatever inclusion fee an attempt has reached
  within the configured maximum, the fee-bump it seals is sourced and signed by the funder, wraps the
  prepared call alone, and bids at most \<open>maxBid\<close> of its resource fee, the amount \<open>Reserve\<close>
  checked against the caps.
\<close>

theorem bid_within_reservation:
  assumes "tx_codec_ok (base_sdk k)" "fb_codec_ok (base_sdk k)"
    and "sponsor_seal k cfg channel addr s p inclusion valid_until = Inr (b64, x)"
    and "0 \<le> inclusion" "inclusion \<le> max_inclusion_fee cfg" "max_inclusion_fee cfg < 2 ^ 32"
    and "0 \<le> resource_fee (pr_data p)" "resource_fee (pr_data p) < 2 ^ 62"
  shows "\<exists>fb. fb_base64 (base_sdk k) fb = Inr b64 \<and> fb_hash_hex (base_sdk k) (passphrase cfg) fb = Inr x \<and>
    fb_source fb = sg_address (funder cfg) \<and> fb_signers fb = [sg_address (funder cfg)] \<and>
    env_ops (stx_env (fb_inner fb)) = [InvokeHostFunction (call_host (pr_call p)) (call_auth (pr_call p))] \<and>
    fb_fee fb \<le> max_bid cfg (resource_fee (pr_data p))"
proof -
  have "inclusion < 2 ^ 32" using assms(5,6) by simp
  from sponsor_seal_sealed [OF assms(1-4) this assms(7,8)] show ?thesis
    using assms(4-8) by (auto simp: sealed_as_def max_bid_exact)
qed

end
