(* ===== verification/Sponsor_Safety.thy ===== *)
theory Sponsor_Safety
  imports Sponsor_Pricing
begin

text \<open>
  What the attempts of one request leave behind. \<open>quiet\<close> relates worlds that agree on the records and
  on what the network may have taken; each function of an attempt gets a rule saying what it did to
  its own request, from \<open>none_sent\<close> to \<open>sole\<close> (one transaction, its hash on record before it was sent).
\<close>

declare sponsor_send.simps [simp del] sponsor_fee_loop.simps [simp del]

section \<open>Quiet calls\<close>

definition quiet :: "gasless_world \<Rightarrow> gasless_world \<Rightarrow> bool" where
  "quiet w w' \<longleftrightarrow> sponsored w' = sponsored w \<and> accepted w' = accepted w \<and> tick w \<le> tick w'"

lemma quiet_refl [simp]: "quiet w w"
  by (simp add: quiet_def)

lemma quiet_trans: "quiet u v \<Longrightarrow> quiet v w \<Longrightarrow> quiet u w"
  by (simp add: quiet_def)

lemma quiet_tick [simp]: "quiet w (w\<lparr>tick := Suc (tick w)\<rparr>)"
  by (simp add: quiet_def)

lemma run_acquire_quiet: "quiet w (snd (run_state (acquire e inst ttl) w))"
proof -
  have "wp (acquire e inst ttl) (\<lambda>_. quiet w) w"
    unfolding acquire_def wp_bind wp_ask
  proof (rule wp_sumI, goal_cases)
    case (2 t)
    show ?case unfolding wp_bind by (rule wp_db_stmt) (simp_all add: quiet_def)
  qed simp
  then show ?thesis by (simp add: wp_def case_prod_beta)
qed

lemma acquire_loop_quiet: "quiet w (snd (acquire_loop e inst ttl deadline earliest (w :: gasless_world)))"
proof (induction e inst ttl deadline earliest w rule: acquire_loop.induct)
  case (1 e inst ttl deadline earliest w)
  obtain r w1 where run: "run_state (acquire e inst ttl) w = (r, w1)" by fastforce
  have q: "quiet w w1" using run_acquire_quiet [of w e inst ttl] run by simp
  show ?case
    using 1 [OF run [symmetric] refl refl _ refl refl] q
    by (subst acquire_loop.simps) (auto simp: quiet_def Let_def run)
qed

lemma wp_acquire_wait_quiet: "wp (acquire_wait e inst ttl wait) (\<lambda>_. quiet w) w"
proof -
  have "quiet w (snd (acquire_loop e inst ttl d a (w\<lparr>tick := Suc (tick w)\<rparr>)))" for d a
    using acquire_loop_quiet [of "w\<lparr>tick := Suc (tick w)\<rparr>" e inst ttl d a] by (simp add: quiet_def)
  then show ?thesis by (simp add: acquire_wait_def) (simp add: wp_def case_prod_beta)
qed

lemma wp_release_quiet: "wp (release_lease e l c rs) (\<lambda>_. quiet w) w"
  unfolding release_lease_def release_def wp_bind
  by (rule wp_db_stmt) (simp_all add: quiet_def)

lemma wp_load_batches_quiet: "wp (load_batches e k keys bs out) (\<lambda>_. quiet w) w"
proof (induction bs arbitrary: out w)
  case (Cons b bs out w)
  have "wp (load_batches e k keys bs o1) (\<lambda>_. quiet w) (w\<lparr>tick := Suc (tick w)\<rparr>)" for o1
    by (rule wp_mono [OF Cons.IH]) (auto simp: quiet_def)
  then show ?case by (simp split: sum.split)
qed simp

lemma wp_last_seq_quiet: "wp (lease_last_seq e k l) (\<lambda>_. quiet w) w"
  unfolding lease_last_seq_def accounts_def
  using wp_load_batches_quiet by (auto split: sum.split intro!: wp_ifI)

section \<open>One request\<close>

definition none_sent :: "string \<Rightarrow> gasless_world \<Rightarrow> bool" where
  "none_sent i w \<longleftrightarrow> (\<forall>x. (i, x) \<notin> set (accepted w))"

definition sole :: "string \<Rightarrow> string \<Rightarrow> gasless_world \<Rightarrow> bool" where
  "sole i x w \<longleftrightarrow> (\<forall>y. (i, y) \<in> set (accepted w) \<longleftrightarrow> y = x)"

text \<open>Everything but request \<open>i\<close> is as it was.\<close>

definition touches :: "string \<Rightarrow> gasless_world \<Rightarrow> gasless_world \<Rightarrow> bool" where
  "touches i w w' \<longleftrightarrow>
     (\<forall>j. j \<noteq> i \<longrightarrow> sponsor_row_of (sponsored w') j = sponsor_row_of (sponsored w) j \<and>
        (\<forall>x. (j, x) \<in> set (accepted w') \<longleftrightarrow> (j, x) \<in> set (accepted w))) \<and>
     map rq_id (sponsored w') = map rq_id (sponsored w) \<and> tick w \<le> tick w'"

lemma touches_refl [simp]: "touches i w w"
  by (simp add: touches_def)

lemma touches_trans: "touches i u v \<Longrightarrow> touches i v w \<Longrightarrow> touches i u w"
  by (simp add: touches_def)

lemma quiet_touches: "quiet w w' \<Longrightarrow> touches i w w'"
  by (simp add: quiet_def touches_def)

text \<open>The row of the request, pending, with the columns \<open>Reserve\<close> wrote.\<close>

definition open_row :: "string \<Rightarrow> gasless_world \<Rightarrow> bool" where
  "open_row i w \<longleftrightarrow> (\<exists>r. sponsor_row_of (sponsored w) i = Some r \<and> rq_status r = Pending)"

definition hash_on_row :: "string \<Rightarrow> string \<Rightarrow> gasless_world \<Rightarrow> bool" where
  "hash_on_row i x w \<longleftrightarrow> (\<exists>r. sponsor_row_of (sponsored w) i = Some r \<and> rq_hash r = Some x)"

lemma quiet_view:
  assumes "quiet w w'"
  shows "none_sent i w' = none_sent i w" "sole i x w' = sole i x w" "open_row i w' = open_row i w"
    "hash_on_row i x w' = hash_on_row i x w"
  using assms by (simp_all add: quiet_def none_sent_def sole_def open_row_def hash_on_row_def)

section \<open>Sending\<close>

definition queued_kind :: "send_result \<Rightarrow> bool" where
  "queued_kind r \<longleftrightarrow> send_kind r = SentQueued \<or> send_kind r = SentUnknown"

lemma send_answer_kind:
  "send_answer k x r = Some res \<Longrightarrow> queued_kind res \<longleftrightarrow> may_be_queued r"
  "send_answer k x r = None \<Longrightarrow> \<not> may_be_queued r"
  by (auto simp: send_answer_def may_be_queued_def queued_kind_def classify_rejection_def
      split: sum.splits send_status.splits option.splits result_code.splits)

text \<open>What a send leaves: the records untouched, at most this transaction taken for this request.\<close>

definition sent_post :: "string \<Rightarrow> string \<Rightarrow> gasless_world \<Rightarrow> bool \<Rightarrow> gasless_world \<Rightarrow> bool" where
  "sent_post i x w q w' \<longleftrightarrow> sponsored w' = sponsored w \<and> tick w \<le> tick w' \<and>
     (\<forall>j y. j \<noteq> i \<longrightarrow> ((j, y) \<in> set (accepted w') \<longleftrightarrow> (j, y) \<in> set (accepted w))) \<and>
     (if q then sole i x w' else none_sent i w')"

lemma sent_post_quiet: "quiet u v \<Longrightarrow> sent_post i x v q w \<Longrightarrow> sent_post i x u q w"
  by (auto simp: sent_post_def quiet_def)

lemma wp_sponsor_rpc_send:
  assumes "none_sent i w"
  shows "wp (sponsor_rpc_send e i x b64) (\<lambda>r. sent_post i x w (may_be_queued r)) w"
  using assms by (auto simp: sponsor_rpc_send_def sent_post_def none_sent_def sole_def)

lemma wp_sponsor_send:
  "none_sent i w \<Longrightarrow> wp (sponsor_send e k i x b64 n) (\<lambda>r. sent_post i x w (queued_kind r)) w"
proof (induction n arbitrary: w)
  case 0
  then show ?case by (simp add: sponsor_send.simps queued_kind_def sent_post_def)
next
  case (Suc n)
  have body: "wp (sponsor_rpc_send e i x b64 \<bind> (\<lambda>r. case send_answer k x r of
       None \<Rightarrow> sponsor_send e k i x b64 n | Some res \<Rightarrow> ret res)) (\<lambda>r. sent_post i x w (queued_kind r)) v"
    if q: "quiet w v" for v
  proof (rule wp_bindI [OF wp_sponsor_rpc_send], goal_cases)
    case 1
    then show ?case using Suc.prems quiet_view(1) [OF q] by simp
  next
    case (2 r v')
    then have post: "sent_post i x w (may_be_queued r) v'" by (rule sent_post_quiet [OF q])
    show ?case
    proof (rule wp_optionI, goal_cases)
      case 1
      then have "none_sent i v'" "sponsored v' = sponsored w" "tick w \<le> tick v'"
          "\<forall>j y. j \<noteq> i \<longrightarrow> ((j, y) \<in> set (accepted v') \<longleftrightarrow> (j, y) \<in> set (accepted w))"
        using post send_answer_kind(2) by (auto simp: sent_post_def)
      then show ?case
        by (intro wp_mono [OF Suc.IH]) (auto simp: sent_post_def)
    next
      case (2 res)
      then show ?case using post send_answer_kind(1) by simp
    qed
  qed
  have stop: "sent_post i x w (queued_kind \<lparr>send_kind = RejectedBusy, send_code = c, send_msg = m\<rparr>) v"
    if "quiet w v" for v c m
    using that Suc.prems quiet_view(1) [OF that] by (simp add: sent_post_def queued_kind_def quiet_def)
  show ?case
    unfolding sponsor_send.simps wp_bind
  proof (cases "n = sponsor_try_again")
    case True
    then show "wp (if n = sponsor_try_again then ret False else ask (ctx_done (rt e)))
       (\<lambda>a. wp (if a then ret \<lparr>send_kind = RejectedBusy, send_code = [], send_msg = ''cancelled while the network was busy''\<rparr>
          else sponsor_rpc_send e i x b64 \<bind> (\<lambda>r. case send_answer k x r of
             None \<Rightarrow> sponsor_send e k i x b64 n | Some res \<Rightarrow> ret res)) (\<lambda>r. sent_post i x w (queued_kind r))) w"
      using body [of w] by (simp del: wp_bind)
  next
    case False
    then show "wp (if n = sponsor_try_again then ret False else ask (ctx_done (rt e)))
       (\<lambda>a. wp (if a then ret \<lparr>send_kind = RejectedBusy, send_code = [], send_msg = ''cancelled while the network was busy''\<rparr>
          else sponsor_rpc_send e i x b64 \<bind> (\<lambda>r. case send_answer k x r of
             None \<Rightarrow> sponsor_send e k i x b64 n | Some res \<Rightarrow> ret res)) (\<lambda>r. sent_post i x w (queued_kind r))) w"
      using body [OF quiet_tick] stop [OF quiet_tick] by (simp del: wp_bind)
  qed
qed

section \<open>An attempt\<close>

text \<open>The outcome is what the network reports of the transaction.\<close>

definition reported :: "gasless_runtime \<Rightarrow> gasless_sdk \<Rightarrow> string \<Rightarrow> outcome \<Rightarrow> bool" where
  "reported e k x oc \<longleftrightarrow>
     (\<exists>n resp. (poll_transaction (rt e) n x = Inr resp \<or> get_transaction (rt e) n x = Inr resp) \<and>
        oc = landed k x resp)"

definition outcome_ok :: "gasless_runtime \<Rightarrow> gasless_sdk \<Rightarrow> string \<Rightarrow> outcome \<Rightarrow> gasless_world \<Rightarrow> bool" where
  "outcome_ok e k i oc w \<longleftrightarrow>
     out_status oc = Rejected \<and> out_fee oc = None \<and> none_sent i w \<or>
     (\<exists>x. sole i x w \<and> out_hash oc = x \<and>
        (out_status oc = Unconfirmed \<and> out_fee oc = None \<or> reported e k x oc))"

text \<open>
  A pending row, last written in the past of a clock that does not go back, whose hash, if it has one, is dated: \<open>P x t\<close> says of
  transaction \<open>x\<close> what is known of it when it is recorded at \<open>t\<close>.
\<close>

definition dated_row :: "gasless_runtime \<Rightarrow> (string \<Rightarrow> instant \<Rightarrow> bool) \<Rightarrow> string \<Rightarrow> gasless_world \<Rightarrow> bool" where
  "dated_row e P i w \<longleftrightarrow> mono (db_now (rt e)) \<and>
     (\<exists>r. sponsor_row_of (sponsored w) i = Some r \<and> rq_status r = Pending \<and>
        (\<forall>n \<ge> tick w. rq_updated r \<le> db_now (rt e) n) \<and>
        (\<forall>x. rq_hash r = Some x \<longrightarrow> P x (rq_updated r)))"

definition attempt_post ::
  "gasless_runtime \<Rightarrow> gasless_sdk \<Rightarrow> (string \<Rightarrow> instant \<Rightarrow> bool) \<Rightarrow> string \<Rightarrow> gasless_world \<Rightarrow> bool \<Rightarrow> outcome \<Rightarrow>
   gasless_world \<Rightarrow> bool"
where
  "attempt_post e k P i w again oc w' \<longleftrightarrow>
     touches i w w' \<and> (if again then none_sent i w' else outcome_ok e k i oc w') \<and>
     (dated_row e P i w \<longrightarrow> dated_row e P i w' \<and> (\<forall>x. sole i x w' \<longrightarrow> hash_on_row i x w'))"

lemma outcome_ok_quiet: "quiet w w' \<Longrightarrow> outcome_ok e k i oc w \<Longrightarrow> outcome_ok e k i oc w'"
  using quiet_view [of w w'] by (simp add: outcome_ok_def)

lemma dated_row_later:
  "sponsored w' = sponsored w \<Longrightarrow> tick w \<le> tick w' \<Longrightarrow> dated_row e P i w \<Longrightarrow> dated_row e P i w'"
  by (auto simp: dated_row_def)

lemma dated_row_quiet: "quiet w w' \<Longrightarrow> dated_row e P i w \<Longrightarrow> dated_row e P i w'"
  by (rule dated_row_later) (simp_all add: quiet_def)

lemma attempt_post_quiet:
  assumes "quiet v v'" "attempt_post e k P i w again oc v"
  shows "attempt_post e k P i w again oc v'"
  using assms(2) quiet_view [OF assms(1)] dated_row_quiet [OF assms(1), of e P i]
    outcome_ok_quiet [OF assms(1), of e k i oc] touches_trans [OF _ quiet_touches [OF assms(1)], of i w]
  by (simp add: attempt_post_def split: if_splits)

lemma attempt_post_before:
  assumes "touches i u w" "dated_row e P i u \<Longrightarrow> dated_row e P i w" "attempt_post e k P i w again oc v"
  shows "attempt_post e k P i u again oc v"
  using assms touches_trans [of i u w v] by (auto simp: attempt_post_def)

text \<open>Nothing was taken: a retry, or a rejection.\<close>

lemma none_not_sole: "none_sent i w \<Longrightarrow> \<not> sole i x w"
  by (auto simp: none_sent_def sole_def)

lemma attempt_post_none:
  assumes "quiet w w'" "none_sent i w" "again \<or> out_status oc = Rejected \<and> out_fee oc = None"
  shows "attempt_post e k P i w again oc w'"
  using assms quiet_view [OF assms(1)] dated_row_quiet [OF assms(1)] none_not_sole [of i w']
  by (auto simp: attempt_post_def outcome_ok_def quiet_touches)

lemma rejected_simps [simp]: "out_status (rejected c m) = Rejected" "out_fee (rejected c m) = None"
  by (simp_all add: rejected_def)

lemma set_hash_row_of:
  "sponsor_row_of (snd (set_hash_stmt i x now rows)) j =
    map_option (\<lambda>r. if rq_id r = i \<and> rq_status r = Pending then hash_row now x r else r) (sponsor_row_of rows j)"
  unfolding set_hash_rows by (rule settled_row_of) (rule hs.advance)

lemma finish_row_of:
  "sponsor_row_of (snd (finish_stmt i oc now rows)) j =
    map_option (\<lambda>r. if rq_id r = i \<and> \<not> final (rq_status r) then finish_row now oc r else r) (sponsor_row_of rows j)"
  unfolding finish_rows by (rule settled_row_of) (rule fi.advance)

lemma set_hash_other:
  "j \<noteq> i \<Longrightarrow> sponsor_row_of (snd (set_hash_stmt i x now rows)) j = sponsor_row_of rows j"
  using row_of_in [of rows j] by (cases "sponsor_row_of rows j") (auto simp: set_hash_row_of)

lemma finish_other:
  "j \<noteq> i \<Longrightarrow> sponsor_row_of (snd (finish_stmt i oc now rows)) j = sponsor_row_of rows j"
  using row_of_in [of rows j] by (cases "sponsor_row_of rows j") (auto simp: finish_row_of)

lemma set_hash_ids: "map rq_id (snd (set_hash_stmt i x now rows)) = map rq_id rows"
  unfolding set_hash_rows by (rule hs.ids)

lemma finish_ids: "map rq_id (snd (finish_stmt i oc now rows)) = map rq_id rows"
  unfolding finish_rows by (rule fi.ids)

lemma wp_set_hash:
  assumes "P x (db_now (rt e) (tick w))"
  shows "wp (set_hash e i x) (\<lambda>r w'. touches i w w' \<and> accepted w' = accepted w \<and>
    (dated_row e P i w \<longrightarrow> dated_row e P i w' \<and> (r = Inr () \<longrightarrow> hash_on_row i x w'))) w"
proof -
  let ?w = "w\<lparr>tick := Suc (tick w), sponsored := snd (set_hash_stmt i x (db_now (rt e) (tick w)) (sponsored w))\<rparr>"
  have t: "touches i w ?w"
    by (simp add: touches_def set_hash_other set_hash_ids)
  have d: "dated_row e P i ?w \<and> hash_on_row i x ?w" if dr: "dated_row e P i w"
  proof -
    obtain r where r: "sponsor_row_of (sponsored w) i = Some r" "rq_status r = Pending"
      using dr by (auto simp: dated_row_def)
    moreover have "rq_id r = i" using row_of_in [OF r(1)] by simp
    ultimately have "sponsor_row_of (sponsored ?w) i = Some (hash_row (db_now (rt e) (tick w)) x r)"
      by (simp add: set_hash_row_of)
    moreover have "db_now (rt e) (tick w) \<le> db_now (rt e) n" if "tick ?w \<le> n" for n
      using that dr by (intro monoD [of "db_now (rt e)"]) (simp_all add: dated_row_def)
    ultimately show ?thesis
      unfolding dated_row_def hash_on_row_def using assms r(2) dr by (simp add: hash_row_def dated_row_def)
  qed
  have l: "dated_row e P i w \<Longrightarrow> dated_row e P i (w\<lparr>tick := Suc (tick w)\<rparr>)"
    by (rule dated_row_quiet [OF quiet_tick])
  show ?thesis
    unfolding set_hash_def wp_bind
    by (rule wp_sponsor_stmt) (use t d l in \<open>simp_all add: wrap_err_def quiet_touches\<close>)
qed

lemma wp_poll_sent:
  "wp (poll_sent e k x) (\<lambda>oc w'. quiet w w' \<and> out_hash oc = x \<and>
     (out_status oc = Unconfirmed \<and> out_fee oc = None \<or> reported e k x oc)) w"
proof (cases "poll_transaction (rt e) (tick w) x")
  case (Inr resp)
  have "out_hash (landed k x resp) = x"
    by (auto simp: landed_def Let_def split: tx_status.split)
  moreover have "reported e k x (landed k x resp)" using Inr by (auto simp: reported_def)
  ultimately show ?thesis using Inr by (simp add: poll_sent_def)
qed (simp add: poll_sent_def)

lemma wp_release_after:
  assumes "attempt_post e k P i w again oc v"
  shows "wp (release_lease e l c rs) (\<lambda>_. attempt_post e k P i w again oc) v"
  by (rule wp_mono [OF wp_release_quiet]) (rule attempt_post_quiet [OF _ assms])

text \<open>A sent transaction: it is the request's only one, and its hash is on the row.\<close>

definition sent_state :: "gasless_runtime \<Rightarrow> (string \<Rightarrow> instant \<Rightarrow> bool) \<Rightarrow> string \<Rightarrow> string \<Rightarrow> gasless_world \<Rightarrow> gasless_world \<Rightarrow> bool" where
  "sent_state e P i x w v \<longleftrightarrow> touches i w v \<and> sole i x v \<and>
     (dated_row e P i w \<longrightarrow> dated_row e P i v \<and> hash_on_row i x v)"

lemma sent_state_post:
  assumes "sent_state e P i x w v" "quiet v v'" "out_hash oc = x"
    and "out_status oc = Unconfirmed \<and> out_fee oc = None \<or> reported e k x oc"
  shows "attempt_post e k P i w False oc v'"
proof -
  have "sole i y v \<Longrightarrow> y = x" for y using assms(1) by (auto simp: sent_state_def sole_def)
  then have "attempt_post e k P i w False oc v"
    using assms by (auto simp: attempt_post_def sent_state_def outcome_ok_def)
  then show ?thesis by (rule attempt_post_quiet [OF assms(2)])
qed

lemma sent_post_states:
  assumes "sent_post i x v q v'" "touches i w v" "dated_row e P i w \<longrightarrow> dated_row e P i v \<and> hash_on_row i x v"
  shows "q \<Longrightarrow> sent_state e P i x w v'"
    and "\<not> q \<Longrightarrow> touches i w v' \<and> none_sent i v' \<and> (dated_row e P i w \<longrightarrow> dated_row e P i v')"
proof -
  have t: "touches i w v'" using assms(1,2) by (auto simp: sent_post_def touches_def)
  have d: "dated_row e P i v \<Longrightarrow> dated_row e P i v'"
    using assms(1) by (intro dated_row_later [of v' v]) (simp_all add: sent_post_def)
  have h: "hash_on_row i x v' = hash_on_row i x v"
    using assms(1) by (simp add: sent_post_def hash_on_row_def)
  show "q \<Longrightarrow> sent_state e P i x w v'"
    using t d h assms(1,3) by (auto simp: sent_state_def sent_post_def)
  show "\<not> q \<Longrightarrow> touches i w v' \<and> none_sent i v' \<and> (dated_row e P i w \<longrightarrow> dated_row e P i v')"
    using t d assms(1,3) by (auto simp: sent_post_def)
qed

lemma attempt_post_unsent:
  assumes "touches i w v" "none_sent i v" "dated_row e P i w \<longrightarrow> dated_row e P i v"
    and "again \<or> out_status oc = Rejected \<and> out_fee oc = None"
  shows "attempt_post e k P i w again oc v"
  using assms none_not_sole by (auto simp: attempt_post_def outcome_ok_def)

lemma wp_sponsor_fee_loop:
  assumes "none_sent i w" "rec_id (pr_record p) = i"
    and "\<And>n inc b64 x. tick w \<le> n \<Longrightarrow> sponsor_seal k cfg key (lease_address l) (int64 (s + 1)) p inc until = Inr (b64, x) \<Longrightarrow>
      P x (db_now (rt e) n)"
  shows "wp (sponsor_fee_loop e k cfg p key l s until left inclusion)
    (\<lambda>a. attempt_post e k P i w (at_retry a) (at_outcome a)) w"
  using assms(1,3)
proof (induction left arbitrary: inclusion w rule: less_induct)
  case (less left inclusion w)
  let ?post = "\<lambda>a. attempt_post e k P i w (at_retry a) (at_outcome a)"
  note rel = wp_release_after
  show ?case
  proof (cases "sponsor_seal k cfg key (lease_address l) (int64 (s + 1)) p inclusion until")
    case (Inl m)
    then show ?thesis
      unfolding sponsor_fee_loop.simps [of e k cfg p key l s until left inclusion] Let_def Inl sum.case wp_bind
      by (intro wp_mono [OF rel [OF attempt_post_none [OF quiet_refl less.prems(1), of False "rejected ''build_failed'' m"]]])
        (simp_all add: no_retry_def)
  next
    case (Inr bx)
    obtain b64 x where bx: "bx = (b64, x)" by (cases bx)
    have px: "P x (db_now (rt e) (tick w))" using less.prems(2) Inr bx by blast
    show ?thesis
      unfolding sponsor_fee_loop.simps [of e k cfg p key l s until left inclusion] Let_def Inr bx sum.case prod.case assms(2)
    proof (rule wp_bindI [OF wp_set_hash [where P = P, OF px]], rule wp_sumI, goal_cases)
      case (1 r v m)
      then have "attempt_post e k P i w False (rejected ''store_failed'' m) v"
        using less.prems(1) by (intro attempt_post_unsent) (auto simp: none_sent_def)
      then show ?case
        unfolding wp_bind by (rule wp_mono [OF rel]) (simp add: no_retry_def)
    next
      case (2 r v u)
      then have v: "touches i w v" "none_sent i v" "dated_row e P i w \<longrightarrow> dated_row e P i v \<and> hash_on_row i x v"
        using less.prems(1) by (auto simp: none_sent_def)
      show ?case
      proof (rule wp_bindI [OF wp_sponsor_send [OF v(2)]], goal_cases)
        case (1 res v')
        note st = sent_post_states [OF 1 v(1,3)]
        have unsent: "attempt_post e k P i w again oc v'"
          if "\<not> queued_kind res" "again \<or> out_status oc = Rejected \<and> out_fee oc = None" for again oc
          using st(2) [OF that(1)] that(2) by (intro attempt_post_unsent) auto
        show ?case
        proof (cases "send_kind res")
          case SentQueued
          then have s: "sent_state e P i x w v'" using st(1) by (simp add: queued_kind_def)
          show ?thesis
            unfolding SentQueued send_kind.case
          proof (rule wp_bindI [OF wp_poll_sent], goal_cases)
            case (1 oc v'')
            then have ap: "attempt_post e k P i w False oc v''" using sent_state_post [OF s] by blast
            show ?case
              unfolding wp_bind
              by (rule wp_ifI; rule wp_mono [OF rel [OF ap]]; simp add: no_retry_def)
          qed
        next
          case SentUnknown
          then have s: "sent_state e P i x w v'" using st(1) by (simp add: queued_kind_def)
          show ?thesis
            unfolding SentUnknown send_kind.case wp_bind
            by (rule wp_mono [OF rel [OF sent_state_post [OF s quiet_refl, of
                  "\<lparr>out_status = Unconfirmed, out_hash = x, out_fee = None,
                    out_error_code = ''send_unconfirmed'', out_error_message = send_msg res\<rparr>"]]])
              (simp_all add: no_retry_def)
        next
          case RejectedBadSeq
          then have "\<not> queued_kind res" by (simp add: queued_kind_def)
          then show ?thesis
            unfolding RejectedBadSeq send_kind.case wp_bind
            by (intro wp_mono [OF rel [OF unsent, of True]]) simp_all
        next
          case RejectedFee
          then have nq: "\<not> queued_kind res" by (simp add: queued_kind_def)
          have stop: "wp (release_lease e l None True \<bind> (\<lambda>_. ret (no_retry inclusion
               (rejected ''insufficient_fee'' ''network fee exceeds the configured maximum'')))) ?post v'"
            unfolding wp_bind by (rule wp_mono [OF rel [OF unsent [OF nq]]]) (auto simp: no_retry_def)
          show ?thesis
          proof (cases left)
            case 0
            then show ?thesis unfolding RejectedFee send_kind.case using stop by simp
          next
            case (Suc left')
            have later: "tick w \<le> tick v'" using st(2) [OF nq] by (simp add: touches_def)
            have "wp (sponsor_fee_loop e k cfg p key l s until left' inc)
                (\<lambda>a. attempt_post e k P i v' (at_retry a) (at_outcome a)) v'" for inc
              using Suc st(2) [OF nq] later less.prems(2) by (intro less.IH) auto
            then have "wp (sponsor_fee_loop e k cfg p key l s until left' inc) ?post v'" for inc
              by (rule wp_mono) (use st(2) [OF nq] in \<open>auto intro: attempt_post_before\<close>)
            then show ?thesis
              unfolding RejectedFee send_kind.case Suc nat.case by (intro wp_ifI stop)
          qed
        next
          case RejectedBusy
          then have "\<not> queued_kind res" by (simp add: queued_kind_def)
          then show ?thesis
            unfolding RejectedBusy send_kind.case wp_bind
            by (intro wp_mono [OF rel [OF unsent, of False "rejected ''network_busy'' (send_msg res)"]])
              (simp_all add: no_retry_def)
        next
          case RejectedOther
          then have "\<not> queued_kind res" by (simp add: queued_kind_def)
          then show ?thesis
            unfolding RejectedOther send_kind.case wp_bind
            by (intro wp_mono [OF rel [OF unsent, of False "rejected (send_code res) (send_msg res)"]])
              (simp_all add: no_retry_def)
        qed
      qed
    qed
  qed
qed

section \<open>A run\<close>

text \<open>Sealing establishes of a hash \<open>P\<close> of it at whatever database time it is recorded later.\<close>

definition seals :: "gasless_runtime \<Rightarrow> gasless_sdk \<Rightarrow> sponsor_config \<Rightarrow> (string \<Rightarrow> instant \<Rightarrow> bool) \<Rightarrow> bool" where
  "seals e k cfg P \<longleftrightarrow> (\<forall>n m key addr s p inc b64 x. n \<le> m \<longrightarrow>
     sponsor_seal k cfg key addr s p inc (truncate_second (clock (rt e) n + sponsor_validity)) = Inr (b64, x) \<longrightarrow>
     P x (db_now (rt e) m))"

lemma wp_sponsor_attempt:
  assumes "none_sent i w" "rec_id (pr_record p) = i" "seals e k cfg P"
  shows "wp (sponsor_attempt e k cfg p inclusion) (\<lambda>a. attempt_post e k P i w (at_retry a) (at_outcome a)) w"
proof -
  have stop: "wp (release_lease e l None True \<bind> (\<lambda>_. ret (no_retry inclusion (rejected c m))))
      (\<lambda>a. attempt_post e k P i w (at_retry a) (at_outcome a)) v" if "quiet w v" for v l c m
    unfolding wp_bind
    by (rule wp_mono [OF wp_release_after [OF attempt_post_none [OF that assms(1), of False "rejected c m"]]])
      (simp_all add: no_retry_def)
  have refuse: "attempt_post e k P i w False (rejected c m) v" if "quiet w v" for v c m
    using that assms(1) by (rule attempt_post_none) simp
  have loop: "wp (sponsor_fee_loop e k cfg p key l s (truncate_second (clock (rt e) n + sponsor_validity))
       sponsor_fee_retries inclusion) (\<lambda>a. attempt_post e k P i w (at_retry a) (at_outcome a)) v"
    if q: "quiet w v" and n: "n \<le> tick v" for v n key l s
  proof (rule wp_mono [OF wp_sponsor_fee_loop [OF _ assms(2)]])
    show "none_sent i v" using assms(1) quiet_view(1) [OF q] by simp
    show "P x (db_now (rt e) m)" if "tick v \<le> m"
        "sponsor_seal k cfg key (lease_address l) (int64 (s + 1)) p inc
           (truncate_second (clock (rt e) n + sponsor_validity)) = Inr (b64, x)" for m inc b64 x
      using assms(3) n that unfolding seals_def by (meson le_trans)
  qed (use q in \<open>auto intro: attempt_post_before quiet_touches dated_row_quiet\<close>)
  show ?thesis
    unfolding sponsor_attempt_def
  proof (rule wp_bindI [OF wp_acquire_wait_quiet], rule wp_sumI, goal_cases)
    case (1 r v err)
    then show ?case using refuse by (cases err) (simp_all add: no_retry_def)
  next
    case (2 r v l)
    show ?case
    proof (rule wp_optionI, goal_cases)
      case (2 key)
      show ?case
      proof (rule wp_bindI [OF wp_last_seq_quiet], rule wp_sumI, goal_cases)
        case (1 sq v' m)
        then show ?case using stop quiet_trans [OF \<open>quiet w v\<close>] by blast
      next
        case (2 sq v' s)
        then have "quiet w v'" using quiet_trans [OF \<open>quiet w v\<close>] by blast
        then show ?case using loop [of "v'\<lparr>tick := Suc (tick v')\<rparr>" "tick v'"] quiet_trans [OF _ quiet_tick]
          by simp
      qed
    qed (rule stop [OF 2(1)])
  qed
qed

lemma wp_lease_attempts:
  assumes "rec_id (pr_record p) = i" "seals e k cfg P"
  shows "none_sent i w \<Longrightarrow> wp (lease_attempts e k cfg p n inclusion) (\<lambda>oc. attempt_post e k P i w False oc) w"
proof (induction n arbitrary: inclusion w)
  case 0
  then show ?case by (simp add: attempt_post_none)
next
  case (Suc n)
  show ?case
    unfolding lease_attempts.simps
  proof (rule wp_bindI [OF wp_sponsor_attempt [OF Suc.prems assms]], rule wp_ifI, goal_cases)
    case (1 a v)
    then have v: "touches i w v" "none_sent i v" "dated_row e P i w \<Longrightarrow> dated_row e P i v"
      by (simp_all add: attempt_post_def)
    show ?case by (rule wp_mono [OF Suc.IH [OF v(2)]]) (rule attempt_post_before [OF v(1,3)])
  qed simp
qed

end
