(* ===== verification/Sponsor_Outcomes.thy ===== *)
theory Sponsor_Outcomes
  imports Sponsor_Safety
begin

text \<open>
  What a record says of its request, and that every writer keeps it true: \<open>record_ok\<close> says for each status
  what the network has been asked and has answered; \<open>Run\<close> (\<open>run_request_ok\<close>) and the resolver
  (\<open>wp_resolver_tick\<close>) preserve it.
\<close>

section \<open>Recording the outcome\<close>

text \<open>What one \<open>Finish\<close> does to the records: nothing, or its statement at a database time in between.\<close>

definition finished :: "gasless_runtime \<Rightarrow> string \<Rightarrow> outcome \<Rightarrow> gasless_world \<Rightarrow> gasless_world \<Rightarrow> bool" where
  "finished e i oc w w' \<longleftrightarrow> accepted w' = accepted w \<and> tick w < tick w' \<and>
     (sponsored w' = sponsored w \<or>
      sponsored w' = snd (finish_stmt i oc (db_now (rt e) (tick w)) (sponsored w)))"

lemma wp_get_record: "wp (get_record e i) (\<lambda>_ w'. quiet w w' \<and> tick w < tick w') w"
  unfolding get_record_def wp_bind by (rule wp_sponsor_query) (simp_all add: quiet_def)

lemma finished_quiet: "finished e i oc w v \<Longrightarrow> quiet v v' \<Longrightarrow> finished e i oc w v'"
  by (auto simp: finished_def quiet_def)

lemma wp_finish_record: "wp (finish_record e i oc) (\<lambda>_. finished e i oc w) w"
  unfolding finish_record_def wp_bind
proof (rule wp_sponsor_stmt, goal_cases)
  case (1 a)
  let ?w = "w\<lparr>tick := Suc (tick w), sponsored := snd (finish_stmt i oc (db_now (rt e) (tick w)) (sponsored w))\<rparr>"
  have fin: "finished e i oc w ?w" by (simp add: finished_def)
  show ?case
  proof (cases a)
    case None
    have "wp (get_record e i) (\<lambda>_. finished e i oc w) ?w"
      by (rule wp_mono [OF wp_get_record]) (use finished_quiet [OF fin] in blast)
    then show ?thesis unfolding None sum.case option.case wp_bind wp_return .
  qed (use fin in simp)
qed (simp_all add: finished_def)

lemma wp_sponsor_finish: "wp (sponsor_finish e i oc) (\<lambda>_. finished e i oc w) w"
  unfolding sponsor_finish_def wp_bind wp_return by (rule wp_finish_record)

lemma finished_touches: "finished e i oc w w' \<Longrightarrow> touches i w w'"
  by (auto simp: finished_def touches_def finish_other finish_ids)

lemma finished_view:
  assumes "finished e i oc w w'"
  shows "none_sent j w' = none_sent j w" "sole j x w' = sole j x w"
  using assms by (simp_all add: finished_def none_sent_def sole_def)

lemma finished_row:
  assumes "finished e i oc w w'" "sponsor_row_of (sponsored w) i = Some r" "\<not> final (rq_status r)"
  shows "sponsor_row_of (sponsored w') i = Some r \<or>
    sponsor_row_of (sponsored w') i = Some (finish_row (db_now (rt e) (tick w)) oc r)"
  using assms row_of_in [OF assms(2)] by (auto simp: finished_def finish_row_of)

section \<open>What a record says\<close>

text \<open>The resolver may say that \<open>x\<close> never landed: not found, and its last moment long past.\<close>

definition expired_on :: "gasless_runtime \<Rightarrow> (string \<Rightarrow> instant \<Rightarrow> bool) \<Rightarrow> string \<Rightarrow> bool" where
  "expired_on e P x \<longleftrightarrow>
     (\<exists>n t u. get_transaction (rt e) n x = Inr t \<and> tx_status t = TxNotFound \<and> P x u \<and>
        clock (rt e) (Suc n) - u > sponsor_validity + ledger_time)"

definition open_ok :: "gasless_runtime \<Rightarrow> (string \<Rightarrow> instant \<Rightarrow> bool) \<Rightarrow> string \<Rightarrow> sponsor_row \<Rightarrow> gasless_world \<Rightarrow> bool" where
  "open_ok e P i r w \<longleftrightarrow> (\<forall>n \<ge> tick w. rq_updated r \<le> db_now (rt e) n) \<and>
     (\<forall>x. rq_hash r = Some x \<longrightarrow> P x (rq_updated r)) \<and>
     (none_sent i w \<or> (\<exists>x. sole i x w \<and> rq_hash r = Some x))"

definition landed_ok :: "gasless_runtime \<Rightarrow> gasless_sdk \<Rightarrow> string \<Rightarrow> sponsor_row \<Rightarrow> gasless_world \<Rightarrow> bool" where
  "landed_ok e k i r w \<longleftrightarrow>
     (\<exists>x oc. rq_hash r = Some x \<and> reported e k x oc \<and> out_status oc = rq_status r \<and>
        (none_sent i w \<or> sole i x w))"

definition record_ok ::
  "gasless_runtime \<Rightarrow> gasless_sdk \<Rightarrow> (string \<Rightarrow> instant \<Rightarrow> bool) \<Rightarrow> string \<Rightarrow> sponsor_row \<Rightarrow> gasless_world \<Rightarrow> bool"
where
  "record_ok e k P i r w \<longleftrightarrow>
     (case rq_status r of
        Pending \<Rightarrow> open_ok e P i r w
      | Unconfirmed \<Rightarrow> open_ok e P i r w
      | Rejected \<Rightarrow> none_sent i w \<or> (\<exists>x. sole i x w \<and> expired_on e P x)
      | _ \<Rightarrow> landed_ok e k i r w)"

definition request_ok ::
  "gasless_runtime \<Rightarrow> gasless_sdk \<Rightarrow> (string \<Rightarrow> instant \<Rightarrow> bool) \<Rightarrow> string \<Rightarrow> gasless_world \<Rightarrow> bool"
where
  "request_ok e k P i w \<longleftrightarrow>
     (case sponsor_row_of (sponsored w) i of None \<Rightarrow> none_sent i w | Some r \<Rightarrow> record_ok e k P i r w)"

lemma record_ok_later:
  assumes "record_ok e k P i r w" "tick w \<le> tick w'" "none_sent i w' = none_sent i w" "\<And>x. sole i x w' = sole i x w"
  shows "record_ok e k P i r w'"
  using assms by (auto simp: record_ok_def open_ok_def landed_ok_def split: sponsor_status.splits)

text \<open>A request another one's step leaves alone stays in order.\<close>

lemma touches_view:
  assumes "touches i w w'" "j \<noteq> i"
  shows "sponsor_row_of (sponsored w') j = sponsor_row_of (sponsored w) j"
    "none_sent j w' = none_sent j w" "sole j x w' = sole j x w"
  using assms by (simp_all add: touches_def none_sent_def sole_def)

lemma touches_request_ok:
  assumes "touches i w w'" "j \<noteq> i" "request_ok e k P j w"
  shows "request_ok e k P j w'"
proof -
  have "tick w \<le> tick w'" using assms(1) by (simp add: touches_def)
  then show ?thesis
    using assms(3) touches_view [OF assms(1,2)] record_ok_later [of e k P j _ w w']
    by (auto simp: request_ok_def split: option.splits)
qed

lemma quiet_request_ok: "quiet w w' \<Longrightarrow> request_ok e k P i w \<Longrightarrow> request_ok e k P i w'"
  using record_ok_later [of e k P i _ w w'] quiet_view [of w w' i]
  by (auto simp: request_ok_def quiet_def split: option.splits)

text \<open>What recorded time says of a hash survives, and a hash is not empty.\<close>

definition dates :: "(string \<Rightarrow> instant \<Rightarrow> bool) \<Rightarrow> bool" where
  "dates P \<longleftrightarrow> (\<forall>x s t. P x s \<longrightarrow> s \<le> t \<longrightarrow> P x t) \<and> (\<forall>x t. P x t \<longrightarrow> x \<noteq> [])"

text \<open>Recording an outcome that is true of an open request leaves its record in order.\<close>

definition outcome_true ::
  "gasless_runtime \<Rightarrow> gasless_sdk \<Rightarrow> (string \<Rightarrow> instant \<Rightarrow> bool) \<Rightarrow> string \<Rightarrow> sponsor_row \<Rightarrow> outcome \<Rightarrow> gasless_world \<Rightarrow> bool"
where
  "outcome_true e k P i r oc w \<longleftrightarrow>
     (out_status oc = Rejected \<and> (none_sent i w \<or> (\<exists>x. sole i x w \<and> expired_on e P x))) \<or>
     (\<exists>x. out_hash oc = x \<and> rq_hash r = Some x \<and>
        (out_status oc = Unconfirmed \<or> reported e k x oc))"

lemma landed_fields:
  "out_hash (landed k x resp) = x"
  "out_status (landed k x resp) \<in> {Success, Failed, Unconfirmed}"
  by (cases "tx_status resp"; simp add: landed_def Let_def)+

lemma reported_status:
  "reported e k x oc \<Longrightarrow> out_hash oc = x \<and> (out_status oc = Success \<or> out_status oc = Failed \<or> out_status oc = Unconfirmed)"
  using landed_fields [of k x] unfolding reported_def by blast

lemma finish_row_fields [simp]:
  "rq_status (finish_row now oc r) = out_status oc" "rq_updated (finish_row now oc r) = now"
  "out_hash oc = x \<Longrightarrow> x \<noteq> [] \<Longrightarrow> rq_hash (finish_row now oc r) = Some x"
  by (simp_all add: finish_row_def nullif_empty_def)

lemma finish_record_ok:
  assumes "dates P" "mono (db_now (rt e))" "open_ok e P i r w" "outcome_true e k P i r oc w"
    and "finished e i oc w w'"
  shows "record_ok e k P i (finish_row (db_now (rt e) (tick w)) oc r) w'"
proof -
  let ?r = "finish_row (db_now (rt e) (tick w)) oc r"
  note view = finished_view [OF assms(5)]
  from assms(4) consider
    (rej) "out_status oc = Rejected" "none_sent i w \<or> (\<exists>x. sole i x w \<and> expired_on e P x)"
  | (sent) x where "out_hash oc = x" "rq_hash r = Some x" "out_status oc = Unconfirmed \<or> reported e k x oc"
    by (auto simp: outcome_true_def)
  then show ?thesis
  proof cases
    case rej
    then show ?thesis by (simp add: record_ok_def view)
  next
    case (sent x)
    have P: "P x (rq_updated r)" "rq_updated r \<le> db_now (rt e) (tick w)"
      using assms(3) sent(2) by (auto simp: open_ok_def)
    have hash: "rq_hash ?r = Some x" using sent(1) P(1) assms(1) by (auto simp: dates_def)
    have acc: "none_sent i w' \<or> sole i x w'" using assms(3) sent(2) by (auto simp: open_ok_def view)
    have late: "db_now (rt e) (tick w) \<le> db_now (rt e) n" if "tick w' \<le> n" for n
      using that assms(5) by (intro monoD [OF assms(2)]) (simp add: finished_def)
    have "P x (db_now (rt e) (tick w))" using P assms(1) unfolding dates_def by blast
    then have op: "open_ok e P i ?r w'" using hash acc late by (auto simp: open_ok_def)
    have "landed_ok e k i ?r w'" if "reported e k x oc"
      using that hash acc by (auto simp: landed_ok_def)
    then show ?thesis
      using op sent(3) reported_status [of e k x oc] by (auto simp: record_ok_def split: sponsor_status.splits)
  qed
qed

lemma finished_request_ok:
  assumes "dates P" "mono (db_now (rt e))" "sponsor_row_of (sponsored w) i = Some r" "\<not> final (rq_status r)"
    and "record_ok e k P i r w" "outcome_true e k P i r oc w" "finished e i oc w w'"
  shows "request_ok e k P i w'"
proof -
  have op: "open_ok e P i r w" using assms(4,5) by (auto simp: record_ok_def final_def split: sponsor_status.splits)
  have "record_ok e k P i r w'"
    using record_ok_later [OF assms(5), of w'] assms(7) finished_view [OF assms(7)] by (simp add: finished_def)
  then show ?thesis
    using finished_row [OF assms(7,3,4)] finish_record_ok [OF assms(1,2) op assms(6,7)]
    by (auto simp: request_ok_def)
qed

section \<open>Run\<close>

text \<open>Whatever happens, a run leaves its request with at most one transaction and others alone.\<close>

definition at_most_one :: "string \<Rightarrow> gasless_world \<Rightarrow> bool" where
  "at_most_one i w \<longleftrightarrow> none_sent i w \<or> (\<exists>x. sole i x w)"

lemma outcome_ok_one: "outcome_ok e k i oc w \<Longrightarrow> at_most_one i w"
  by (auto simp: outcome_ok_def at_most_one_def)

lemma run_once:
  assumes "none_sent i w" "rec_id (pr_record p) = i"
  shows "wp (sponsor_submit e k cfg p) (\<lambda>_ w'. touches i w w' \<and> at_most_one i w') w"
  unfolding sponsor_submit_def assms(2)
proof (rule wp_bindI [OF wp_lease_attempts [where P = "\<lambda>_ _. True", OF assms(2) _ assms(1)]], goal_cases)
  case (2 oc v)
  then have v: "touches i w v" "at_most_one i v" by (auto simp: attempt_post_def intro: outcome_ok_one)
  show ?case
    by (rule wp_mono [OF wp_sponsor_finish])
      (use v finished_touches finished_view in \<open>auto simp: at_most_one_def intro: touches_trans\<close>)
qed (simp add: seals_def)

text \<open>A run of a request still open leaves its record in order.\<close>

lemma run_request_ok:
  assumes "none_sent i w" "rec_id (pr_record p) = i" "seals e k cfg P" "dates P" "dated_row e P i w"
  shows "wp (sponsor_submit e k cfg p) (\<lambda>_ w'. touches i w w' \<and> request_ok e k P i w') w"
  unfolding sponsor_submit_def assms(2)
proof (rule wp_bindI [OF wp_lease_attempts [OF assms(2,3,1)]], goal_cases)
  case (1 oc v)
  then have v: "touches i w v" "outcome_ok e k i oc v" "dated_row e P i v"
      "\<And>x. sole i x v \<Longrightarrow> hash_on_row i x v"
    using assms(5) by (auto simp: attempt_post_def)
  obtain r where r: "sponsor_row_of (sponsored v) i = Some r" "rq_status r = Pending"
      "\<forall>n \<ge> tick v. rq_updated r \<le> db_now (rt e) n" "\<forall>x. rq_hash r = Some x \<longrightarrow> P x (rq_updated r)"
    using v(3) by (auto simp: dated_row_def)
  have h: "\<And>x. sole i x v \<Longrightarrow> rq_hash r = Some x" using v(4) r(1) by (auto simp: hash_on_row_def)
  have ok: "record_ok e k P i r v"
    using r h outcome_ok_one [OF v(2)] by (auto simp: record_ok_def open_ok_def at_most_one_def)
  have true_oc: "outcome_true e k P i r oc v"
    using v(2) h by (auto simp: outcome_ok_def outcome_true_def)
  have "mono (db_now (rt e))" using v(3) by (simp add: dated_row_def)
  then have "request_ok e k P i w'" if "finished e i oc v w'" for w'
    using finished_request_ok [OF assms(4) _ r(1) _ ok true_oc that] r(2) by (simp add: final_def)
  then show ?case
    using v(1) finished_touches by (intro wp_mono [OF wp_sponsor_finish]) (blast intro: touches_trans)
qed

section \<open>The resolver\<close>

lemma wp_resolve_stale:
  assumes "record_ok e k P i r w" "\<not> final (rq_status r)"
    and "stale_hash s = coalesce_text (rq_hash r)" "stale_updated s = rq_updated r" "dates P"
  shows "wp (resolve_stale e k s) (\<lambda>v w'. quiet w w' \<and> (\<forall>oc. v = Some oc \<longrightarrow> outcome_true e k P i r oc w')) w"
proof -
  have op: "open_ok e P i r w" using assms(1,2) by (auto simp: record_ok_def final_def split: sponsor_status.splits)
  show ?thesis
  proof (cases "stale_hash s = []")
    case True
    then have "none_sent i w"
      using op assms(3,5) by (auto simp: open_ok_def coalesce_text_def dates_def split: option.splits)
    then show ?thesis using True by (simp add: resolve_stale_def outcome_true_def)
  next
    case False
    then have h: "rq_hash r = Some (stale_hash s)" using assms(3) by (auto simp: coalesce_text_def split: option.splits)
    let ?x = "stale_hash s" and ?w1 = "w\<lparr>tick := Suc (tick w)\<rparr>"
    have q: "quiet w (?w1\<lparr>tick := Suc (Suc (tick w))\<rparr>)" by (simp add: quiet_def)
    show ?thesis
    proof (cases "get_transaction (rt e) (tick w) ?x")
      case (Inl m)
      then show ?thesis using False by (simp add: resolve_stale_def)
    next
      case (Inr t)
      show ?thesis
      proof (cases "tx_status t = TxNotFound")
        case True
        have "outcome_true e k P i r oc v"
          if "clock (rt e) (Suc (tick w)) - stale_updated s > sponsor_validity + ledger_time"
            "out_status oc = Rejected" "quiet w v" for v oc
        proof -
          have "expired_on e P ?x"
            using that(1) Inr True op h assms(4) by (fastforce simp: expired_on_def open_ok_def)
          then show ?thesis using that(2) op h quiet_view [OF that(3)] by (auto simp: outcome_true_def open_ok_def)
        qed
        then show ?thesis using False Inr True q by (simp add: resolve_stale_def)
      next
        case nf: False
        have "reported e k ?x (landed k ?x t)" using Inr by (auto simp: reported_def)
        then have "outcome_true e k P i r (landed k ?x t) ?w1"
          using h by (auto simp: outcome_true_def landed_fields)
        then show ?thesis using False Inr nf by (simp add: resolve_stale_def Let_def)
      qed
    qed
  qed
qed

text \<open>The resolver sends nothing and deletes nothing.\<close>

definition settles :: "gasless_world \<Rightarrow> gasless_world \<Rightarrow> bool" where
  "settles w w' \<longleftrightarrow> accepted w' = accepted w \<and> map rq_id (sponsored w') = map rq_id (sponsored w) \<and> tick w \<le> tick w'"

lemma settles_trans: "settles u v \<Longrightarrow> settles v w \<Longrightarrow> settles u w"
  by (simp add: settles_def)

lemma quiet_settles: "quiet w w' \<Longrightarrow> settles w w'"
  by (simp add: quiet_def settles_def)

lemma finished_settles: "finished e i oc w w' \<Longrightarrow> settles w w'"
  by (auto simp: finished_def settles_def finish_ids)

definition awaits :: "gasless_world \<Rightarrow> stale_record \<Rightarrow> bool" where
  "awaits w s \<longleftrightarrow> (\<exists>r. sponsor_row_of (sponsored w) (stale_id s) = Some r \<and> \<not> final (rq_status r) \<and>
     stale_hash s = coalesce_text (rq_hash r) \<and> stale_updated s = rq_updated r)"

lemma wp_resolve_all:
  assumes "mono (db_now (rt e))" "dates P"
  shows "\<forall>j. request_ok e k P j w \<Longrightarrow> \<forall>s \<in> set rs. awaits w s \<Longrightarrow> distinct (map stale_id rs) \<Longrightarrow>
    wp (resolve_all e k rs) (\<lambda>_ w'. settles w w' \<and> (\<forall>j. request_ok e k P j w')) w"
proof (induction rs arbitrary: w)
  case Nil
  then show ?case by (simp add: settles_def)
next
  case (Cons s rs w)
  obtain r where r: "sponsor_row_of (sponsored w) (stale_id s) = Some r" "\<not> final (rq_status r)"
      "stale_hash s = coalesce_text (rq_hash r)" "stale_updated s = rq_updated r"
    using Cons.prems(2) by (auto simp: awaits_def)
  have ok: "record_ok e k P (stale_id s) r w" using Cons.prems(1) r(1) by (auto simp: request_ok_def split: option.splits)
  have more: "wp (resolve_all e k rs) (\<lambda>_ w'. settles w w' \<and> (\<forall>j. request_ok e k P j w')) v"
    if "settles w v" "\<forall>j. request_ok e k P j v" "\<forall>s' \<in> set rs. awaits v s'" for v
    using that(1) Cons.prems(3)
    by (intro wp_mono [OF Cons.IH [OF that(2,3)]]) (auto intro: settles_trans)
  show ?case
    unfolding resolve_all.simps
  proof (rule wp_bindI [OF wp_resolve_stale [OF ok r(2-4) assms(2)]], rule wp_optionI, goal_cases)
    case (1 o1 v)
    then have "quiet w v" by simp
    then show ?case
      using Cons.prems(1,2) by (intro more) (auto simp: quiet_settles quiet_request_ok quiet_def awaits_def)
  next
    case (2 o1 v oc)
    then have q: "quiet w v" and true_oc: "outcome_true e k P (stale_id s) r oc v" by simp_all
    have rv: "sponsor_row_of (sponsored v) (stale_id s) = Some r" using q r(1) by (simp add: quiet_def)
    have okv: "record_ok e k P (stale_id s) r v"
      using record_ok_later [OF ok] q quiet_view [OF q] by (simp add: quiet_def)
    show ?case
    proof (rule wp_bindI [OF wp_finish_record], goal_cases)
      case (1 u v')
      note t = finished_touches [OF 1]
      have "request_ok e k P j v'" for j
      proof (cases "j = stale_id s")
        case True
        then show ?thesis using finished_request_ok [OF assms(2,1) rv r(2) okv true_oc 1] by simp
      next
        case False
        then show ?thesis
          by (rule touches_request_ok [OF t]) (use Cons.prems(1) quiet_request_ok [OF q] in blast)
      qed
      moreover have "awaits v' s'" if "s' \<in> set rs" for s'
      proof -
        have "awaits w s'" using that Cons.prems(2) by simp
        moreover have "stale_id s' \<noteq> stale_id s" using imageI [OF that, of stale_id] Cons.prems(3) by auto
        ultimately show ?thesis using q touches_view(1) [OF t] by (simp add: awaits_def quiet_def)
      qed
      ultimately show ?case
        using settles_trans [OF quiet_settles [OF q] finished_settles [OF 1]] by (intro more) auto
    qed
  qed
qed

text \<open>Without any assumption on the network and the clocks, the resolver still only settles.\<close>

lemma wp_resolve_settles: "wp (resolve_stale e k s) (\<lambda>_. quiet w) w"
  by (auto simp: resolve_stale_def quiet_def Let_def split: sum.splits)

lemma wp_resolve_all_settles: "wp (resolve_all e k rs) (\<lambda>_. settles w) w"
proof (induction rs arbitrary: w)
  case (Cons s rs w)
  have more: "wp (resolve_all e k rs) (\<lambda>_. settles w) v" if "settles w v" for v
    by (rule wp_mono [OF Cons.IH]) (rule settles_trans [OF that])
  show ?case
    unfolding resolve_all.simps
  proof (rule wp_bindI [OF wp_resolve_settles], rule wp_optionI, goal_cases)
    case (2 o1 v oc)
    show ?case
      by (rule wp_bindI [OF wp_finish_record])
        (use more settles_trans [OF quiet_settles [OF 2(1)] finished_settles] in blast)
  qed (use more quiet_settles in blast)
qed (simp add: settles_def)

lemma wp_check_loss: "wp (check_loss e threshold) (\<lambda>_. quiet w) w"
  unfolding check_loss_def forward_loss_def wp_bind
  by (rule wp_sponsor_query) (simp_all add: quiet_def split: sum.split)

lemma wp_stale:
  "wp (stale e d) (\<lambda>r w'. w' = w\<lparr>tick := Suc (tick w)\<rparr> \<and>
     (\<forall>rs. r = Inr rs \<longrightarrow> rs = stale_stmt d (db_now (rt e) (tick w)) (sponsored w))) w"
  unfolding stale_def wp_bind by (rule wp_sponsor_query) (simp_all add: wrap_err_def)

lemma stale_rows:
  assumes "distinct (map rq_id rows)"
  shows "distinct (map stale_id (stale_stmt d now rows))"
    and "s \<in> set (stale_stmt d now rows) \<Longrightarrow> \<exists>r. sponsor_row_of rows (stale_id s) = Some r \<and> \<not> final (rq_status r) \<and>
      stale_hash s = coalesce_text (rq_hash r) \<and> stale_updated s = rq_updated r"
proof -
  let ?f = "filter (\<lambda>r. (rq_status r = Pending \<or> rq_status r = Unconfirmed) \<and> rq_updated r < now - d) rows"
  have "distinct (map rq_id (sort_key rq_updated ?f))"
    using assms by (simp add: distinct_map inj_on_def)
  then show "distinct (map stale_id (stale_stmt d now rows))"
    by (simp add: stale_stmt_def o_def take_map [symmetric] distinct_take del: distinct_map)
  show "\<exists>r. sponsor_row_of rows (stale_id s) = Some r \<and> \<not> final (rq_status r) \<and>
      stale_hash s = coalesce_text (rq_hash r) \<and> stale_updated s = rq_updated r"
    if "s \<in> set (stale_stmt d now rows)"
    using that row_of_Some [OF assms]
    by (auto simp: stale_stmt_def final_def dest!: in_set_takeD)
qed

lemma wp_resolver_tick:
  assumes "mono (db_now (rt e))" "dates P" "\<forall>j. request_ok e k P j w" "distinct (map rq_id (sponsored w))"
  shows "wp (resolver_tick e k threshold) (\<lambda>_ w'. settles w w' \<and> (\<forall>j. request_ok e k P j w')) w"
proof -
  let ?w = "w\<lparr>tick := Suc (tick w)\<rparr>"
  have ok: "\<forall>j. request_ok e k P j ?w" using assms(3) quiet_request_ok [OF quiet_tick] by blast
  have loss: "wp (check_loss e threshold) (\<lambda>_ w'. settles w w' \<and> (\<forall>j. request_ok e k P j w')) v"
    if "settles ?w v \<and> (\<forall>j. request_ok e k P j v)" for v
    by (rule wp_mono [OF wp_check_loss])
      (use that settles_trans [OF settles_trans [OF quiet_settles [OF quiet_tick]]] quiet_settles quiet_request_ok in blast)
  show ?thesis
    unfolding resolver_tick_def
  proof (rule wp_bindI [OF wp_stale], goal_cases)
    case (1 r v)
    then have v: "v = ?w" by simp
    have "wp (case r of Inl m \<Rightarrow> ret () | Inr rs \<Rightarrow> resolve_all e k rs)
        (\<lambda>_ w'. settles ?w w' \<and> (\<forall>j. request_ok e k P j w')) ?w"
    proof (rule wp_sumI, goal_cases)
      case (1 m)
      then show ?case using ok by (simp add: settles_def)
    next
      case (2 rs)
      then have rs: "rs = stale_stmt stale_after (db_now (rt e) (tick w)) (sponsored w)"
        using \<open>v = _ \<and> _\<close> by simp
      then have "\<forall>s \<in> set rs. awaits ?w s" using stale_rows(2) [OF assms(4)] by (auto simp: awaits_def)
      then show ?case
        using wp_resolve_all [OF assms(1,2) ok] stale_rows(1) [OF assms(4)] rs by blast
    qed
    then show ?case unfolding v by (rule wp_bindI) (rule loss)
  qed
qed

lemma wp_resolver_tick_settles: "wp (resolver_tick e k threshold) (\<lambda>_. settles w) w"
  unfolding resolver_tick_def
proof (rule wp_bindI [OF wp_stale], goal_cases)
  case (1 r v)
  then have v: "settles w v" by (simp add: settles_def)
  have loss: "wp (check_loss e threshold) (\<lambda>_. settles w) v'" if "settles v v'" for v'
    by (rule wp_mono [OF wp_check_loss]) (use settles_trans [OF v settles_trans [OF that quiet_settles]] in blast)
  have "wp (case r of Inl m \<Rightarrow> ret () | Inr rs \<Rightarrow> resolve_all e k rs) (\<lambda>_. settles v) v"
    by (rule wp_sumI) (simp add: settles_def, rule wp_resolve_all_settles)
  then show ?case by (rule wp_bindI) (rule loss)
qed

end
