(* ===== verification/Gasless_Api.thy ===== *)
theory Gasless_Api
  imports Sponsor_Outcomes Gasless_Ops
begin

text \<open>
  \<open>internal/gasless/api\<close>: the handlers of \<open>submit.go\<close> and \<open>api.go\<close>. A handler is a computation with its
  reply as the result; decoding the body is \<open>encoding/json\<close>, so a handler takes what the decoder
  answered. Then the frame of the handlers: \<open>calm\<close> computations leave submissions alone, and
  \<open>Prepare\<close> adds at most one row, for a request that had none.
\<close>

section \<open>Replies\<close>

datatype reply_body =
    ErrorBody string string
  | RecordBody sponsor_record
  | QuoteBody quote
  | TokensBody "fee_token list" string string
  | HealthBody string string
  | StatusBody string string string string snapshot

record reply =
  reply_status :: nat
  reply_body :: reply_body

definition write_error :: "nat \<Rightarrow> string \<Rightarrow> string \<Rightarrow> reply" where
  "write_error st code msg = \<lparr>reply_status = st, reply_body = ErrorBody code msg\<rparr>"

definition write_record :: "sponsor_record \<Rightarrow> reply" where
  "write_record rc = \<lparr>reply_status = (if final (rec_status rc) then 200 else 202), reply_body = RecordBody rc\<rparr>"

text \<open>\<open>err.Error()\<close>: the sentinel's text and what was wrapped around it.\<close>

fun error_text :: "sponsor_error \<Rightarrow> string" where
  "error_text (ErrInvalid m) = ''invalid request: '' @ m"
| "error_text (ErrNotSponsorable m) = ''transaction is not eligible for sponsorship: '' @ m"
| "error_text ErrForwardNotBuilt = ''forward mode is not configured''"
| "error_text ErrConflict = ''request_id was already used for a different transaction''"
| "error_text ErrWalletCap = ''wallet sponsorship cap reached''"
| "error_text ErrDailyBudget = ''daily sponsorship budget reached''"
| "error_text ErrForwardFailures = ''too many failed user-paid transactions for this wallet; try again later''"
| "error_text ErrForwardInFlight = ''too many user-paid transactions in flight for this wallet; retry once one settles''"
| "error_text (ErrSimulation m) = ''simulation failed: '' @ m"
| "error_text (ErrFeeTooLow m) = ''max_fee_amount does not cover the network fee: '' @ m"
| "error_text (ErrPriceUnavailable m) = ''fee price unavailable: '' @ m"
| "error_text ErrUnavailable = ''sponsorship is unavailable: funder below its floor or not yet checked''"
| "error_text (OtherErr m) = m"

fun prepare_error :: "sponsor_error \<Rightarrow> nat \<times> string" where
  "prepare_error (ErrInvalid m) = (400, ''invalid_request'')"
| "prepare_error (ErrNotSponsorable m) = (403, ''not_sponsorable'')"
| "prepare_error ErrForwardNotBuilt = (501, ''not_implemented'')"
| "prepare_error ErrConflict = (409, ''request_id_conflict'')"
| "prepare_error ErrWalletCap = (429, ''wallet_cap_reached'')"
| "prepare_error ErrDailyBudget = (429, ''daily_budget_reached'')"
| "prepare_error ErrForwardFailures = (429, ''forward_failure_limit'')"
| "prepare_error ErrForwardInFlight = (429, ''forward_in_flight_limit'')"
| "prepare_error (ErrSimulation m) = (422, ''simulation_failed'')"
| "prepare_error (ErrFeeTooLow m) = (422, ''max_fee_too_low'')"
| "prepare_error (ErrPriceUnavailable m) = (503, ''price_unavailable'')"
| "prepare_error ErrUnavailable = (503, ''sponsorship_unavailable'')"
| "prepare_error (OtherErr m) = (500, ''internal'')"

definition refusal :: "sponsor_error \<Rightarrow> reply" where
  "refusal err =
     (case prepare_error err of (st, code) \<Rightarrow>
        write_error st code (if st = 500 then ''internal error'' else error_text err))"

section \<open>Handlers\<close>

text \<open>
  \<open>Submit\<close> up to the \<open>select\<close>: an answer at once, or the submission handed to the background
  (\<open>Work.Go\<close>), which \<open>sponsor_submit\<close> then runs.
\<close>

definition handle_submit ::
  "gasless_runtime \<Rightarrow> gasless_sdk \<Rightarrow> sponsor_config \<Rightarrow> string + request \<Rightarrow> (reply + prepared_tx) gasless"
where
  "handle_submit e k cfg body =
     (case body of
        Inl m \<Rightarrow> ret (Inl (write_error 400 ''invalid_request'' (''body must be a JSON submit request: '' @ m)))
      | Inr req \<Rightarrow> do {
          r \<leftarrow> prepare e k cfg req;
          ret (case r of
                 Inl err \<Rightarrow> Inl (refusal err)
               | Inr (p, existing) \<Rightarrow> if existing then Inl (write_record (pr_record p)) else Inr p) })"

text \<open>The \<open>select\<close>: the run ended within \<open>SyncWait\<close>, it did not, or the caller left (no answer).\<close>

datatype submit_wait = RunDone sponsor_record | WaitOver | CallerLeft

fun submit_answer :: "prepared_tx \<Rightarrow> submit_wait \<Rightarrow> reply option" where
  "submit_answer p (RunDone rc) = Some (write_record rc)"
| "submit_answer p WaitOver = Some (write_record (pr_record p))"
| "submit_answer p CallerLeft = None"

definition handle_get :: "gasless_runtime \<Rightarrow> string \<Rightarrow> reply gasless" where
  "handle_get e i = do {
     r \<leftarrow> get_record e i;
     ret (case r of
            Inl m \<Rightarrow> write_error 500 ''internal'' ''internal error''
          | Inr None \<Rightarrow> write_error 404 ''not_found'' ''no submission with that request_id''
          | Inr (Some rc) \<Rightarrow> write_record rc)
   }"

definition handle_quote ::
  "gasless_runtime \<Rightarrow> sponsor_config \<Rightarrow> string + string \<times> int \<Rightarrow> reply gasless"
where
  "handle_quote e cfg body =
     (case body of
        Inl m \<Rightarrow> ret (write_error 400 ''invalid_request'' (''body must be {fee_token, resource_fee_stroops}: '' @ m))
      | Inr (token, resource) \<Rightarrow> do {
          r \<leftarrow> price_quote e cfg token resource;
          ret (case r of Inl err \<Rightarrow> refusal err | Inr q \<Rightarrow> \<lparr>reply_status = 200, reply_body = QuoteBody q\<rparr>) })"

definition handle_fee_tokens :: "sponsor_config \<Rightarrow> reply" where
  "handle_fee_tokens cfg =
     (case list_fee_tokens cfg of
        None \<Rightarrow> write_error 501 ''not_implemented'' (error_text ErrForwardNotBuilt)
      | Some ts \<Rightarrow> (case forward_addresses cfg of (fwd, relayer) \<Rightarrow>
          \<lparr>reply_status = 200, reply_body = TokensBody ts fwd relayer\<rparr>))"

text \<open>\<open>Health\<close>: \<open>ping\<close> is the database's answer to \<open>Ping\<close>.\<close>

definition handle_health :: "bool \<Rightarrow> reply gasless" where
  "handle_health ping =
     (if \<not> ping then ret \<lparr>reply_status = 503, reply_body = HealthBody ''down'' ''unreachable''\<rparr>
      else do {
        s \<leftarrow> gets snap;
        ret \<lparr>reply_status = 200, reply_body = HealthBody (service_status s) ''ok''\<rparr> })"

definition handle_status :: "string \<Rightarrow> string \<Rightarrow> string \<Rightarrow> reply gasless" where
  "handle_status fwd exec fund = do {
     s \<leftarrow> gets snap;
     ret \<lparr>reply_status = 200, reply_body = StatusBody (service_status s) fwd exec fund s\<rparr>
   }"

section \<open>Calm computations\<close>

definition calm :: "'a gasless \<Rightarrow> bool" where
  "calm m \<longleftrightarrow> (\<forall>w. wp m (\<lambda>_. quiet w) w)"

named_theorems calm_rules

lemma calmI: "(\<And>w. wp m (\<lambda>_. quiet w) w) \<Longrightarrow> calm m"
  by (simp add: calm_def)

lemma calmD: "calm m \<Longrightarrow> wp m (\<lambda>_. quiet w) w"
  by (simp add: calm_def)

lemma calm_return [calm_rules]: "calm (ret a)"
  by (simp add: calm_def)

lemma calm_ask [calm_rules]: "calm (ask f)"
  by (simp add: calm_def)

lemma calm_gets [calm_rules]: "calm (gets f)"
  by (simp add: calm_def)

lemma calm_modify [calm_rules]: "(\<And>w. quiet w (f w)) \<Longrightarrow> calm (modify f)"
  by (simp add: calm_def)

lemma calm_bind [calm_rules]: "calm m \<Longrightarrow> (\<And>a. calm (f a)) \<Longrightarrow> calm (m \<bind> f)"
  by (rule calmI, rule wp_bindI [OF calmD], assumption)
    (blast intro: wp_mono [OF calmD] quiet_trans)

lemma calm_if [calm_rules]: "(b \<Longrightarrow> calm m) \<Longrightarrow> (\<not> b \<Longrightarrow> calm n) \<Longrightarrow> calm (if b then m else n)"
  by simp

lemma calm_sum [calm_rules]:
  "(\<And>x. r = Inl x \<Longrightarrow> calm (f x)) \<Longrightarrow> (\<And>y. r = Inr y \<Longrightarrow> calm (g y)) \<Longrightarrow> calm (case r of Inl x \<Rightarrow> f x | Inr y \<Rightarrow> g y)"
  by (simp split: sum.split)

lemma calm_option [calm_rules]:
  "(r = None \<Longrightarrow> calm m) \<Longrightarrow> (\<And>y. r = Some y \<Longrightarrow> calm (g y)) \<Longrightarrow> calm (case r of None \<Rightarrow> m | Some y \<Rightarrow> g y)"
  by (simp split: option.split)

lemma calm_prod [calm_rules]: "(\<And>a b. x = (a, b) \<Longrightarrow> calm (f a b)) \<Longrightarrow> calm (case x of (a, b) \<Rightarrow> f a b)"
  by (simp split: prod.split)

lemma calm_query [calm_rules]: "calm (sponsor_query e q)"
  by (rule calmI, rule wp_sponsor_query) simp_all

lemma calm_source [calm_rules]: "calm (source_xlm_usd e src)"
  unfolding source_xlm_usd_def fetch_price_def
  by (cases src) (auto intro!: calm_rules simp: quiet_def)

lemma calm_fee_in_token [calm_rules]: "calm (fee_in_token e f token stroops)"
  unfolding fee_in_token_def xlm_usd_def by (intro calm_rules) (simp add: quiet_def)

lemma calm_simulate_raw [calm_rules]: "calm (simulate_raw e k cfg c am)"
  unfolding simulate_raw_def by (intro calm_rules)

lemma calm_fee_for [calm_rules]: "calm (fee_for e f fc inclusion resource)"
  unfolding fee_for_def by (intro calm_rules)

lemma calm_price_forward [calm_rules]: "calm (price_forward e k cfg f c fc inclusion)"
  unfolding price_forward_def price_enforced_def by (intro calm_rules)

lemma calm_quote: "calm (price_quote e cfg token resource)"
  unfolding price_quote_def by (intro calm_rules)

lemma calm_get_record [calm_rules]: "calm (get_record e i)"
  unfolding get_record_def by (intro calm_rules)

lemma calm_monitor: "calm (monitor_check e k mc)"
  by (rule calmI, rule wp_mono [OF wp_monitor_check]) (simp add: quiet_def)

lemma calm_handlers:
  "calm (handle_get e i)" "calm (handle_quote e cfg body)" "calm (handle_health ping)" "calm (handle_status a b c)"
  unfolding handle_get_def handle_quote_def handle_health_def handle_status_def
  by (intro calm_rules calm_quote)+

section \<open>Admission\<close>

text \<open>A row appended for request \<open>i\<close>, which had none, by a statement between the two worlds.\<close>

definition new_row :: "gasless_runtime \<Rightarrow> string \<Rightarrow> gasless_world \<Rightarrow> gasless_world \<Rightarrow> bool" where
  "new_row e i w w' \<longleftrightarrow> sponsor_row_of (sponsored w) i = None \<and>
     (\<exists>n res. tick w \<le> n \<and> n < tick w' \<and> rsv_id res = i \<and>
        sponsored w' = sponsored w @ [new_sponsor_row (db_now (rt e) n) res])"

definition admits :: "gasless_runtime \<Rightarrow> string \<Rightarrow> gasless_world \<Rightarrow> gasless_world \<Rightarrow> bool" where
  "admits e i w w' \<longleftrightarrow> accepted w' = accepted w \<and> tick w \<le> tick w' \<and>
     (sponsored w' = sponsored w \<or> new_row e i w w')"

definition job_for :: "gasless_runtime \<Rightarrow> string \<Rightarrow> gasless_world \<Rightarrow> prepared_tx \<Rightarrow> gasless_world \<Rightarrow> bool" where
  "job_for e i w p w' \<longleftrightarrow> rec_id (pr_record p) = i \<and> new_row e i w w'"

lemma quiet_admits: "quiet w w' \<Longrightarrow> admits e i w w'"
  by (simp add: quiet_def admits_def)

lemma admits_before: "quiet u v \<Longrightarrow> admits e i v w \<Longrightarrow> admits e i u w"
  by (auto simp: quiet_def admits_def new_row_def intro: le_trans)

lemma job_before: "quiet u v \<Longrightarrow> job_for e i v p w \<Longrightarrow> job_for e i u p w"
  by (auto simp: quiet_def job_for_def new_row_def intro: le_trans)

lemma reserve_new:
  assumes "fst (reserve_stmt res lims now rows) = Inr (rc, False)"
  shows "rec_id rc = rsv_id res" "sponsor_row_of rows (rsv_id res) = None"
    "snd (reserve_stmt res lims now rows) = rows @ [new_sponsor_row now res]"
  using assms
  by (auto simp: reserve_stmt_def get_record_stmt_def sponsor_row_of_def new_sponsor_row_def scan_record_def
      split: option.splits if_splits)

lemma reserve_admits:
  assumes "tick w \<le> n" "n < tick w'" "accepted w' = accepted w"
    and "sponsored w' = snd (reserve_stmt res lims (db_now (rt e) n) (sponsored w))"
  shows "admits e (rsv_id res) w w'"
proof (cases rule: reserve_cases [of res lims "db_now (rt e) n" "sponsored w"])
  case new
  then show ?thesis using assms unfolding admits_def new_row_def by auto
qed (use assms in \<open>simp add: admits_def\<close>)

lemma wp_reserve:
  "wp (reserve e lims res) (\<lambda>r w'. admits e (rsv_id res) w w' \<and>
     (\<forall>rc. r = Inr (rc, False) \<longrightarrow> rec_id rc = rsv_id res \<and> new_row e (rsv_id res) w w')) w"
  unfolding reserve_def wp_bind wp_return
proof (rule wp_sponsor_stmt, goal_cases)
  case (1 a)
  let ?w = "w\<lparr>tick := Suc (tick w), sponsored := snd (reserve_stmt res lims (db_now (rt e) (tick w)) (sponsored w))\<rparr>"
  have "admits e (rsv_id res) w ?w" by (rule reserve_admits [of w "tick w"]) simp_all
  moreover have "rec_id rc = rsv_id res \<and> new_row e (rsv_id res) w ?w" if "a = Inr (rc, False)" for rc
    using reserve_new [of res lims _ "sponsored w" rc] that 1 unfolding new_row_def by auto
  ultimately show ?case by simp
next
  case (3 m)
  have "admits e (rsv_id res) w
      (w\<lparr>tick := Suc (tick w), sponsored := snd (reserve_stmt res lims (db_now (rt e) (tick w)) (sponsored w))\<rparr>)"
    by (rule reserve_admits [of w "tick w"]) simp_all
  then show ?case by simp
qed (simp add: admits_def)

lemma calm_then:
  assumes "calm m" "\<And>a v. quiet w v \<Longrightarrow> wp (f a) Q v"
  shows "wp (m \<bind> f) Q w"
  by (rule wp_bindI [OF calmD [OF assms(1)]]) (rule assms(2))

definition prepared_post :: "gasless_runtime \<Rightarrow> string \<Rightarrow> gasless_world \<Rightarrow> sponsor_error + prepared_tx \<times> bool \<Rightarrow> gasless_world \<Rightarrow> bool"
where
  "prepared_post e i w r w' \<longleftrightarrow> admits e i w w' \<and> (\<forall>p. r = Inr (p, False) \<longrightarrow> job_for e i w p w')"

lemma prepared_before: "quiet u v \<Longrightarrow> prepared_post e i v r w \<Longrightarrow> prepared_post e i u r w"
  by (auto simp: prepared_post_def intro: admits_before job_before)

lemma prepared_refused: "quiet w v \<Longrightarrow> (\<And>p. r \<noteq> Inr (p, False)) \<Longrightarrow> prepared_post e i w r v"
  by (simp add: prepared_post_def quiet_admits)

lemma wp_reserve_call:
  "wp (reserve_call e k cfg req c contract fn fee inclusion) (prepared_post e (request_id req) w) w"
  unfolding reserve_call_def
proof (rule calm_then, goal_cases)
  case 1
  show ?case unfolding simulate_def by (intro calm_rules)
next
  case (2 r v)
  show ?case
  proof (rule wp_sumI, goal_cases)
    case (1 err)
    then show ?case using 2 by (simp add: prepared_refused)
  next
    case (2 sd)
    show ?case
    proof (rule wp_bindI [OF wp_reserve], goal_cases)
      case (1 r' v')
      then have "prepared_post e (request_id req) v
          (case r' of Inl err \<Rightarrow> Inl err
           | Inr (rc, existing) \<Rightarrow>
               Inr (\<lparr>pr_record = rc, pr_call = c, pr_data = sd, pr_inclusion = inclusion\<rparr>, existing)) v'"
        by (auto simp: prepared_post_def job_for_def split: sum.split)
      then show ?case using prepared_before [OF \<open>quiet w v\<close>] by simp
    qed
  qed
qed

lemma wp_prepare_new: "wp (prepare_new e k cfg req c) (prepared_post e (request_id req) w) w"
proof -
  have call: "wp (reserve_call e k cfg req c' ct fn fee inclusion) (prepared_post e (request_id req) w) v"
    if "quiet w v" for v c' ct fn fee inclusion
    by (rule wp_mono [OF wp_reserve_call]) (rule prepared_before [OF that])
  have fwd: "wp (case parse_forward k f c (wallet req) of
       Inl err \<Rightarrow> ret (Inl err)
     | Inr fc \<Rightarrow> do {
         p \<leftarrow> price_forward e k cfg f c fc inclusion;
         (case p of
            Inl err \<Rightarrow> ret (Inl err)
          | Inr (c', fee) \<Rightarrow> reserve_call e k cfg req c' (fc_target fc) (fc_target_fn fc) (Some fee) inclusion) })
     (prepared_post e (request_id req) w) v" if q: "quiet w v" for v f inclusion
  proof (rule wp_sumI, goal_cases)
    case (2 fc)
    show ?case
    proof (rule calm_then [OF calm_price_forward], rule wp_sumI, goal_cases)
      case (2 a v' y)
      then show ?case using call [OF quiet_trans [OF q]] by (cases y) simp
    qed (use prepared_refused quiet_trans [OF q] in simp)
  qed (use prepared_refused [OF q] in simp)
  have body: "wp (do {
        inclusion \<leftarrow> inclusion_fee e cfg;
        (case sc_forward cfg of
           Some f \<Rightarrow>
             if mode req = mode_forward then
               (case parse_forward k f c (wallet req) of
                  Inl err \<Rightarrow> ret (Inl err)
                | Inr fc \<Rightarrow> do {
                    p \<leftarrow> price_forward e k cfg f c fc inclusion;
                    (case p of
                       Inl err \<Rightarrow> ret (Inl err)
                     | Inr (c', fee) \<Rightarrow>
                         reserve_call e k cfg req c' (fc_target fc) (fc_target_fn fc) (Some fee) inclusion) })
             else reserve_call e k cfg req c (call_contract c) (call_function c) None inclusion
         | None \<Rightarrow> reserve_call e k cfg req c (call_contract c) (call_function c) None inclusion) })
     (prepared_post e (request_id req) w) w"
  proof (rule calm_then, goal_cases)
    case 1
    show ?case unfolding inclusion_fee_def by (intro calm_rules)
  next
    case (2 a v)
    then show ?case by (cases "sc_forward cfg") (simp_all add: call fwd)
  qed
  show ?thesis
    unfolding prepare_new_def wp_bind wp_gets
    by (rule wp_ifI) (simp add: prepared_refused, rule body)
qed

lemma wp_sponsor_prepare: "wp (prepare e k cfg req) (prepared_post e (request_id req) w) w"
  unfolding prepare_def
proof (rule wp_sumI, goal_cases)
  case (2 c)
  show ?case
  proof (rule calm_then [OF calm_get_record], rule wp_sumI, goal_cases)
    case (2 g v y)
    show ?case
    proof (rule wp_optionI, goal_cases)
      case 1
      show ?case by (rule wp_mono [OF wp_prepare_new]) (rule prepared_before [OF 2(1)])
    qed (use 2 in \<open>auto intro: prepared_refused\<close>)
  qed (simp add: prepared_refused)
qed (simp add: prepared_refused)

text \<open>What a submission leaves: nothing sent, at most a row for a request that had none, then alone a job.\<close>

lemma wp_handle_submit:
  "wp (handle_submit e k cfg body) (\<lambda>r w'. (\<exists>i. admits e i w w') \<and>
     (\<forall>p. r = Inr p \<longrightarrow> job_for e (rec_id (pr_record p)) w p w' \<and> accepted w' = accepted w)) w"
  unfolding handle_submit_def
proof (rule wp_sumI, goal_cases)
  case (2 req)
  show ?case
  proof (rule wp_bindI [OF wp_sponsor_prepare], goal_cases)
    case (1 r v)
    then show ?case
      by (auto simp: prepared_post_def job_for_def admits_def split: sum.split prod.split)
  qed
qed (auto intro!: exI quiet_admits)

end
