(* ===== verification/Gasless_Service.thy ===== *)
theory Gasless_Service
  imports Gasless_Api
begin

text \<open>
  The gasless service as a step relation over the database, the network's log and the background
  submissions: a submission arrives, a background run is carried out, the resolver ticks, the
  monitor checks, a process stops. The flag \<open>prompt\<close> says that a run starts before the resolver has
  settled its record, which \<open>SetHash\<close> does not check. What is shown of every reachable state: a
  request is paid for at most once (no assumption at all), and, under the stated assumptions on
  clocks and network, a record tells what happened to its transaction.
\<close>

section \<open>Steps\<close>

record service =
  g_world :: gasless_world
  g_jobs :: "prepared_tx list"

abbreviation job_id :: "prepared_tx \<Rightarrow> string" where
  "job_id p \<equiv> rec_id (pr_record p)"

inductive gasless_step ::
  "bool \<Rightarrow> gasless_runtime \<Rightarrow> gasless_sdk \<Rightarrow> sponsor_config \<Rightarrow> monitor_config \<Rightarrow> service \<Rightarrow> service \<Rightarrow> bool"
  for prompt e k cfg mc
where
  accept: "run_state (handle_submit e k cfg body) (g_world s) = (Inr p, w) \<Longrightarrow>
    gasless_step prompt e k cfg mc s (s\<lparr>g_world := w, g_jobs := g_jobs s @ [p]\<rparr>)"
| answer: "run_state (handle_submit e k cfg body) (g_world s) = (Inl reply, w) \<Longrightarrow>
    gasless_step prompt e k cfg mc s (s\<lparr>g_world := w\<rparr>)"
| work: "p \<in> set (g_jobs s) \<Longrightarrow> (prompt \<Longrightarrow> open_row (job_id p) (g_world s)) \<Longrightarrow>
    run_state (sponsor_submit e k cfg p) (g_world s) = (rc, w) \<Longrightarrow>
    gasless_step prompt e k cfg mc s (s\<lparr>g_world := w, g_jobs := remove1 p (g_jobs s)\<rparr>)"
| resolve: "run_state (resolver_tick e k threshold) (g_world s) = (u, w) \<Longrightarrow>
    gasless_step prompt e k cfg mc s (s\<lparr>g_world := w\<rparr>)"
| monitor: "run_state (monitor_check e k mc) (g_world s) = (u, w) \<Longrightarrow>
    gasless_step prompt e k cfg mc s (s\<lparr>g_world := w\<rparr>)"
| read: "calm m \<Longrightarrow> run_state m (g_world s) = (r :: reply, w) \<Longrightarrow>
    gasless_step prompt e k cfg mc s (s\<lparr>g_world := w\<rparr>)"
| stop: "p \<in> set (g_jobs s) \<Longrightarrow>
    gasless_step prompt e k cfg mc s (s\<lparr>g_jobs := remove1 p (g_jobs s)\<rparr>)"
| restart: "gasless_step prompt e k cfg mc s
    (s\<lparr>g_jobs := [], g_world := (g_world s)\<lparr>snap := no_snapshot, cache_price := float_zero, last_good := float_zero,
        over_sweep := [], loss_alerting := False\<rparr>\<rparr>)"

definition gasless_init :: "service \<Rightarrow> bool" where
  "gasless_init s \<longleftrightarrow> sponsored (g_world s) = [] \<and> accepted (g_world s) = [] \<and> g_jobs s = []"

inductive gasless_reachable ::
  "bool \<Rightarrow> gasless_runtime \<Rightarrow> gasless_sdk \<Rightarrow> sponsor_config \<Rightarrow> monitor_config \<Rightarrow> service \<Rightarrow> bool"
  for prompt e k cfg mc
where
  start: "gasless_init s \<Longrightarrow> gasless_reachable prompt e k cfg mc s"
| step: "gasless_reachable prompt e k cfg mc s \<Longrightarrow> gasless_step prompt e k cfg mc s s' \<Longrightarrow>
    gasless_reachable prompt e k cfg mc s'"

text \<open>
  An interface for invariants: what a client must show of each kind of step, in terms of the frame
  of that step; the rule induction is done here once.
\<close>

locale gasless_invariant =
  fixes prompt :: bool and e :: gasless_runtime and k :: gasless_sdk and cfg :: sponsor_config
    and mc :: monitor_config and I :: "gasless_world \<Rightarrow> prepared_tx list \<Rightarrow> bool"
  assumes at_start: "sponsored w = [] \<Longrightarrow> accepted w = [] \<Longrightarrow> I w []"
    and quietly: "I w js \<Longrightarrow> quiet w w' \<Longrightarrow> I w' js"
    and admitting: "I w js \<Longrightarrow> admits e i w w' \<Longrightarrow> I w' js"
    and accepting: "I w js \<Longrightarrow> job_for e (job_id p) w p w' \<Longrightarrow> accepted w' = accepted w \<Longrightarrow> tick w \<le> tick w' \<Longrightarrow>
      I w' (js @ [p])"
    and working: "I w js \<Longrightarrow> p \<in> set js \<Longrightarrow> (prompt \<Longrightarrow> open_row (job_id p) w) \<Longrightarrow>
      wp (sponsor_submit e k cfg p) (\<lambda>_ w'. I w' (remove1 p js)) w"
    and resolving: "I w js \<Longrightarrow> wp (resolver_tick e k threshold) (\<lambda>_ w'. I w' js) w"
    and dropping: "I w js \<Longrightarrow> p \<in> set js \<Longrightarrow> I w (remove1 p js)"
    and stopping: "I w js \<Longrightarrow> I w []"
begin

lemma kept:
  assumes "gasless_step prompt e k cfg mc s s'" "I (g_world s) (g_jobs s)"
  shows "I (g_world s') (g_jobs s')"
  using assms(1)
proof cases
  case (accept body p w)
  from wp_run [OF accept(2) wp_handle_submit] have "job_for e (job_id p) (g_world s) p w" "accepted w = accepted (g_world s)"
      "tick (g_world s) \<le> tick w"
    by (auto simp: admits_def)
  then show ?thesis using accept(1) accepting [OF assms(2)] by simp
next
  case (answer body rp w)
  from wp_run [OF answer(2) wp_handle_submit] show ?thesis
    using answer(1) admitting [OF assms(2)] by auto
next
  case (work p rc w)
  from wp_run [OF work(4) working [OF assms(2) work(2,3)]] show ?thesis using work(1) by simp
next
  case (resolve threshold u w)
  from wp_run [OF resolve(2) resolving [OF assms(2)]] show ?thesis using resolve(1) by simp
next
  case (monitor u w)
  from wp_run [OF monitor(2) calmD [OF calm_monitor]] show ?thesis
    using monitor(1) quietly [OF assms(2)] by simp
next
  case (read m r w)
  from wp_run [OF read(3) calmD [OF read(2)]] show ?thesis using read(1) quietly [OF assms(2)] by simp
next
  case (stop p)
  then show ?thesis using dropping [OF assms(2)] by simp
next
  case restart
  then show ?thesis using quietly [OF stopping [OF assms(2)]] by (simp add: quiet_def)
qed

lemma holds: "gasless_reachable prompt e k cfg mc s \<Longrightarrow> I (g_world s) (g_jobs s)"
proof (induction rule: gasless_reachable.induct)
  case (start s)
  then show ?case using at_start by (simp add: gasless_init_def)
next
  case (step s s')
  then show ?case using kept by blast
qed

end

section \<open>Paid once\<close>

definition once_inv :: "gasless_world \<Rightarrow> prepared_tx list \<Rightarrow> bool" where
  "once_inv w js \<longleftrightarrow> distinct (map job_id js) \<and>
     (\<forall>p \<in> set js. none_sent (job_id p) w \<and> job_id p \<in> rq_id ` set (sponsored w)) \<and>
     (\<forall>i. at_most_one i w) \<and> (\<forall>i. i \<notin> rq_id ` set (sponsored w) \<longrightarrow> none_sent i w)"

lemma ids_set: "map rq_id xs = map rq_id ys \<Longrightarrow> rq_id ` set xs = rq_id ` set ys"
  by (metis list.set_map)

lemma once_settles:
  assumes "once_inv w js" "settles w w'"
  shows "once_inv w' js"
  using assms ids_set [of "sponsored w'" "sponsored w"]
  by (simp add: once_inv_def settles_def none_sent_def at_most_one_def sole_def)

lemma once_admits:
  assumes "once_inv w js" "admits e i w w'"
  shows "once_inv w' js"
proof -
  have "rq_id ` set (sponsored w) \<subseteq> rq_id ` set (sponsored w')" using assms(2) by (auto simp: admits_def new_row_def)
  moreover have "accepted w' = accepted w" using assms(2) by (simp add: admits_def)
  ultimately have "none_sent j w' = none_sent j w" "at_most_one j w' = at_most_one j w"
      "j \<in> rq_id ` set (sponsored w) \<Longrightarrow> j \<in> rq_id ` set (sponsored w')" for j
    by (auto simp: none_sent_def at_most_one_def sole_def)
  then show ?thesis using assms(1) unfolding once_inv_def by blast
qed

lemma once_fewer: "once_inv w js \<Longrightarrow> p \<in> set js \<Longrightarrow> once_inv w (remove1 p js)"
  using set_remove1_subset [of p js] by (auto simp: once_inv_def distinct_map intro: inj_on_subset)

lemma once_accepts:
  assumes "once_inv w js" "job_for e (job_id p) w p w'" "accepted w' = accepted w" "tick w \<le> tick w'"
  shows "once_inv w' (js @ [p])"
proof -
  have "admits e (job_id p) w w'" using assms(2-4) by (simp add: admits_def job_for_def)
  then have inv: "once_inv w' js" by (rule once_admits [OF assms(1)])
  have fresh: "job_id p \<notin> rq_id ` set (sponsored w)"
    using assms(2) by (simp add: job_for_def new_row_def row_of_None)
  have "job_id p \<in> rq_id ` set (sponsored w')"
    using assms(2) by (auto simp: job_for_def new_row_def new_sponsor_row_def)
  moreover have "none_sent (job_id p) w'"
    using assms(1,3) fresh by (auto simp: once_inv_def none_sent_def)
  moreover have "job_id p \<notin> job_id ` set js" using assms(1) fresh by (auto simp: once_inv_def)
  ultimately show ?thesis using inv by (auto simp: once_inv_def)
qed

text \<open>A step confined to one of the jobs, which it takes off the list.\<close>

lemma once_works:
  assumes "once_inv w js" "p \<in> set js" "touches (job_id p) w w'" "at_most_one (job_id p) w'"
  shows "once_inv w' (remove1 p js)"
proof -
  have ids: "rq_id ` set (sponsored w') = rq_id ` set (sponsored w)"
    using assms(3) by (intro ids_set) (simp add: touches_def)
  have d: "distinct js" "inj_on job_id (set js)" using assms(1) by (simp_all add: once_inv_def distinct_map)
  have other: "none_sent (job_id q) w' \<and> job_id q \<in> rq_id ` set (sponsored w')" if "q \<in> set (remove1 p js)" for q
  proof -
    have q: "q \<in> set js" "q \<noteq> p" using that d(1) by auto
    then have "job_id q \<noteq> job_id p" using d(2) assms(2) by (auto dest: inj_onD)
    then show ?thesis using assms(1) q(1) ids touches_view(2) [OF assms(3)] by (auto simp: once_inv_def)
  qed
  have one: "at_most_one i w'" for i
    using assms(1,4) touches_view(2,3) [OF assms(3), of i] by (cases "i = job_id p") (auto simp: once_inv_def at_most_one_def)
  have none: "none_sent i w'" if "i \<notin> rq_id ` set (sponsored w')" for i
  proof -
    have "i \<notin> rq_id ` set (sponsored w)" using that ids by simp
    moreover have "i \<noteq> job_id p" using calculation assms(1,2) by (auto simp: once_inv_def)
    ultimately show ?thesis using assms(1) touches_view(2) [OF assms(3)] by (simp add: once_inv_def)
  qed
  have "distinct (map job_id (remove1 p js))" using d by (auto simp: distinct_map intro: inj_on_subset)
  then show ?thesis unfolding once_inv_def using other one none by blast
qed

interpretation once: gasless_invariant prompt e k cfg mc once_inv for prompt e k cfg mc
proof (unfold_locales, goal_cases)
  case (1 w)
  then show ?case by (simp add: once_inv_def none_sent_def at_most_one_def)
next
  case (2 w js w')
  then show ?case using once_settles quiet_settles by blast
next
  case (3 w js i w')
  then show ?case using once_admits by blast
next
  case (4 w js p w')
  then show ?case using once_accepts by blast
next
  case (5 w js p)
  then have "none_sent (job_id p) w" by (simp add: once_inv_def)
  then show ?case by (rule wp_mono [OF run_once [OF _ refl]]) (use once_works [OF 5(1,2)] in blast)
next
  case (6 w js threshold)
  then show ?case by (intro wp_mono [OF wp_resolver_tick_settles]) (rule once_settles)
next
  case (7 w js p)
  then show ?case by (rule once_fewer)
next
  case (8 w js)
  then show ?case by (simp add: once_inv_def)
qed

text \<open>
  C5: a request is paid for at most once. In every state the service can reach, whatever the database,
  the clocks, the RPC and the price service answered, whichever processes stopped and whenever the
  background runs took place, the network has been given at most one transaction for a request id
  that it may include, and none for an id that has no record.
\<close>

theorem request_paid_once:
  assumes "gasless_reachable prompt e k cfg mc s"
  shows "((i, x) \<in> set (accepted (g_world s)) \<longrightarrow> (i, y) \<in> set (accepted (g_world s)) \<longrightarrow> x = y) \<and>
    ((i, x) \<in> set (accepted (g_world s)) \<longrightarrow> sponsor_row_of (sponsored (g_world s)) i \<noteq> None)"
proof -
  have "at_most_one i (g_world s)" and row: "i \<notin> rq_id ` set (sponsored (g_world s)) \<longrightarrow> none_sent i (g_world s)"
    using once.holds [OF assms] by (simp_all add: once_inv_def)
  then have "x = y" if "(i, x) \<in> set (accepted (g_world s))" "(i, y) \<in> set (accepted (g_world s))"
    using that by (simp add: at_most_one_def none_sent_def sole_def) metis
  moreover have "sponsor_row_of (sponsored (g_world s)) i \<noteq> None" if "(i, x) \<in> set (accepted (g_world s))"
    using that row unfolding row_of_None none_sent_def by blast
  ultimately show ?thesis by blast
qed

section \<open>Records are true\<close>

lemma sent_not_none: "(i, x) \<in> set (accepted w) \<Longrightarrow> \<not> none_sent i w"
  by (auto simp: none_sent_def)

lemma sent_sole: "(i, x) \<in> set (accepted w) \<Longrightarrow> sole i y w \<Longrightarrow> y = x"
  by (simp add: sole_def)

lemma wp_True: "wp m (\<lambda>_ _. True) w"
  by (rule wp_runI) simp

definition true_inv ::
  "gasless_runtime \<Rightarrow> gasless_sdk \<Rightarrow> (string \<Rightarrow> instant \<Rightarrow> bool) \<Rightarrow> gasless_world \<Rightarrow> prepared_tx list \<Rightarrow> bool"
where
  "true_inv e k P w js \<longleftrightarrow> once_inv w js \<and> distinct (map rq_id (sponsored w)) \<and> (\<forall>i. request_ok e k P i w)"

definition dated :: "gasless_runtime \<Rightarrow> gasless_sdk \<Rightarrow> sponsor_config \<Rightarrow> (string \<Rightarrow> instant \<Rightarrow> bool) \<Rightarrow> bool" where
  "dated e k cfg P \<longleftrightarrow> mono (db_now (rt e)) \<and> dates P \<and> seals e k cfg P"

lemma true_quiet:
  assumes "true_inv e k P w js" "quiet w w'"
  shows "true_inv e k P w' js"
proof -
  have "sponsored w' = sponsored w" using assms(2) by (simp add: quiet_def)
  then show ?thesis
    using assms(1) once_settles [OF _ quiet_settles [OF assms(2)]] quiet_request_ok [OF assms(2)]
    unfolding true_inv_def by simp
qed

lemma row_of_append:
  "sponsor_row_of (rows @ [r]) i =
    (case sponsor_row_of rows i of None \<Rightarrow> if rq_id r = i then Some r else None | Some x \<Rightarrow> Some x)"
  by (simp add: sponsor_row_of_def select_one_def find_append split: option.split)

lemma new_row_ok:
  assumes "mono (db_now (rt e))" "tick w \<le> n" "n < tick w'" "none_sent (rsv_id res) w'"
  shows "record_ok e k P (rsv_id res) (new_sponsor_row (db_now (rt e) n) res) w'"
proof -
  have "db_now (rt e) n \<le> db_now (rt e) m" if "tick w' \<le> m" for m
    using that assms(3) by (intro monoD [OF assms(1)]) simp
  then show ?thesis using assms(4) by (simp add: record_ok_def open_ok_def new_sponsor_row_def)
qed

lemma admits_request_ok:
  assumes "mono (db_now (rt e))" "admits e i w w'" "request_ok e k P j w"
  shows "request_ok e k P j w'"
proof -
  have acc: "accepted w' = accepted w" "tick w \<le> tick w'" using assms(2) by (simp_all add: admits_def)
  then have view: "none_sent j w' = none_sent j w" "\<And>x. sole j x w' = sole j x w"
    by (simp_all add: none_sent_def sole_def)
  have later: "record_ok e k P j r w'" if "record_ok e k P j r w" for r
    using record_ok_later [OF that acc(2) view] .
  from assms(2) consider (same) "sponsored w' = sponsored w"
    | (new) n res where "tick w \<le> n" "n < tick w'" "rsv_id res = i"
        "sponsored w' = sponsored w @ [new_sponsor_row (db_now (rt e) n) res]"
    by (auto simp: admits_def new_row_def)
  then show ?thesis
  proof cases
    case same
    then show ?thesis using assms(3) later view by (auto simp: request_ok_def split: option.splits)
  next
    case new
    have "rq_id (new_sponsor_row (db_now (rt e) n) res) = i" using new(3) by (simp add: new_sponsor_row_def)
    then show ?thesis
      using assms(3) later view new new_row_ok [OF assms(1) new(1,2), of res k P]
      by (auto simp: request_ok_def row_of_append split: option.splits)
  qed
qed

lemma admits_distinct: "admits e i w w' \<Longrightarrow> distinct (map rq_id (sponsored w)) \<Longrightarrow> distinct (map rq_id (sponsored w'))"
  by (auto simp: admits_def new_row_def row_of_None new_sponsor_row_def)

lemma true_admits:
  assumes "mono (db_now (rt e))" "true_inv e k P w js" "admits e i w w'"
  shows "true_inv e k P w' js"
  using assms once_admits admits_distinct admits_request_ok unfolding true_inv_def by blast

lemma open_dated:
  assumes "mono (db_now (rt e))" "open_row i w" "request_ok e k P i w"
  shows "dated_row e P i w"
  using assms by (auto simp: open_row_def request_ok_def record_ok_def open_ok_def dated_row_def)

lemma true_works:
  assumes "dated e k cfg P" "true_inv e k P w js" "p \<in> set js" "open_row (job_id p) w"
  shows "wp (sponsor_submit e k cfg p) (\<lambda>_ w'. true_inv e k P w' (remove1 p js)) w"
proof -
  let ?i = "job_id p"
  have inv: "once_inv w js" "distinct (map rq_id (sponsored w))" "\<And>j. request_ok e k P j w"
    using assms(2) by (simp_all add: true_inv_def)
  have none: "none_sent ?i w" using inv(1) assms(3) by (simp add: once_inv_def)
  have "dated_row e P ?i w" using open_dated [OF _ assms(4) inv(3)] assms(1) by (simp add: dated_def)
  then have ok: "wp (sponsor_submit e k cfg p) (\<lambda>_ w'. touches ?i w w' \<and> request_ok e k P ?i w') w"
    using run_request_ok [OF none refl] assms(1) by (simp add: dated_def)
  have "wp (sponsor_submit e k cfg p) (\<lambda>_ w'. (touches ?i w w' \<and> at_most_one ?i w') \<and>
      (touches ?i w w' \<and> request_ok e k P ?i w')) w"
    unfolding wp_conj using run_once [OF none refl] ok by (simp add: wp_conj)
  then show ?thesis
  proof (rule wp_mono)
    fix u and w' :: gasless_world
    assume post: "(touches ?i w w' \<and> at_most_one ?i w') \<and> touches ?i w w' \<and> request_ok e k P ?i w'"
    have "request_ok e k P j w'" for j
      using post touches_request_ok [of ?i w w' j] inv(3) [of j] by (cases "j = ?i") auto
    moreover have "once_inv w' (remove1 p js)" using post once_works [OF inv(1) assms(3)] by blast
    moreover have "map rq_id (sponsored w') = map rq_id (sponsored w)" using post by (simp add: touches_def)
    ultimately show "true_inv e k P w' (remove1 p js)" using inv(2) by (simp add: true_inv_def)
  qed
qed

lemma true_resolves:
  assumes "dated e k cfg P" "true_inv e k P w js"
  shows "wp (resolver_tick e k threshold) (\<lambda>_ w'. true_inv e k P w' js) w"
proof -
  have "wp (resolver_tick e k threshold) (\<lambda>_ w'. settles w w' \<and> (\<forall>j. request_ok e k P j w')) w"
    using assms by (intro wp_resolver_tick) (simp_all add: dated_def true_inv_def)
  then show ?thesis
    by (rule wp_mono) (use assms(2) once_settles in \<open>auto simp: true_inv_def settles_def\<close>)
qed

interpretation truth: gasless_invariant True e k cfg mc "\<lambda>w js. dated e k cfg P \<longrightarrow> true_inv e k P w js"
  for e k cfg mc P
proof (unfold_locales, goal_cases)
  case (1 w)
  then show ?case
    by (simp add: true_inv_def once_inv_def none_sent_def at_most_one_def request_ok_def sponsor_row_of_def select_one_def)
next
  case (2 w js w')
  then show ?case using true_quiet by blast
next
  case (3 w js i w')
  then show ?case using true_admits by (auto simp: dated_def)
next
  case (4 w js p w')
  then have "admits e (job_id p) w w'" by (simp add: admits_def job_for_def)
  then have "true_inv e k P w' js" if "dated e k cfg P"
    using that 4(1) true_admits unfolding dated_def by blast
  then show ?case using 4 once_accepts unfolding true_inv_def by blast
next
  case (5 w js p)
  then show ?case using true_works by (cases "dated e k cfg P") (simp_all add: wp_True)
next
  case (6 w js threshold)
  then show ?case using true_resolves by (cases "dated e k cfg P") (simp_all add: wp_True)
next
  case (7 w js p)
  then show ?case using once_fewer by (auto simp: true_inv_def)
next
  case (8 w js)
  then show ?case by (auto simp: true_inv_def once_inv_def)
qed

text \<open>
  What the records rely on beyond the code. Database time does not go back and the process clock is
  not ahead of a later statement's; the SDK parses what it encoded; a transaction's hash is not
  empty and stands for one envelope, so it has a time \<open>expires\<close> after which no ledger may include it;
  and the RPC, asked more than a ledger after that time, does not answer \<open>NOT_FOUND\<close> for a
  transaction the network has \<open>included\<close>.
\<close>

definition honest_sponsor ::
  "gasless_runtime \<Rightarrow> gasless_sdk \<Rightarrow> sponsor_config \<Rightarrow> (string \<Rightarrow> instant) \<Rightarrow> (string \<Rightarrow> bool) \<Rightarrow> bool"
where
  "honest_sponsor e k cfg expires included \<longleftrightarrow>
     mono (db_now (rt e)) \<and> (\<forall>n m. n \<le> m \<longrightarrow> clock (rt e) n \<le> db_now (rt e) m) \<and>
     tx_codec_ok (base_sdk k) \<and> fb_codec_ok (base_sdk k) \<and>
     (\<forall>fb x. fb_hash_hex (base_sdk k) (passphrase cfg) fb = Inr x \<longrightarrow>
        x \<noteq> [] \<and> expires x = from_unix (env_max_time (stx_env (fb_inner fb)))) \<and>
     (\<forall>n x t. get_transaction (rt e) n x = Inr t \<longrightarrow> tx_status t = TxNotFound \<longrightarrow>
        expires x + ledger_time < clock (rt e) (Suc n) \<longrightarrow> \<not> included x)"

definition dies_by :: "(string \<Rightarrow> instant) \<Rightarrow> string \<Rightarrow> instant \<Rightarrow> bool" where
  "dies_by expires x t \<longleftrightarrow> x \<noteq> [] \<and> expires x \<le> t + sponsor_validity"

lemma sealed_max_time:
  assumes "tx_codec_ok (base_sdk k)" "fb_codec_ok (base_sdk k)"
    and "sponsor_seal k cfg channel addr s p inclusion valid_until = Inr (b64, x)"
  shows "\<exists>fb. fb_hash_hex (base_sdk k) (passphrase cfg) fb = Inr x \<and>
    env_max_time (stx_env (fb_inner fb)) = unix_seconds valid_until"
proof -
  obtain env raw tx inner outer fb where
    env: "sponsor_envelope k addr s (pr_call p) (Some (pr_data p)) inclusion valid_until = Inr env"
    and raw: "marshal_base64 (base_sdk k) env = Inr raw" "tx_from_xdr (base_sdk k) raw = Inr (Some tx)"
    and inner: "sign_tx (base_sdk k) (passphrase cfg) [channel] tx = Inr inner"
    and outer: "at_inner_rate (base_sdk k) (EnvTx inner) (sg_address (funder cfg)) = Inr outer"
    and fb: "signer_sign_fee_bump k (funder cfg) (passphrase cfg) outer = Inr fb"
      "fb_hash_hex (base_sdk k) (passphrase cfg) fb = Inr x"
    using assms(3) by (auto simp: sponsor_seal_def split: sum.splits option.splits)
  have "tx = env" using assms(1) raw unfolding tx_codec_ok_def by blast
  then have "stx_env inner = env" using inner by (auto simp: sign_tx_def split: option.splits)
  moreover have "fb_inner fb = fb_inner outer"
    using fb(1) by (auto simp: signer_sign_fee_bump_def split: sum.splits)
  moreover have "fb_inner outer = inner" using at_inner_rate_Inr [OF assms(2) outer] by simp
  moreover have "env_max_time env = unix_seconds valid_until"
    using env by (auto simp: sponsor_envelope_def Let_def split: option.splits if_splits)
  ultimately show ?thesis using fb(2) by auto
qed

lemma honest_dated:
  assumes "honest_sponsor e k cfg expires included"
  shows "dated e k cfg (dies_by expires)"
proof -
  have "dies_by expires x (db_now (rt e) m)"
    if le: "n \<le> m" and seal: "sponsor_seal k cfg key addr s p inc (truncate_second (clock (rt e) n + sponsor_validity)) = Inr (b64, x)"
    for n m key addr s p inc b64 x
  proof -
    let ?u = "truncate_second (clock (rt e) n + sponsor_validity)"
    obtain fb where fb: "fb_hash_hex (base_sdk k) (passphrase cfg) fb = Inr x"
        "env_max_time (stx_env (fb_inner fb)) = unix_seconds ?u"
      using sealed_max_time [OF _ _ seal] assms unfolding honest_sponsor_def by blast
    have x: "x \<noteq> []" "expires x = from_unix (unix_seconds ?u)"
      using assms fb unfolding honest_sponsor_def by auto
    have "from_unix (unix_seconds ?u) \<le> clock (rt e) n + sponsor_validity"
      using truncate_second_bounds [of ?u] truncate_second_bounds [of "clock (rt e) n + sponsor_validity"]
      unfolding truncate_second_from_unix [of ?u, symmetric] by linarith
    moreover have "clock (rt e) n \<le> db_now (rt e) m" using assms le by (auto simp: honest_sponsor_def)
    ultimately show ?thesis using x by (simp add: dies_by_def)
  qed
  then have "seals e k cfg (dies_by expires)" unfolding seals_def by blast
  moreover have "dates (dies_by expires)" by (auto simp: dates_def dies_by_def)
  ultimately show ?thesis using assms by (simp add: dated_def honest_sponsor_def)
qed

lemma expired_not_included:
  assumes "honest_sponsor e k cfg expires included" "expired_on e (dies_by expires) x"
  shows "\<not> included x"
proof -
  obtain n t u where "get_transaction (rt e) n x = Inr t" "tx_status t = TxNotFound" "dies_by expires x u"
      "clock (rt e) (Suc n) - u > sponsor_validity + ledger_time"
    using assms(2) by (auto simp: expired_on_def)
  moreover from this have "expires x + ledger_time < clock (rt e) (Suc n)" by (simp add: dies_by_def)
  ultimately show ?thesis using assms(1) unfolding honest_sponsor_def by blast
qed

lemma record_is_true:
  assumes "honest_sponsor e k cfg expires included" "gasless_reachable True e k cfg mc s"
    and "sponsor_row_of (sponsored (g_world s)) i = Some r"
  shows "record_ok e k (dies_by expires) i r (g_world s)"
proof -
  have "request_ok e k (dies_by expires) i (g_world s)"
    using truth.holds [OF assms(2)] honest_dated [OF assms(1)] by (auto simp: true_inv_def)
  then show ?thesis using assms(3) by (simp add: request_ok_def)
qed


text \<open>
  C8: what may have been sent is on record. Under the same assumptions, the hash of every transaction
  the network may have taken for a request that is not settled yet is the hash on its record, so the
  resolver asks about the right transaction; and a record that says \<open>success\<close> or \<open>failed\<close> carries
  a hash for which the network reported exactly that status.
\<close>

theorem record_names_transaction:
  assumes "honest_sponsor e k cfg expires included" "gasless_reachable True e k cfg mc s"
    and "sponsor_row_of (sponsored (g_world s)) i = Some r" "rq_status r \<noteq> Rejected"
  shows "((i, x) \<in> set (accepted (g_world s)) \<longrightarrow> rq_hash r = Some x) \<and>
    (final (rq_status r) \<longrightarrow> (\<exists>y n resp. rq_hash r = Some y \<and>
       (poll_transaction (rt e) n y = Inr resp \<or> get_transaction (rt e) n y = Inr resp) \<and>
       rq_status r = out_status (landed k y resp)))"
proof -
  note ok = record_is_true [OF assms(1-3)]
  show ?thesis
  proof (cases "final (rq_status r)")
    case True
    then have "landed_ok e k i r (g_world s)"
      using ok assms(4) by (auto simp: record_ok_def final_def split: sponsor_status.splits)
    then obtain y oc where y: "rq_hash r = Some y" "reported e k y oc" "out_status oc = rq_status r"
        "none_sent i (g_world s) \<or> sole i y (g_world s)"
      by (auto simp: landed_ok_def)
    then obtain n resp where "poll_transaction (rt e) n y = Inr resp \<or> get_transaction (rt e) n y = Inr resp"
        "oc = landed k y resp"
      by (auto simp: reported_def)
    moreover have "y = x" if "(i, x) \<in> set (accepted (g_world s))"
      using y(4) sent_not_none [OF that] sent_sole [OF that] by blast
    ultimately show ?thesis using y(1,3) by metis
  next
    case False
    then have "open_ok e (dies_by expires) i r (g_world s)"
      using ok assms(4) by (auto simp: record_ok_def final_def split: sponsor_status.splits)
    then show ?thesis using False sent_not_none [of i x] sent_sole [of i x] unfolding open_ok_def by metis
  qed
qed

section \<open>The resolver gets through\<close>

definition settled :: "string \<Rightarrow> gasless_world \<Rightarrow> bool" where
  "settled i w \<longleftrightarrow> (\<exists>r. sponsor_row_of (sponsored w) i = Some r \<and> final (rq_status r))"

text \<open>The database answers, and the RPC has a last word on the transaction of a stale record.\<close>

definition decisive :: "gasless_runtime \<Rightarrow> nat \<Rightarrow> stale_record \<Rightarrow> bool" where
  "decisive e n s \<longleftrightarrow> stale_hash s = [] \<or>
     (\<exists>t. get_transaction (rt e) n (stale_hash s) = Inr t \<and>
        (tx_status t = TxSuccess \<or> tx_status t = TxFailed \<or>
         tx_status t = TxNotFound \<and> clock (rt e) (Suc n) - stale_updated s > sponsor_validity + ledger_time))"

lemma wp_resolve_decides:
  assumes "decisive e (tick w) s"
  shows "wp (resolve_stale e k s) (\<lambda>v w'. quiet w w' \<and> (\<exists>oc. v = Some oc \<and> final (out_status oc))) w"
proof -
  have q: "quiet w (w\<lparr>tick := Suc (Suc (tick w))\<rparr>)" by (simp add: quiet_def)
  show ?thesis
    using assms q by (auto simp: resolve_stale_def decisive_def rejected_def landed_def Let_def final_def)
qed

lemma wp_finish_acknowledged:
  assumes "db_reply (rt e) (tick w) = DbOk" "sponsor_row_of (sponsored w) i = Some r" "\<not> final (rq_status r)"
    and "final (out_status oc)"
  shows "wp (finish_record e i oc) (\<lambda>_ w'. finished e i oc w w' \<and> settled i w') w"
proof -
  let ?w = "w\<lparr>tick := Suc (tick w), sponsored := snd (finish_stmt i oc (db_now (rt e) (tick w)) (sponsored w))\<rparr>"
  have id: "rq_id r = i" using row_of_in [OF assms(2)] by simp
  have "fst (finish_stmt i oc now (sponsored w)) \<noteq> None" for now
  proof
    assume "fst (finish_stmt i oc now (sponsored w)) = None"
    then have "select_one (\<lambda>r. rq_id r = i \<and> \<not> final (rq_status r)) (sponsored w) = None"
      by (simp add: finish_stmt_def Let_def split: option.splits)
    then show False
      using row_of_in [OF assms(2)] assms(3) by (auto simp: select_one_def find_None_list_ex list_ex_iff)
  qed
  then obtain rc where rc: "fst (finish_stmt i oc (db_now (rt e) (tick w)) (sponsored w)) = Some rc" by blast
  have "settled i ?w" using assms(2-4) id by (simp add: settled_def finish_row_of)
  moreover have "finished e i oc w ?w" by (simp add: finished_def)
  moreover have "wp (sponsor_stmt e (finish_stmt i oc)) (\<lambda>r w'. r = Inr (Some rc) \<and> w' = ?w) w"
    using rc assms(1) by (simp add: sponsor_stmt_def wp_def db_stmt_def Let_def case_prod_beta)
  ultimately show ?thesis
    unfolding finish_record_def wp_bind by (elim wp_mono) (elim conjE, simp)
qed

lemma settled_kept:
  assumes "finished e i oc w w'" "settled j w"
  shows "settled j w'"
  using assms row_of_in by (fastforce simp: finished_def settled_def finish_row_of)

lemma wp_resolve_all_final:
  assumes "\<forall>n \<ge> tick w. db_reply (rt e) n = DbOk" "\<forall>n \<ge> tick w. \<forall>s \<in> set rs. decisive e n s"
    and "\<forall>s \<in> set rs. awaits w s" "distinct (map stale_id rs)"
  shows "wp (resolve_all e k rs) (\<lambda>_ w'. (\<forall>s \<in> set rs. settled (stale_id s) w') \<and>
    (\<forall>j. settled j w \<longrightarrow> settled j w')) w"
  using assms
proof (induction rs arbitrary: w)
  case (Cons s rs w)
  obtain r where r: "sponsor_row_of (sponsored w) (stale_id s) = Some r" "\<not> final (rq_status r)"
    using Cons.prems(3) by (auto simp: awaits_def)
  have dec: "decisive e (tick w) s" using Cons.prems(2) by simp
  show ?case
    unfolding resolve_all.simps
  proof (rule wp_bindI [OF wp_resolve_decides [OF dec]], goal_cases)
    case (1 v w1)
    then obtain oc where oc: "v = Some oc" "final (out_status oc)" and q: "quiet w w1" by blast
    have ack: "db_reply (rt e) (tick w1) = DbOk" using Cons.prems(1) q by (simp add: quiet_def)
    have r1: "sponsor_row_of (sponsored w1) (stale_id s) = Some r" using r(1) q by (simp add: quiet_def)
    show ?case
      unfolding oc option.case
    proof (rule wp_bindI [OF wp_finish_acknowledged [OF ack r1 r(2) oc(2)]], goal_cases)
      case (1 u w2)
      then have fin: "finished e (stale_id s) oc w1 w2" and here: "settled (stale_id s) w2" by simp_all
      have later: "tick w \<le> tick w2" using fin q by (simp add: finished_def quiet_def)
      have "awaits w2 s'" if "s' \<in> set rs" for s'
      proof -
        have "stale_id s' \<noteq> stale_id s" using imageI [OF that, of stale_id] Cons.prems(4) by auto
        then show ?thesis
          using Cons.prems(3) that q touches_view(1) [OF finished_touches [OF fin]]
          by (simp add: awaits_def quiet_def)
      qed
      then have "wp (resolve_all e k rs) (\<lambda>_ w'. (\<forall>s \<in> set rs. settled (stale_id s) w') \<and>
          (\<forall>j. settled j w2 \<longrightarrow> settled j w')) w2"
        using Cons.prems later by (intro Cons.IH) auto
      moreover have "settled j w2" if "settled j w" for j
        using that q settled_kept [OF fin] by (simp add: quiet_def settled_def)
      ultimately show ?case using here by (elim wp_mono) auto
    qed
  qed
qed simp


text \<open>
  Why runs must be prompt: \<open>SetHash\<close> on a record the resolver has settled reports success and changes
  nothing, so a run that starts that late goes on to send a transaction no record names.
\<close>

lemma set_hash_misses_settled:
  assumes "\<forall>q \<in> set (sponsored w). rq_id q = i \<longrightarrow> final (rq_status q)" "db_reply (rt e) (tick w) = DbOk"
  shows "wp (set_hash e i x) (\<lambda>r w'. r = Inr () \<and> sponsored w' = sponsored w) w"
proof -
  have "snd (set_hash_stmt i x now (sponsored w)) = sponsored w" for now
    unfolding set_hash_rows by (rule map_idI) (use assms(1) in \<open>auto simp: final_def\<close>)
  then show ?thesis
    using assms(2) by (simp add: set_hash_def sponsor_stmt_def wp_def db_stmt_def Let_def wrap_err_def case_prod_beta)
qed

end
