(* ===== verification/Gasless_Demo.thy ===== *)
theory Gasless_Demo
  imports Gasless_Service
begin

text \<open>
  A concrete gasless service: a codec for the two envelopes it builds, one channel, and a runtime
  whose clocks advance by a thousand seconds with every call. The theorems of the gasless
  theories are applied to it: one request is submitted, sent, never found by the RPC and at last
  rejected by the resolver.
\<close>

section \<open>The outside\<close>

definition demo_time :: "nat \<Rightarrow> instant" where
  "demo_time n = int n * (1000 * second)"

text \<open>The last moment of the one transaction that is sealed.\<close>

definition demo_until :: int where
  "demo_until = 9120"

definition demo_data :: soroban_data where
  "demo_data = \<lparr>resource_fee = 1000, footprint = []\<rparr>"

definition sponsor_tx :: tx_envelope where
  "sponsor_tx =
     \<lparr>env_source = ''GCH'', env_seq = 8, env_ops = [InvokeHostFunction (InvokeContract demo_args) [demo_auth]],
      env_memo = None, env_fee = 1100, env_max_time = demo_until, env_soroban = Some demo_data\<rparr>"

definition sponsor_bump :: fee_bump where
  "sponsor_bump =
     \<lparr>fb_source = ''GFUNDER'', fb_fee = 1200, fb_inner = \<lparr>stx_env = sponsor_tx, stx_signers = [''GCH'']\<rparr>,
      fb_signers = []\<rparr>"

definition sponsor_codec :: sdk where
  "sponsor_codec =
     \<lparr>code_string = (\<lambda>c. []), decode_result_xdr = (\<lambda>x. BadXDR ''no''), decode_soroban_data = (\<lambda>x. Decoded demo_data),
      payment_to_contract_error = (\<lambda>op. None), new_transaction_error = (\<lambda>env. None),
      marshal_base64 = (\<lambda>env. if env_soroban env = None then Inr ''SIM'' else if env = sponsor_tx then Inr ''TX'' else Inl ''no''),
      tx_from_xdr = (\<lambda>b. if b = ''TX'' then Inr (Some sponsor_tx) else Inl ''no''), sign_error = (\<lambda>p ks env. None),
      tx_base64 = (\<lambda>stx. Inr ''SIM''), tx_hash_hex = (\<lambda>p stx. Inl ''no''), set_address_error = (\<lambda>a. None),
      fb_marshal_base64 = (\<lambda>fb. if fb = sponsor_bump then Inr ''BUMP'' else Inl ''no''),
      fb_from_xdr = (\<lambda>b. Inr (Some sponsor_bump)), fb_sign_error = (\<lambda>p kp fb. None),
      fb_base64 = (\<lambda>fb. Inr ''SEALED''),
      fb_hash_hex = (\<lambda>p fb. if env_max_time (stx_env (fb_inner fb)) = demo_until then Inr ''HASH'' else Inl ''no'')\<rparr>"

definition sponsor_gsdk :: gasless_sdk where
  "sponsor_gsdk = demo_gsdk\<lparr>base_sdk := sponsor_codec\<rparr>"

definition sponsor_runtime :: gasless_runtime where
  "sponsor_runtime =
     \<lparr>rt = demo_runtime\<lparr>db_now := demo_time, clock := demo_time,
        poll_transaction := (\<lambda>n x. Inl ''timeout''),
        get_transaction := (\<lambda>n x. if x = ''HASH''
          then Inr \<lparr>tx_status = TxNotFound, result_xdr = [], latest_ledger_close_time = 0, oldest_ledger_close_time = 0\<rparr>
          else Inl ''no'')\<rparr>,
      fee_stats = (\<lambda>n. Inr 100), latest_ledger = (\<lambda>n. Inr 7),
      sponsor_simulate = (\<lambda>n b am. Inr \<lparr>sim_error = [], sim_data_xdr = ''DATA'', min_resource_fee = 1000, restore_preamble = False,
        recorded_auth = None, return_value = Some ''AAAA''\<rparr>),
      ledger_entries = (\<lambda>n keys. Inr (map (\<lambda>key. \<lparr>entry_key = key, entry_data = ''ACC''\<rparr>) (remdups keys))),
      network_passphrase_of = (\<lambda>n. Inr ''net''), price_feed = (\<lambda>n. PriceAnswer 200 (Inr (Some (Finite (1 / 4)))))\<rparr>"

definition sponsor_cfg :: sponsor_config where
  "sponsor_cfg =
     \<lparr>sc_instance = ''i1'', sc_channel_keys = (\<lambda>a. if a = ''GCH'' then Some \<lparr>kp_address = ''GCH'', kp_seed = ''S''\<rparr> else None),
      funder = \<lparr>sg_address = ''GFUNDER'', sg_sign = (\<lambda>h. Inr ''sig'')\<rparr>, passphrase = ''net'', sc_policy = demo_policy,
      sc_limits = demo_limits, max_inclusion_fee = 1000, relayer_accounts = [''GFUNDER''], sc_forward = None\<rparr>"

definition sponsor_world :: gasless_world where
  "sponsor_world =
     \<lparr>tick = 0,
      channels = \<lparr>ch_rows = [(fresh_channel 0 7 0 ''GCH'')\<lparr>ch_seq := Some 7, needs_resync := False\<rparr>], next_ch_id = 8\<rparr>,
      sponsored = [], accepted = [], cache_price = float_zero, cache_fetched = 0, last_good = float_zero, last_good_at = 0,
      snap = no_snapshot\<lparr>snap_sponsorship_ok := True\<rparr>, over_sweep = [], loss_alerting = False\<rparr>"

section \<open>A run of the service\<close>

text \<open>The payload hash is compared, never inspected: it stays a symbol in what is evaluated here.\<close>

declare payload_hash_def [code del]

definition demo_admitted :: "(reply + prepared_tx) \<times> gasless_world" where
  "demo_admitted = run_state (handle_submit sponsor_runtime sponsor_gsdk sponsor_cfg (Inr demo_request)) sponsor_world"

definition demo_prepared :: prepared_tx where
  "demo_prepared = projr (fst demo_admitted)"

definition demo_sent :: gasless_world where
  "demo_sent = snd (run_state (sponsor_submit sponsor_runtime sponsor_gsdk sponsor_cfg demo_prepared) (snd demo_admitted))"

definition demo_resolved :: gasless_world where
  "demo_resolved = snd (run_state (resolver_tick sponsor_runtime sponsor_gsdk 0) demo_sent)"

definition demo_monitor :: monitor_config where
  "demo_monitor =
     \<lparr>mon_executor = ''GEXEC'', mon_funder = ''GFUNDER'',
      mon_channels = [\<lparr>ck_index = 0, ck_keypair = \<lparr>kp_address = ''GCH'', kp_seed = ''S''\<rparr>\<rparr>], funder_min = 500, channel_min = 10,
      mon_forwarder = [], mon_fee_tokens = [], sweep_alert_units = 0\<rparr>"

definition demo_expires :: "string \<Rightarrow> instant" where
  "demo_expires x = from_unix demo_until"

lemma demo_admitted_job: "demo_admitted = (Inr demo_prepared, snd demo_admitted)"
proof -
  have "\<not> isl (fst demo_admitted)" by code_simp
  then show ?thesis by (simp add: demo_prepared_def prod_eq_iff)
qed

lemma demo_open: "open_row (job_id demo_prepared) (snd demo_admitted)"
proof -
  have "map_option rq_status (sponsor_row_of (sponsored (snd demo_admitted)) (job_id demo_prepared)) = Some Pending"
    by code_simp
  then show ?thesis by (auto simp: open_row_def)
qed

lemma demo_reachable_sent:
  "gasless_reachable prompt sponsor_runtime sponsor_gsdk sponsor_cfg demo_monitor \<lparr>g_world = demo_sent, g_jobs = []\<rparr>"
proof -
  let ?s0 = "\<lparr>g_world = sponsor_world, g_jobs = []\<rparr>"
    and ?s1 = "\<lparr>g_world = snd demo_admitted, g_jobs = [demo_prepared]\<rparr>"
    and ?R = "gasless_reachable prompt sponsor_runtime sponsor_gsdk sponsor_cfg demo_monitor"
    and ?S = "gasless_step prompt sponsor_runtime sponsor_gsdk sponsor_cfg demo_monitor"
  have "?R ?s0" by (rule gasless_reachable.start) (simp add: gasless_init_def sponsor_world_def)
  moreover have "?S ?s0 ?s1"
    using gasless_step.accept [of sponsor_runtime sponsor_gsdk sponsor_cfg "Inr demo_request" ?s0 demo_prepared
        "snd demo_admitted" prompt demo_monitor] demo_admitted_job
    by (simp add: demo_admitted_def)
  moreover have "?S ?s1 \<lparr>g_world = demo_sent, g_jobs = []\<rparr>"
    using gasless_step.work [of demo_prepared ?s1 prompt sponsor_runtime sponsor_gsdk sponsor_cfg _ demo_sent demo_monitor]
      demo_open by (simp add: demo_sent_def prod_eq_iff)
  ultimately show ?thesis by (blast intro: gasless_reachable.step)
qed

lemma demo_reachable_resolved:
  "gasless_reachable prompt sponsor_runtime sponsor_gsdk sponsor_cfg demo_monitor \<lparr>g_world = demo_resolved, g_jobs = []\<rparr>"
proof (rule gasless_reachable.step [OF demo_reachable_sent])
  show "gasless_step prompt sponsor_runtime sponsor_gsdk sponsor_cfg demo_monitor \<lparr>g_world = demo_sent, g_jobs = []\<rparr>
      \<lparr>g_world = demo_resolved, g_jobs = []\<rparr>"
    using gasless_step.resolve [of sponsor_runtime sponsor_gsdk 0 "\<lparr>g_world = demo_sent, g_jobs = []\<rparr>" _ demo_resolved
        prompt sponsor_cfg demo_monitor]
    by (simp add: demo_resolved_def prod_eq_iff)
qed

lemma demo_codec_ok: "tx_codec_ok sponsor_codec" "fb_codec_ok sponsor_codec"
  by (auto simp: tx_codec_ok_def fb_codec_ok_def sponsor_codec_def split: if_splits)

lemma demo_honest_sponsor:
  "honest_sponsor sponsor_runtime sponsor_gsdk sponsor_cfg demo_expires (\<lambda>x. x = ''LANDED'')"
proof -
  have "demo_time n \<le> demo_time m" if "n \<le> m" for n m
    using that by (simp add: demo_time_def second_def millisecond_def)
  then show ?thesis
    using demo_codec_ok
    by (auto simp: honest_sponsor_def mono_def sponsor_runtime_def sponsor_gsdk_def demo_expires_def
        sponsor_codec_def split: if_splits)
qed

section \<open>Witnesses: the service\<close>

theorem request_paid_once_witness:
  "(''req-0001'', ''HASH'') \<in> set (accepted demo_resolved) \<and>
   sponsor_row_of (sponsored demo_resolved) ''req-0001'' \<noteq> None"
proof -
  have "(''req-0001'', ''HASH'') \<in> set (accepted demo_resolved)" by code_simp
  then show ?thesis
    using request_paid_once [OF demo_reachable_resolved, of "''req-0001''" "''HASH''" "''HASH''"] by simp
qed


theorem record_names_transaction_witness:
  "(''req-0001'', ''HASH'') \<in> set (accepted demo_sent) \<and>
   (\<exists>r. sponsor_row_of (sponsored demo_sent) ''req-0001'' = Some r \<and> rq_hash r = Some ''HASH'')"
proof -
  have sent: "(''req-0001'', ''HASH'') \<in> set (accepted demo_sent)" by code_simp
  have "map_option rq_status (sponsor_row_of (sponsored demo_sent) ''req-0001'') = Some Unconfirmed" by code_simp
  then obtain r where r: "sponsor_row_of (sponsored demo_sent) ''req-0001'' = Some r" "rq_status r = Unconfirmed" by auto
  show ?thesis
    using record_names_transaction [OF demo_honest_sponsor demo_reachable_sent, of "''req-0001''" r "''HASH''"] r sent
    by simp
qed


section \<open>Witnesses: reads, monitor, start-up\<close>

lemma demo_ledger: "answers_ledger (\<lambda>key. Some ''ACC'') sponsor_runtime"
proof -
  have "map (entry_key \<circ> (\<lambda>key. \<lparr>entry_key = key, entry_data = ''ACC''\<rparr>)) xs = xs" for xs
    by (simp add: o_def)
  then show ?thesis by (auto simp: answers_ledger_def sponsor_runtime_def)
qed

lemma demo_key_of: "key_of sponsor_gsdk a = Some a"
  by (simp add: key_of_def account_keys.simps sponsor_gsdk_def demo_gsdk_def)

lemma demo_account: "account_at sponsor_gsdk (\<lambda>key. Some ''ACC'') a = \<lparr>acct_exists = True, acct_balance = 1000, acct_seq = 7\<rparr>"
  by (simp add: account_at_def sponsor_gsdk_def demo_gsdk_def)

theorem accounts_read_ledger_witness:
  "\<exists>out. fst (run_state (accounts sponsor_runtime sponsor_gsdk [''GFUNDER'', ''GCH'']) sponsor_world) = Inr out \<and>
     acct_balance (out ''GCH'') = 1000"
proof -
  let ?run = "run_state (accounts sponsor_runtime sponsor_gsdk [''GFUNDER'', ''GCH'']) sponsor_world"
  have "\<not> isl (fst ?run)" by code_simp
  then obtain out where out: "fst ?run = Inr out" by (cases "fst ?run") auto
  have keys: "account_keys sponsor_gsdk [''GFUNDER'', ''GCH''] = Inr [(''GFUNDER'', ''GFUNDER''), (''GCH'', ''GCH'')]"
    by code_simp
  have "\<forall>addr \<in> set [''GFUNDER'', ''GCH'']. out addr = account_at sponsor_gsdk (\<lambda>key. Some ''ACC'') (the (key_of sponsor_gsdk addr))"
    using accounts_read_ledger [OF demo_ledger _ keys, of sponsor_world out "snd ?run"] out
    by (simp add: inj_on_def demo_key_of prod_eq_iff)
  then show ?thesis using out by (simp add: demo_account)
qed

section \<open>Witnesses: prices and fees\<close>

definition demo_usdc :: fee_token where
  "demo_usdc = \<lparr>ft_contract = ''CUSDC'', ft_symbol = ''USDC'', ft_native = False\<rparr>"

definition demo_forward :: forward_config where
  "demo_forward =
     \<lparr>forwarder_id = ''CFWD'', executor = \<lparr>sg_address = ''GEXEC'', sg_sign = (\<lambda>h. Inr ''sig'')\<rparr>, fee_tokens = [demo_usdc],
      prices = FixedPrice (Finite (1 / 4)), margin_bps = 1000, auth_ledgers = 12, min_xlm_usd = Finite (1 / 100),
      max_xlm_usd = Finite 10, price_max_stale = minute\<rparr>"

definition demo_forward_cfg :: sponsor_config where
  "demo_forward_cfg = sponsor_cfg\<lparr>sc_forward := Some demo_forward\<rparr>"

lemma demo_price_state: "price_state_ok demo_forward sponsor_world"
  by (simp add: price_state_ok_def sponsor_world_def)

theorem fee_covers_cost_witness:
  "\<exists>fee. fst (run_state (fee_in_token sponsor_runtime demo_forward demo_usdc 1200) sponsor_world) = Inr fee \<and>
     of_int 1200 * of_int 11000 / 10000 * (1 / 4) \<le> (of_int fee :: rat) \<and> 1 \<le> fee"
proof -
  let ?run = "run_state (fee_in_token sponsor_runtime demo_forward demo_usdc 1200) sponsor_world"
  have "\<not> isl (fst ?run)" by code_simp
  then obtain fee where fst_run: "fst ?run = Inr fee" by (cases "fst ?run") auto
  then have fee: "?run = (Inr fee, snd ?run)" by (simp add: prod_eq_iff)
  have good: "last_good (snd ?run) = Finite (1 / 4)" by code_simp
  have "0 \<le> margin_bps demo_forward" "margin_bps demo_forward \<le> 50000" by (simp_all add: demo_forward_def)
  from fee_covers_cost [OF demo_price_state this _ fee] obtain price where
    "unit_price demo_forward demo_usdc (snd ?run) price"
    "of_int 1200 * of_int (10000 + margin_bps demo_forward) / 10000 * price \<le> of_int fee" "1 \<le> fee"
    by auto
  moreover from this have "price = 1 / 4" using good by (simp add: unit_price_def demo_usdc_def)
  moreover have "margin_bps demo_forward = 1000" by (simp add: demo_forward_def)
  ultimately show ?thesis using fst_run by (intro exI [of _ fee]) simp
qed

theorem quote_covers_later_fee_witness:
  "\<exists>q w' fee. run_state (price_quote sponsor_runtime demo_forward_cfg ''CUSDC'' 2000) sponsor_world = (Inr q, w') \<and>
     fst (run_state (fee_for sponsor_runtime demo_forward
       \<lparr>fc_args = [], fc_token = demo_usdc, fc_max_fee = q_max_fee_amount q, fc_user = ''CWALLET'', fc_target = ''C'', fc_target_fn = ''f''\<rparr>
       100 1500) sponsor_world) = Inr fee \<and> fee \<le> q_max_fee_amount q"
proof -
  let ?quote = "run_state (price_quote sponsor_runtime demo_forward_cfg ''CUSDC'' 2000) sponsor_world"
  let ?q = "projr (fst ?quote)"
  let ?fc = "\<lparr>fc_args = [], fc_token = demo_usdc, fc_max_fee = q_max_fee_amount ?q, fc_user = ''CWALLET'', fc_target = ''C'', fc_target_fn = ''f''\<rparr>"
  let ?run = "run_state (fee_for sponsor_runtime demo_forward ?fc 100 1500) sponsor_world"
  have "\<not> isl (fst ?quote)" by code_simp
  then have quoted: "?quote = (Inr ?q, snd ?quote)" by (simp add: prod_eq_iff)
  have "\<not> isl (fst ?run)" by code_simp
  then have avail: "\<nexists>m. fst ?run = Inl (ErrPriceUnavailable m)" by (metis isl_def)
  have good: "last_good (snd ?run) = last_good (snd ?quote)" by code_simp
  have "\<exists>fee. fst ?run = Inr fee \<and> fee \<le> fc_max_fee ?fc"
  proof (rule quote_covers_later_fee [OF demo_price_state demo_price_state _ _ _ _ _ _ quoted _ _ _ _ _ _ good avail])
    show "run_state (fee_for sponsor_runtime demo_forward ?fc 100 1500) sponsor_world = (fst ?run, snd ?run)"
      by (simp only: prod.collapse)
    show "fee_token_of demo_forward ''CUSDC'' = Some (fc_token ?fc)" by code_simp
  qed (simp_all add: demo_forward_cfg_def sponsor_cfg_def, simp_all add: demo_forward_def)
  then show ?thesis using quoted by (metis forward_call.select_convs(3))
qed

definition demo_forward_args :: "sc_val list" where
  "demo_forward_args = [ScvAddress (ContractAddress ''CUSDC''), i128 0, i128 900, ScvU32 99, ScvAddress (ContractAddress ''C''),
     ScvSymbol ''f'', ScvVec [], ScvAddress (ContractAddress ''CWALLET''), ScvVoid]"


theorem bid_within_reservation_witness:
  "\<exists>fb. fb_hash_hex sponsor_codec ''net'' fb = Inr ''HASH'' \<and> fb_source fb = ''GFUNDER'' \<and> fb_fee fb \<le> 3000"
proof -
  let ?p = "\<lparr>pr_record = pr_record demo_prepared,
     pr_call = \<lparr>call_contract = ''CWALLET'', call_function = ''add_signer'', call_host = InvokeContract demo_args, call_auth = [demo_auth]\<rparr>,
     pr_data = demo_data, pr_inclusion = 100\<rparr>"
  have run: "sponsor_seal sponsor_gsdk sponsor_cfg \<lparr>kp_address = ''GCH'', kp_seed = ''S''\<rparr> ''GCH'' 8 ?p 100 (9120 * second) = Inr (''SEALED'', ''HASH'')"
    by code_simp
  have base: "base_sdk sponsor_gsdk = sponsor_codec" by (simp add: sponsor_gsdk_def)
  have bid: "max_bid sponsor_cfg (resource_fee (pr_data ?p)) = 3000" by code_simp
  show ?thesis
    using bid_within_reservation [OF _ _ run] demo_codec_ok bid
    by (auto simp: base sponsor_cfg_def demo_data_def)
qed

end
