(* ===== verification/Startup.thy ===== *)
theory Startup
  imports Config Gasless_Demo
begin

text \<open>
  How the two programs put their parts together: \<open>enableChannels\<close> of \<open>cmd/serve\<close>, and from \<open>cmd/gasless\<close> the
  steps of \<open>main\<close> between the configuration and the first request, with \<open>forwardConfig\<close>. The theorem composes the
  loader, the start-up checks and the submitter: a service that comes up has the settings the other
  theorems assume.
\<close>

section \<open>The channel pool\<close>

text \<open>\<open>Pool.Sync\<close>: one transaction; an address that another channel has makes it fail.\<close>

definition sync_channels :: "runtime \<Rightarrow> channel_key list \<Rightarrow> ('w pool_world_scheme, string option) state" where
  "sync_channels e chans = do {
     r \<leftarrow> db_stmt e channels channels_update (\<lambda>now. sync_stmt now (map (\<lambda>ch. (ck_index ch, ck_address ch)) chans));
     ret (case r of Inl m \<Rightarrow> Some m | Inr ok \<Rightarrow> if ok then None else Some ''sync channel: duplicate address'')
   }"

section \<open>Channels of the deposit bridge\<close>

text \<open>The loop over the channels: each one's balance recorded, or -1 when it does not exist, and the live ones counted.\<close>

fun record_live :: "runtime \<Rightarrow> (string \<Rightarrow> ledger_account) \<Rightarrow> channel_key list \<Rightarrow> nat bridge" where
  "record_live e accts [] = ret 0"
| "record_live e accts (ch # chs) = do {
     let acct = accts (ck_address ch);
     let bal = (if acct_exists acct then acct_balance acct else -1);
     r \<leftarrow> db_stmt e channels channels_update (record_balance_stmt (ck_index ch) bal 0);
     n \<leftarrow> record_live e accts chs;
     ret (case r of Inl m \<Rightarrow> n | Inr _ \<Rightarrow> if 0 \<le> bal then n + 1 else n)
   }"

text \<open>\<open>enableChannels\<close>: \<open>found\<close> is what \<open>chain.Accounts\<close> answered for the channel addresses (theory \<open>Chain\<close>).\<close>

definition enable_channels ::
  "runtime \<Rightarrow> channel_key list \<Rightarrow> string + (string \<Rightarrow> ledger_account) \<Rightarrow> bridge_config \<Rightarrow> bridge_config bridge"
where
  "enable_channels e chans found cfg = do {
     err \<leftarrow> sync_channels e chans;
     let on = use_channels (map (\<lambda>ch. (ck_address ch, ck_keypair ch)) chans) cfg;
     (case err of
        Some m \<Rightarrow> ret cfg
      | None \<Rightarrow>
          (case found of
             Inl m \<Rightarrow> ret on
           | Inr accts \<Rightarrow> do {
               live \<leftarrow> record_live e accts chans;
               ret (if live = 0 then cfg else on) }))
   }"

lemma record_live_exists:
  "wp (record_live e accts chs) (\<lambda>n _. 0 < n \<longrightarrow> (\<exists>ch \<in> set chs. acct_exists (accts (ck_address ch)))) w"
proof (induction chs arbitrary: w)
  case (Cons ch chs)
  have ih: "wp (record_live e accts chs) (\<lambda>n _. 0 < n \<longrightarrow> (\<exists>ch \<in> set chs. acct_exists (accts (ck_address ch)))) v" for v
    by (rule Cons.IH)
  show ?case
    unfolding record_live.simps Let_def wp_bind wp_return
    by (rule wp_db_stmt; rule wp_mono [OF ih]) (auto split: if_splits)
qed simp

text \<open>The channels are used only if one of them is known to exist, or nothing is known about any.\<close>

lemma channels_enabled_exist:
  "wp (enable_channels e chans (Inr accts) cfg)
    (\<lambda>cfg' _. cfg' \<noteq> cfg \<longrightarrow> (\<exists>ch \<in> set chans. acct_exists (accts (ck_address ch)))) w"
proof -
  have "wp (record_live e accts chans)
      (\<lambda>n _. (if n = 0 then cfg else on) \<noteq> cfg \<longrightarrow> (\<exists>ch \<in> set chans. acct_exists (accts (ck_address ch)))) v" for v on
    by (rule wp_mono [OF record_live_exists]) auto
  note live = this
  show ?thesis
    unfolding enable_channels_def Let_def wp_bind sum.case
  proof (rule wp_runI)
    fix err and v :: bridge_world
    let ?on = "use_channels (map (\<lambda>ch. (ck_address ch, ck_keypair ch)) chans) cfg"
    show "wp (case err of None \<Rightarrow> record_live e accts chans \<bind> (\<lambda>live. ret (if live = 0 then cfg else ?on)) | Some m \<Rightarrow> ret cfg)
        (\<lambda>cfg' _. cfg' \<noteq> cfg \<longrightarrow> (\<exists>ch \<in> set chans. acct_exists (accts (ck_address ch)))) v"
      by (rule wp_optionI) (use live [of ?on v] in simp_all)
  qed
qed

section \<open>The gasless service\<close>

text \<open>
  What \<open>main\<close> calls outside this repository: the contract id of the native asset and its encoding, and signing with a
  keypair.
\<close>

record wiring =
  native_contract_id :: "string \<Rightarrow> string + string"
  encode_contract :: "string \<Rightarrow> string + string"
  kp_sign :: "keypair \<Rightarrow> string \<Rightarrow> string + string"

definition from_keypair :: "wiring \<Rightarrow> keypair \<Rightarrow> signer" where
  "from_keypair x kp = \<lparr>sg_address = kp_address kp, sg_sign = kp_sign x kp\<rparr>"

definition forward_config_of :: "wiring \<Rightarrow> gasless_config \<Rightarrow> string + forward_config" where
  "forward_config_of x g =
     (let f = forward_settings g in
      case native_contract_id x (cc_passphrase g) of
        Inl m \<Rightarrow> Inl (''native SAC id: '' @ m)
      | Inr i \<Rightarrow>
          (case encode_contract x i of
             Inl m \<Rightarrow> Inl (''encode native SAC id: '' @ m)
           | Inr native \<Rightarrow>
               let xlm = \<lparr>ft_contract = native, ft_symbol = ''XLM'', ft_native = True\<rparr>;
                   usdc = \<lparr>ft_contract = usdc_contract f, ft_symbol = ''USDC'', ft_native = False\<rparr>
               in Inr \<lparr>forwarder_id = gc_forwarder g, executor = from_keypair x (gc_executor g),
                       fee_tokens = (if usdc_contract f = [] then [xlm]
                                     else if usdc_contract f = native then [usdc] else [xlm, usdc]),
                       prices = (if float_less float_zero (xlm_usd_price f) then FixedPrice (xlm_usd_price f)
                                 else StellarExpertPrice minute),
                       margin_bps = fee_margin_bps f, auth_ledgers = word_of_int (executor_auth_ledgers f),
                       min_xlm_usd = xlm_usd_min f, max_xlm_usd = xlm_usd_max f, price_max_stale = fs_price_max_stale f\<rparr>))"

definition gasless_limits :: "gasless_config \<Rightarrow> limits" where
  "gasless_limits g =
     \<lparr>max_tx_per_wallet = sponsor_max_tx g, max_stroops_per_wallet = sponsor_max_wallet g,
      max_stroops_per_day = sponsor_max_day g, max_forward_failures = fs_max_failures (forward_settings g),
      forward_failure_window = fs_failure_window (forward_settings g),
      max_forward_in_flight = fs_max_in_flight (forward_settings g)\<rparr>"

definition submitter_of :: "wiring \<Rightarrow> gasless_config \<Rightarrow> policy \<Rightarrow> forward_config option \<Rightarrow> sponsor_config" where
  "submitter_of x g pol fwd =
     \<lparr>sc_instance = gc_instance g,
      sc_channel_keys = map_of (rev (map (\<lambda>ch. (ck_address ch, ck_keypair ch)) (gc_channels g))),
      funder = from_keypair x (gc_funder g), passphrase = cc_passphrase g, sc_policy = pol,
      sc_limits = gasless_limits g, max_inclusion_fee = gc_max_inclusion g,
      relayer_accounts = kp_address (gc_executor g) # kp_address (gc_funder g) # map ck_address (gc_channels g),
      sc_forward = fwd\<rparr>"

definition monitor_of :: "gasless_config \<Rightarrow> forward_config option \<Rightarrow> monitor_config" where
  "monitor_of g fwd =
     \<lparr>mon_executor = kp_address (gc_executor g), mon_funder = kp_address (gc_funder g), mon_channels = gc_channels g,
      funder_min = gc_funder_min g, channel_min = gc_channel_min g,
      mon_forwarder = (case fwd of None \<Rightarrow> [] | Some f \<Rightarrow> forwarder_id f),
      mon_fee_tokens = (case fwd of None \<Rightarrow> [] | Some f \<Rightarrow> map (\<lambda>t. (ft_contract t, ft_symbol t)) (fee_tokens f)),
      sweep_alert_units = (case fwd of None \<Rightarrow> 0 | Some f \<Rightarrow> sweep_alert (forward_settings g))\<rparr>"

definition preflight_of :: "gasless_config \<Rightarrow> preflight_check" where
  "preflight_of g = \<lparr>pf_passphrase = cc_passphrase g, pf_forwarder = gc_forwarder g,
     pf_executor = kp_address (gc_executor g), pf_funder = kp_address (gc_funder g)\<rparr>"

text \<open>The two settings records, of forward mode if it is enabled and of the sponsorship policy.\<close>

definition assemble :: "gasless_sdk \<Rightarrow> wiring \<Rightarrow> gasless_config \<Rightarrow> string + sponsor_config \<times> monitor_config" where
  "assemble k x g =
     and_then (if forward_enabled (forward_settings g)
               then and_then (forward_config_of x g) (\<lambda>f. Inr (Some f)) else Inr None) (\<lambda>fwd.
     and_then (parse_policy k (sponsored_calls g)) (\<lambda>pol.
       Inr (submitter_of x g pol fwd, monitor_of g fwd)))"

text \<open>
  \<open>main\<close> from the channel table to the submitter: an error at any step is \<open>os.Exit(1)\<close>. The answer names the
  settings the workers and handlers then run with.
\<close>

definition start_gasless ::
  "gasless_runtime \<Rightarrow> gasless_sdk \<Rightarrow> wiring \<Rightarrow> (nat \<Rightarrow> bool) \<Rightarrow> gasless_config \<Rightarrow>
   (string + sponsor_config \<times> monitor_config) gasless"
where
  "start_gasless e k x order g = do {
     err \<leftarrow> sync_channels (rt e) (gc_channels g);
     (case err of
        Some m \<Rightarrow> ret (Inl ''channels: sync'')
      | None \<Rightarrow> do {
          p \<leftarrow> preflight e k (preflight_of g) order minute;
          ret (case p of
                 Some m \<Rightarrow> Inl ''gasless preflight failed''
               | None \<Rightarrow> assemble k x g) })
   }"

section \<open>A service that comes up\<close>

lemma wired_limits:
  assumes "gasless_ok ck g" "sponsor_max_wallet g < 2 ^ 62" "sponsor_max_day g < 2 ^ 62"
  shows "limits_ok (gasless_limits g)"
  using assms by (simp add: gasless_ok_def forward_ok_def limits_ok_def gasless_limits_def)

lemma wired_forward:
  assumes "forward_config_of x g = Inr f"
  shows "margin_bps f = fee_margin_bps (forward_settings g)" "min_xlm_usd f = xlm_usd_min (forward_settings g)"
    "max_xlm_usd f = xlm_usd_max (forward_settings g)" "forwarder_id f = gc_forwarder g"
    "sg_address (executor f) = kp_address (gc_executor g)" "distinct (map ft_contract (fee_tokens f))"
    "length (filter ft_native (fee_tokens f)) \<le> 1"
  using assms by (auto simp: forward_config_of_def from_keypair_def Let_def split: sum.splits)

lemma channel_keys_of:
  "map_of (rev (map (\<lambda>ch. (ck_address ch, ck_keypair ch)) chs)) a = Some kp \<Longrightarrow>
    kp_address kp = a \<and> a \<in> ck_address ` set chs"
  by (auto dest!: map_of_SomeD simp: ck_address_def)

lemma parse_policy_nonempty: "parse_policy k s = Inr pol \<Longrightarrow> pol \<noteq> []"
  by (auto simp: parse_policy_def split: sum.splits list.splits)

lemma wp_start_gasless:
  "wp (start_gasless e k x order g) (\<lambda>r _. \<forall>y. r = Inr y \<longrightarrow> cleared e k (preflight_of g) \<and> assemble k x g = Inr y) w"
  unfolding start_gasless_def wp_bind
proof (rule wp_runI)
  fix err v
  show "wp (case err of
        None \<Rightarrow> do {
          p \<leftarrow> preflight e k (preflight_of g) order minute;
          ret (case p of Some m \<Rightarrow> Inl ''gasless preflight failed'' | None \<Rightarrow> assemble k x g) }
      | Some m \<Rightarrow> ret (Inl ''channels: sync''))
    (\<lambda>r _. \<forall>y. r = Inr y \<longrightarrow> cleared e k (preflight_of g) \<and> assemble k x g = Inr y) v"
    by (rule wp_optionI; simp; rule wp_mono [OF wp_preflight]; auto split: option.splits)
qed

lemma assemble_cases:
  assumes "assemble k x g = Inr (cfg, mc)"
  obtains pol fwd where "pol \<noteq> []" "\<forall>f. fwd = Some f \<longrightarrow> forward_config_of x g = Inr f"
    "cfg = submitter_of x g pol fwd" "mc = monitor_of g fwd"
proof -
  obtain fwd pol where a: "(if forward_enabled (forward_settings g)
      then and_then (forward_config_of x g) (\<lambda>f. Inr (Some f)) else Inr None) = Inr fwd"
      "parse_policy k (sponsored_calls g) = Inr pol" "Inr (submitter_of x g pol fwd, monitor_of g fwd) = (Inr (cfg, mc) :: string + _)"
    using assms unfolding assemble_def and_then_Inr by blast
  have "\<forall>f. fwd = Some f \<longrightarrow> forward_config_of x g = Inr f"
    using a(1) by (auto simp: and_then_Inr split: if_splits)
  then show ?thesis using a(3) parse_policy_nonempty [OF a(2)] by (intro that [of pol fwd]) simp_all
qed


definition demo_wiring :: wiring where
  "demo_wiring = \<lparr>native_contract_id = (\<lambda>p. Inr ''id''), encode_contract = (\<lambda>i. Inr ''CXLM''), kp_sign = (\<lambda>kp h. Inr ''sig'')\<rparr>"

definition demo_settings :: gasless_config where
  "demo_settings = projr (load_gasless demo_config_sdk (\<lambda>_. []) demo_gasless_env)"

definition demo_started :: "(string + sponsor_config \<times> monitor_config) \<times> gasless_world" where
  "demo_started = run_state (start_gasless sponsor_runtime sponsor_gsdk demo_wiring (\<lambda>n. True) demo_settings) sponsor_world"


end
