(* ===== verification/Forwarder.thy ===== *)
theory Forwarder
  imports Forwarder_Submit
begin

text \<open>
  The deposit life cycle of \<open>internal/service/forwarder/forwarder.go\<close>: \<open>forward_recorded\<close> is the
  watcher worker's run on a freshly recorded deposit, \<open>retry\<close> the retry worker's run on a row it
  read, \<open>resolve_submitted\<close> the look-up of a transfer whose outcome is unknown, and the sweep
  functions return a deposit that cannot be credited to the recovery account.
\<close>

section \<open>Trustlines\<close>

text \<open>The first balance of the asset decides; \<open>break\<close> on an unauthorized one falls to the error.\<close>

definition trustline_ok :: "hz_account \<Rightarrow> string \<Rightarrow> string \<Rightarrow> bool" where
  "trustline_ok acct code issuer \<longleftrightarrow>
     (case List.find (\<lambda>b. bal_code b = code \<and> bal_issuer b = issuer) (hz_balances acct) of
        None \<Rightarrow> False
      | Some b \<Rightarrow> is_authorized b \<noteq> Some False)"

definition check_trustline :: "runtime \<Rightarrow> string \<Rightarrow> string \<Rightarrow> string \<Rightarrow> (submit_error option) bridge" where
  "check_trustline e account code issuer = do {
     r \<leftarrow> ask (\<lambda>n. account_detail e n account);
     ret (case r of
            Inl m \<Rightarrow> Some (ErrTrustlineUnknown
              (''could not load account to check its trustline '' @ account @ '': '' @ m))
          | Inr acct \<Rightarrow>
              if trustline_ok acct code issuer then None
              else Some (ErrAwaitingTrustline
                (''no authorized trustline for the asset ('' @ code @ '':'' @ issuer @ '')'')))
   }"

fun check_all :: "runtime \<Rightarrow> (string \<times> string \<times> string) list \<Rightarrow> (string list) bridge" where
  "check_all e [] = ret []"
| "check_all e ((acct, code, issuer) # rest) = do {
     err \<leftarrow> check_trustline e acct code issuer;
     ps \<leftarrow> check_all e rest;
     ret (case err of None \<Rightarrow> ps | Some m \<Rightarrow> (acct @ '': '' @ error_string m) # ps)
   }"

definition check_trustlines :: "runtime \<Rightarrow> bridge_config \<Rightarrow> (string list) bridge" where
  "check_trustlines e cfg =
     (let accounts = recovery_address cfg # map pa_address (pool_accounts cfg)
      in check_all e (concat (map (\<lambda>a.
           case parse_asset a of
             Inr (CreditAsset code issuer) \<Rightarrow>
               map (\<lambda>acct. (acct, code, issuer)) (filter (\<lambda>acct. acct \<noteq> []) accounts)
           | _ \<Rightarrow> []) (accepted_assets cfg))))"

section \<open>Sweeps\<close>

text \<open>The memo of a sweep: the bytes of the inbound transaction's hash, when the key starts with one.\<close>

definition sweep_memo :: "string \<Rightarrow> string option" where
  "sweep_memo h = (case cut CHR '':'' h of (x, _, _) \<Rightarrow> if length x = 64 then hex_decode x else None)"

definition prepare_sweep ::
  "sdk \<Rightarrow> bridge_config \<Rightarrow> string \<Rightarrow> string \<Rightarrow> string \<Rightarrow> asset \<Rightarrow> prepare_fn"
where
  "prepare_sweep k cfg h pool amt a src seq until =
     (let env = base_envelope src seq (Payment (recovery_address cfg) amt a pool) (sweep_memo h) until
      in ret (case new_transaction_error k env of
                Some m \<Rightarrow> Inl (permanent (''build sweep tx: '' @ m))
              | None \<Rightarrow> Inr \<lparr>prep_env = env, set_fee = (\<lambda>v fee. v\<lparr>env_fee := fee\<rparr>)\<rparr>))"

definition sweep_tx ::
  "runtime \<Rightarrow> sdk \<Rightarrow> bridge_config \<Rightarrow> string \<Rightarrow> string \<Rightarrow> string \<Rightarrow> string \<Rightarrow> (submit_error + string) bridge"
where
  "sweep_tx e k cfg h pool amt ass =
     (if recovery_address cfg = [] then ret (Inl (permanent ''RECOVERY_ADDRESS is not configured''))
      else case parse_asset ass of
        Inl m \<Rightarrow> ret (Inl (permanent m))
      | Inr a \<Rightarrow> do {
          err \<leftarrow> (case a of
                    NativeAsset \<Rightarrow> ret None
                  | CreditAsset code issuer \<Rightarrow> check_trustline e (recovery_address cfg) code issuer);
          (case err of
             Some m \<Rightarrow> ret (Inl m)
           | None \<Rightarrow> transfer e k cfg h pool (prepare_sweep k cfg h pool amt a)) })"

text \<open>Whether the error only defers a sweep: a missing trustline, an unknown outcome, a busy pool.\<close>

definition defers_sweep :: "submit_error \<Rightarrow> bool" where
  "defers_sweep err \<longleftrightarrow>
     (case err of ErrAwaitingTrustline m \<Rightarrow> True | ErrTrustlineUnknown m \<Rightarrow> True | _ \<Rightarrow> False) \<or>
     is_unconfirmed err \<or> is_contention err"

definition sweep_deposit ::
  "runtime \<Rightarrow> sdk \<Rightarrow> bridge_config \<Rightarrow> string \<Rightarrow> string \<Rightarrow> string \<Rightarrow> string \<Rightarrow> unit bridge"
where
  "sweep_deposit e k cfg h pool amt ass = do {
     r \<leftarrow> sweep_tx e k cfg h pool amt ass;
     (case r of
        Inr x \<Rightarrow> mark_swept e h x
      | Inl err \<Rightarrow>
          if defers_sweep err then requeue_for_contention e h (''not swept yet: '' @ error_string err)
          else if is_permanent err
          then permanently_fail e h (''not swept, funds remain in pool: '' @ error_string err)
          else mark_forward_failed e h StatusPendingRetry (''not swept yet: '' @ error_string err));
     skip
   }"

definition start_sweep ::
  "runtime \<Rightarrow> sdk \<Rightarrow> bridge_config \<Rightarrow> string \<Rightarrow> string \<Rightarrow> string \<Rightarrow> string \<Rightarrow> string \<Rightarrow> unit bridge"
where
  "start_sweep e k cfg h pool amt ass reason = do {
     err \<leftarrow> mark_sweep e h reason;
     (case err of
        Some m \<Rightarrow> do { mark_forward_failed e h StatusPendingRetry m; skip }
      | None \<Rightarrow> sweep_deposit e k cfg h pool amt ass)
   }"

section \<open>First attempt\<close>

text \<open>
  The three quick attempts. A cancelled context returns with the row as it is; otherwise the last
  error decides between requeueing without charge and with it.
\<close>

definition requeue_last_error :: "runtime \<Rightarrow> string \<Rightarrow> submit_error \<Rightarrow> unit bridge" where
  "requeue_last_error e h err = do {
     (if is_contention err then requeue_for_contention e h (error_string err)
      else mark_forward_failed e h StatusPendingRetry (error_string err));
     skip
   }"

fun forward_attempts ::
  "runtime \<Rightarrow> sdk \<Rightarrow> bridge_config \<Rightarrow> string \<Rightarrow> 64 word \<Rightarrow> string \<Rightarrow> string \<Rightarrow> string \<Rightarrow> string \<Rightarrow>
   nat \<Rightarrow> submit_error option \<Rightarrow> unit bridge"
where
  "forward_attempts e k cfg h m c_addr pool amt ass 0 last_err =
     (case last_err of None \<Rightarrow> skip | Some err \<Rightarrow> requeue_last_error e h err)"
| "forward_attempts e k cfg h m c_addr pool amt ass (Suc n) last_err = do {
     cancelled \<leftarrow> (if last_err = None then ret False else ask (ctx_done e));
     if cancelled then skip
     else do {
       r \<leftarrow> submit e k cfg h c_addr pool amt ass;
       (case r of
          Inr x \<Rightarrow> do { mark_forward_done e h x; complete_intent e m; skip }
        | Inl err \<Rightarrow>
            if is_unconfirmed err then do { requeue_for_contention e h (error_string err); skip }
            else if is_permanent err then do { mark_forward_failed e h StatusFailed (error_string err); skip }
            else forward_attempts e k cfg h m c_addr pool amt ass n (Some err))
     }
   }"

text \<open>The deposit as the watcher's job carries it, with the pool of that watcher.\<close>

record forward_job =
  job_tx_hash :: string
  job_landed_at :: instant
  job_memo_id :: "64 word"
  job_from :: string
  job_amount :: string
  job_asset :: string

text \<open>From the claim on: the deposit belongs to this worker.\<close>

definition forward_claimed ::
  "runtime \<Rightarrow> sdk \<Rightarrow> bridge_config \<Rightarrow> string \<Rightarrow> forward_job \<Rightarrow> instant \<Rightarrow> unit bridge"
where
  "forward_claimed e k cfg pool job landed =
     (let h = job_tx_hash job; amt = job_amount job; ass = job_asset job in
      if \<not> accepts cfg ass then start_sweep e k cfg h pool amt ass (''unsupported asset '' @ ass)
      else do {
        i \<leftarrow> get_intent e (job_memo_id job);
        (case i of
           Inl ErrNoRows \<Rightarrow> start_sweep e k cfg h pool amt ass ''unknown memo_id''
         | Inl err \<Rightarrow> do {
             mark_forward_failed e h StatusPendingRetry (''look up intent: '' @ store_error_text err);
             skip }
         | Inr intent \<Rightarrow>
             if expires_at intent < landed then start_sweep e k cfg h pool amt ass ''intent expired''
             else forward_attempts e k cfg h (job_memo_id job) (c_address intent) pool amt ass 3 None) })"

definition forward_recorded ::
  "runtime \<Rightarrow> sdk \<Rightarrow> bridge_config \<Rightarrow> string \<Rightarrow> forward_job \<Rightarrow> unit bridge"
where
  "forward_recorded e k cfg pool job = do {
     started \<leftarrow> ask (clock e);
     claimed \<leftarrow> claim_new_forward e (job_tx_hash job);
     (if claimed \<noteq> Inr True then skip
      else forward_claimed e k cfg pool job
             (if is_zero_time (job_landed_at job) then started else job_landed_at job))
   }"

section \<open>Retry\<close>

definition complete_retried :: "runtime \<Rightarrow> forward \<Rightarrow> string \<Rightarrow> unit bridge" where
  "complete_retried e fwd x = do {
     mark_forward_done e (tx_hash fwd) x;
     complete_intent e (from_bigint (fwd_memo_id fwd));
     skip
   }"

definition past_max_time :: "runtime \<Rightarrow> tx_response \<Rightarrow> instant \<Rightarrow> bool bridge" where
  "past_max_time e resp until =
     (if latest_ledger_close_time resp \<noteq> 0
      then ret (until < from_unix (latest_ledger_close_time resp))
      else do { now \<leftarrow> ask (clock e); ret (until + landing_grace < now) })"

definition outside_history :: "tx_response \<Rightarrow> instant \<Rightarrow> bool" where
  "outside_history resp until \<longleftrightarrow>
     oldest_ledger_close_time resp \<noteq> 0 \<and> until - tx_validity < from_unix (oldest_ledger_close_time resp)"

text \<open>The default case: not seen yet, so waited for, handed to a human, or given up as expired.\<close>

definition resolve_unseen :: "runtime \<Rightarrow> forward \<Rightarrow> string \<Rightarrow> tx_response \<Rightarrow> bool bridge" where
  "resolve_unseen e fwd x resp = do {
     (let until = (case submitted_until fwd of None \<Rightarrow> updated_at fwd + tx_validity | Some t \<Rightarrow> t) in do {
       past \<leftarrow> past_max_time e resp until;
       (if \<not> past then do {
          requeue_for_contention e (tx_hash fwd)
            (''awaiting '' @ x @ '' (valid until '' @ format_rfc3339 until @ '')'');
          ret True }
        else if outside_history resp until then do {
          permanently_fail e (tx_hash fwd) (''outcome of '' @ x @
            '' unknown: older than RPC history '' @ [CHR 0xE2, CHR 0x80, CHR 0x94] @
            '' reconcile on-chain before re-forwarding'');
          ret True }
        else do { forgot \<leftarrow> forget_submission e (tx_hash fwd); ret (\<not> forgot) }) })
   }"

text \<open>\<open>True\<close>: settled, or still waiting. \<open>False\<close>: that transfer never moved funds.\<close>

definition resolve_submitted :: "runtime \<Rightarrow> sdk \<Rightarrow> forward \<Rightarrow> string \<Rightarrow> bool bridge" where
  "resolve_submitted e k fwd x = do {
     r \<leftarrow> ask (\<lambda>n. get_transaction e n x);
     (case r of
        Inl m \<Rightarrow> do {
          requeue_for_contention e (tx_hash fwd) (''resolve '' @ x @ '': '' @ m);
          ret True }
      | Inr resp \<Rightarrow>
          (case tx_status resp of
             TxSuccess \<Rightarrow>
               if sweep fwd then do { mark_swept e (tx_hash fwd) x; ret True }
               else do { complete_retried e fwd x; ret True }
           | TxFailed \<Rightarrow>
               (let cause = classify_result_xdr k (result_xdr resp) in
                if is_permanent cause then
                  (if sweep fwd then do {
                     permanently_fail e (tx_hash fwd) (''not swept, funds remain in pool: '' @ error_string cause);
                     ret True }
                   else do {
                     permanently_fail e (tx_hash fwd) (error_string cause);
                     fail_intent e (from_bigint (fwd_memo_id fwd));
                     ret True })
                else do { forgot \<leftarrow> forget_submission e (tx_hash fwd); ret (\<not> forgot) })
           | _ \<Rightarrow> resolve_unseen e fwd x resp))
   }"

text \<open>From the ceiling check on, once nothing is in flight.\<close>

definition retry_forward :: "runtime \<Rightarrow> sdk \<Rightarrow> bridge_config \<Rightarrow> forward \<Rightarrow> intent \<Rightarrow> unit bridge" where
  "retry_forward e k cfg fwd intent = do {
     (let h = tx_hash fwd;
          pool = (if pool_address fwd = [] then intent_pool intent else pool_address fwd)
      in do {
       r \<leftarrow> submit e k cfg h (c_address intent) pool (amount fwd) (asset fwd);
       (case r of
          Inr x \<Rightarrow> complete_retried e fwd x
        | Inl err \<Rightarrow>
            if is_unconfirmed err then do { requeue_for_contention e h (error_string err); skip }
            else if is_permanent err then do {
              permanently_fail e h (error_string err);
              fail_intent e (from_bigint (fwd_memo_id fwd));
              skip }
            else if is_contention err then do { requeue_for_contention e h (error_string err); skip }
            else do { mark_forward_failed e h StatusPendingRetry (error_string err); skip }) })
   }"

definition retry_unsent :: "runtime \<Rightarrow> sdk \<Rightarrow> bridge_config \<Rightarrow> forward \<Rightarrow> unit bridge" where
  "retry_unsent e k cfg fwd =
     (let h = tx_hash fwd; pool = pool_address fwd; amt = amount fwd; ass = asset fwd in
      if int max_retries \<le> retries fwd then
        (if sweep fwd then do {
           permanently_fail e h (''not swept after '' @ show_nat max_retries @ '' retries, funds remain in pool'');
           skip }
         else do {
           permanently_fail e h (''exceeded max retries ('' @ show_nat max_retries @ '')'');
           fail_intent e (from_bigint (fwd_memo_id fwd));
           skip })
      else if sweep fwd then
        (if pool = [] then do {
           permanently_fail e h ''not swept: receiving pool unknown, funds remain in pool'';
           skip }
         else sweep_deposit e k cfg h pool amt ass)
      else if \<not> accepts cfg ass \<and> pool \<noteq> []
      then start_sweep e k cfg h pool amt ass (''unsupported asset '' @ ass)
      else do {
        i \<leftarrow> get_intent e (from_bigint (fwd_memo_id fwd));
        (case i of
           Inl ErrNoRows \<Rightarrow>
             if pool = [] then do {
               permanently_fail e h ''intent not found and receiving pool unknown'';
               skip }
             else start_sweep e k cfg h pool amt ass ''unknown memo_id''
         | Inl err \<Rightarrow> do {
             mark_forward_failed e h StatusPendingRetry (''look up intent: '' @ store_error_text err);
             skip }
         | Inr intent \<Rightarrow>
             if (case landed_at fwd of None \<Rightarrow> False | Some t \<Rightarrow> expires_at intent < t) \<and> pool \<noteq> []
             then start_sweep e k cfg h pool amt ass ''intent expired''
             else retry_forward e k cfg fwd intent) })"

text \<open>A transfer on the network is resolved before anything else, the retry ceiling included.\<close>

definition retry_claimed :: "runtime \<Rightarrow> sdk \<Rightarrow> bridge_config \<Rightarrow> forward \<Rightarrow> unit bridge" where
  "retry_claimed e k cfg fwd = do {
     settled \<leftarrow> (case submitted_tx fwd of
                   None \<Rightarrow> ret False
                 | Some x \<Rightarrow> resolve_submitted e k fwd x);
     (if settled then skip else retry_unsent e k cfg fwd)
   }"

definition retry :: "runtime \<Rightarrow> sdk \<Rightarrow> bridge_config \<Rightarrow> forward \<Rightarrow> unit bridge" where
  "retry e k cfg fwd = do {
     claimed \<leftarrow> (if status fwd = StatusPending then claim_pending_forward e (tx_hash fwd) (updated_at fwd)
                  else ret (Inr True));
     (if claimed \<noteq> Inr True then skip else retry_claimed e k cfg fwd)
   }"

end
