(* ===== verification/Payment_Safety.thy ===== *)
theory Payment_Safety
  imports Forwarder
begin

text \<open>
  One deposit is paid out at most once. The outside world is constrained by \<open>honest_network\<close>, a
  list of documented behaviours of Stellar and its RPC; on top of it, each function of the
  submit pipeline and of the deposit life cycle gets a Hoare rule over the predicates below, from
  \<open>busy\<close> (this run owns the deposit's row, and nothing is settled on it) to \<open>accounted\<close> (every
  transfer of the deposit that lands is the one its row holds).
\<close>

declare send_loop.simps [simp del] fee_loop.simps [simp del] channel_fee_loop.simps [simp del]
  forward_attempts.simps [simp del]

section \<open>What is assumed of the network\<close>

text \<open>
  The fate of every transaction, by hash: the close time of the ledger in which it moved funds,
  if any ledger does, and the upper time bound in its envelope.
\<close>

record network =
  landed_in :: "string \<Rightarrow> int option"
  max_time_of :: "string \<Rightarrow> int"

definition lands :: "network \<Rightarrow> string \<Rightarrow> bool" where
  "lands net x \<longleftrightarrow> landed_in net x \<noteq> None"

text \<open>A transaction lands within its time bounds, and not before it was made.\<close>

definition bounds_respected :: "network \<Rightarrow> bool" where
  "bounds_respected net \<longleftrightarrow>
     (\<forall>x c. landed_in net x = Some c \<longrightarrow> 0 \<le> c \<and> max_time_of net x - 120 \<le> c \<and> c \<le> max_time_of net x)"

text \<open>\<open>SUCCESS\<close> is said only of a transaction that moved funds, \<open>FAILED\<close> only of one that never does.\<close>

definition rpc_truthful :: "runtime \<Rightarrow> network \<Rightarrow> bool" where
  "rpc_truthful e net \<longleftrightarrow>
     (\<forall>n x resp. poll_transaction e n x = Inr resp \<or> get_transaction e n x = Inr resp \<longrightarrow>
        (tx_status resp = TxSuccess \<longrightarrow> lands net x) \<and> (tx_status resp = TxFailed \<longrightarrow> \<not> lands net x))"

text \<open>
  Any other status means the transaction is in none of the ledgers the answer covers: from the
  oldest to the latest close time it reports, or, when it reports no latest one, up to the local
  clock less \<open>landingGrace\<close>.
\<close>

definition rpc_complete :: "runtime \<Rightarrow> network \<Rightarrow> bool" where
  "rpc_complete e net \<longleftrightarrow>
     (\<forall>n x resp c. get_transaction e n x = Inr resp \<longrightarrow> tx_status resp \<noteq> TxSuccess \<longrightarrow>
        tx_status resp \<noteq> TxFailed \<longrightarrow> landed_in net x = Some c \<longrightarrow> oldest_ledger_close_time resp \<le> c \<longrightarrow>
        (if latest_ledger_close_time resp \<noteq> 0 then latest_ledger_close_time resp < c
         else clock e (Suc n) \<le> from_unix c + landing_grace))"

text \<open>The hash commits to the time bounds, and \<open>sendTransaction\<close> answers with the hash it was sent.\<close>

definition hash_binds :: "sdk \<Rightarrow> string \<Rightarrow> network \<Rightarrow> bool" where
  "hash_binds k pass net \<longleftrightarrow>
     (\<forall>stx x. tx_hash_hex k pass stx = Inr x \<longrightarrow> max_time_of net x = env_max_time (stx_env stx)) \<and>
     (\<forall>fb x. fb_hash_hex k pass fb = Inr x \<longrightarrow>
        max_time_of net x = env_max_time (stx_env (fb_inner fb)))"

definition send_echoes :: "runtime \<Rightarrow> sdk \<Rightarrow> string \<Rightarrow> bool" where
  "send_echoes e k pass \<longleftrightarrow>
     (\<forall>n b x resp. send_transaction e n b = Inr resp \<longrightarrow>
        send_status resp = SendPENDING \<or> send_status resp = SendDUPLICATE \<longrightarrow>
        (\<exists>stx. tx_base64 k stx = Inr b \<and> tx_hash_hex k pass stx = Inr x) \<or>
        (\<exists>fb. fb_base64 k fb = Inr b \<and> fb_hash_hex k pass fb = Inr x) \<longrightarrow>
        send_hash resp = x)"

definition honest_network :: "runtime \<Rightarrow> sdk \<Rightarrow> bridge_config \<Rightarrow> network \<Rightarrow> bool" where
  "honest_network e k cfg net \<longleftrightarrow>
     bounds_respected net \<and> rpc_truthful e net \<and> rpc_complete e net \<and>
     hash_binds k (network_passphrase cfg) net \<and> send_echoes e k (network_passphrase cfg) \<and>
     tx_codec_ok k \<and> fb_codec_ok k"

section \<open>State predicates\<close>

definition row_ok :: "network \<Rightarrow> forward \<Rightarrow> bool" where
  "row_ok net r \<longleftrightarrow>
     (forward_tx r \<noteq> None \<longleftrightarrow> status r = StatusDone \<or> status r = StatusSwept) \<and>
     (forward_tx r \<noteq> None \<longrightarrow> submitted_tx r = None) \<and>
     (\<forall>x. submitted_tx r = Some x \<longrightarrow> submitted_until r = Some (from_unix (max_time_of net x))) \<and>
     (\<forall>x. forward_tx r = Some x \<longrightarrow> lands net x)"

definition base :: "network \<Rightarrow> deposit_db \<Rightarrow> bool" where
  "base net db \<longleftrightarrow> db_wf db \<and> exclusive_hashes db \<and> (\<forall>r \<in> set (forwards db). row_ok net r)"

definition unpaid :: "network \<Rightarrow> string \<Rightarrow> (string \<times> string) list \<Rightarrow> bool" where
  "unpaid net h q \<longleftrightarrow> (\<forall>x. (h, x) \<in> set q \<longrightarrow> \<not> lands net x)"

definition accounted :: "network \<Rightarrow> string \<Rightarrow> deposit_db \<Rightarrow> (string \<times> string) list \<Rightarrow> bool" where
  "accounted net h db q \<longleftrightarrow>
     (\<forall>x. (h, x) \<in> set q \<longrightarrow> lands net x \<longrightarrow> (\<exists>r. fwd_row db h = Some r \<and> holds_hash x r))"

definition payment_inv :: "network \<Rightarrow> bridge_world \<Rightarrow> bool" where
  "payment_inv net w \<longleftrightarrow> base net (dep w) \<and> (\<forall>h. accounted net h (dep w) (queued w))"

text \<open>The run owns row \<open>h\<close>, which is not settled; all other deposits are accounted for.\<close>

definition busy :: "network \<Rightarrow> string \<Rightarrow> bridge_world \<Rightarrow> bool" where
  "busy net h w \<longleftrightarrow> base net (dep w) \<and>
     (\<forall>h'. h' \<noteq> h \<longrightarrow> accounted net h' (dep w) (queued w)) \<and>
     (\<exists>r. fwd_row (dep w) h = Some r \<and> forward_tx r = None)"

definition free_to_send :: "network \<Rightarrow> string \<Rightarrow> bridge_world \<Rightarrow> bool" where
  "free_to_send net h w \<longleftrightarrow> busy net h w \<and> unpaid net h (queued w)"

text \<open>The row holds \<open>x\<close>, the only transfer of the deposit that can have landed.\<close>

definition in_flight :: "network \<Rightarrow> string \<Rightarrow> string \<Rightarrow> bridge_world \<Rightarrow> bool" where
  "in_flight net h x w \<longleftrightarrow> busy net h w \<and>
     (\<exists>r. fwd_row (dep w) h = Some r \<and> submitted_tx r = Some x) \<and>
     (\<forall>y. (h, y) \<in> set (queued w) \<longrightarrow> lands net y \<longrightarrow> y = x)"

definition safe_open :: "network \<Rightarrow> string \<Rightarrow> bridge_world \<Rightarrow> bool" where
  "safe_open net h w \<longleftrightarrow> busy net h w \<and> accounted net h (dep w) (queued w)"

section \<open>The tables\<close>

lemma holds_hash_simps [simp]:
  "holds_hash x (touch_row now r) = holds_hash x r"
  "holds_hash x (sweep_row now reason r) = holds_hash x r"
  "holds_hash x (failed_row now st msg r) = holds_hash x r"
  "holds_hash x (requeue_row now msg r) = holds_hash x r"
  "holds_hash x (perm_failed_row now msg r) = holds_hash x r"
  by (simp_all add: holds_hash_def row_defs)

text \<open>
  What a statement on row \<open>h\<close> keeps of the whole table: the new row must be well formed, and any
  hash it did not hold before must be held by no other row.
\<close>

context forward_op
begin

lemma base_after:
  assumes "base net db" "fwd_row db h = Some r"
    and "c r \<Longrightarrow> row_ok net (set_columns r)"
    and "\<And>x s. c r \<Longrightarrow> holds_hash x (set_columns r) \<Longrightarrow> \<not> holds_hash x r \<Longrightarrow>
      s \<in> set (forwards db) \<Longrightarrow> tx_hash s \<noteq> h \<Longrightarrow> \<not> holds_hash x s"
  shows "base net (snd (update_forward h c set_columns db))"
proof -
  let ?db = "snd (update_forward h c set_columns db)"
  have wf: "db_wf db" using assms(1) by (simp add: base_def)
  have r: "r \<in> set (forwards db)" "tx_hash r = h" using fwd_row_key [OF assms(2)] by simp_all
  have uniq: "t = r" if "t \<in> set (forwards db)" "tx_hash t = h" for t
    using row_unique [of tx_hash "forwards db" t r] wf that r by (simp add: db_wf_def)
  have rows: "(s \<in> set (forwards db) \<and> (tx_hash s = h \<longrightarrow> s = r)) \<or> (s = set_columns r \<and> c r)"
    if s: "s \<in> set (forwards ?db)" for s
  proof -
    obtain t where t: "t \<in> set (forwards db)" "s = (if tx_hash t = h \<and> c t then set_columns t else t)"
      using s unfolding forwards_after update_where_def snd_conv set_map by blast
    then show ?thesis using uniq by (cases "tx_hash t = h \<and> c t") simp_all
  qed
  have ok: "row_ok net s" if "s \<in> set (forwards ?db)" for s
    using rows [OF that] assms(1,3) unfolding base_def by blast
  have old: "holds_hash x s \<Longrightarrow> holds_hash x t \<Longrightarrow> tx_hash s = tx_hash t"
    if "s \<in> set (forwards db)" "t \<in> set (forwards db)" for s t x
    using assms(1) that unfolding base_def exclusive_hashes_def by blast
  have new: "tx_hash s = h" if "s \<in> set (forwards db)" "holds_hash x s" "holds_hash x (set_columns r)" "c r" for s x
    using assms(4) [of x s] old [of s r x] that r by blast
  have "tx_hash s = tx_hash t"
    if "s \<in> set (forwards ?db)" "t \<in> set (forwards ?db)" "holds_hash x s" "holds_hash x t" for s t x
    using rows [OF that(1)] rows [OF that(2)] that(3,4) old new r key_kept by metis
  with ok have "exclusive_hashes ?db \<and> (\<forall>s \<in> set (forwards ?db). row_ok net s)"
    unfolding exclusive_hashes_def by blast
  then show ?thesis
    using wf_after [OF wf] by (simp add: base_def)
qed

lemma busy_after:
  assumes "busy net h w" "fwd_row (dep w) h = Some r"
    and "queued w' = queued w" "dep w' = snd (update_forward h c set_columns (dep w))"
    and "c r \<Longrightarrow> row_ok net (set_columns r) \<and> forward_tx (set_columns r) = None"
    and "\<And>x s. c r \<Longrightarrow> holds_hash x (set_columns r) \<Longrightarrow> \<not> holds_hash x r \<Longrightarrow>
      s \<in> set (forwards (dep w)) \<Longrightarrow> tx_hash s \<noteq> h \<Longrightarrow> \<not> holds_hash x s"
  shows "busy net h w'"
proof -
  have "base net (dep w')"
    unfolding assms(4) using assms by (intro base_after [of net _ h r]) (auto simp: busy_def)
  then show ?thesis
    using assms by (auto simp: busy_def accounted_def row_after)
qed

end

text \<open>
  A quiet operation changes neither the hashes of the row nor whether it is settled. Five of the
  statements are quiet, and so is a failure recorded with an open status.
\<close>

locale quiet_op = forward_op +
  assumes hashes_kept: "forward_tx (set_columns r) = forward_tx r"
      "submitted_tx (set_columns r) = submitted_tx r" "submitted_until (set_columns r) = submitted_until r"
    and stays_open: "status r \<noteq> StatusDone \<Longrightarrow> status r \<noteq> StatusSwept \<Longrightarrow>
      status (set_columns r) \<noteq> StatusDone \<and> status (set_columns r) \<noteq> StatusSwept"
begin

lemma holds_kept: "holds_hash x (set_columns r) = holds_hash x r"
  by (simp add: holds_hash_def hashes_kept)

lemma busy_kept:
  assumes "busy net h w" "queued w' = queued w" "dep w' = snd (update_forward h c set_columns (dep w))"
  shows "busy net h w'"
proof -
  obtain r where r: "fwd_row (dep w) h = Some r" "forward_tx r = None"
    using assms(1) by (auto simp: busy_def)
  have "row_ok net r" using assms(1) fwd_row_key [OF r(1)] by (auto simp: busy_def base_def)
  then have "row_ok net (set_columns r) \<and> forward_tx (set_columns r) = None"
    using r stays_open [of r] by (auto simp: row_ok_def hashes_kept)
  then show ?thesis by (intro busy_after [OF assms(1) r(1) assms(2,3)]) (auto simp: holds_kept)
qed

lemma free_kept:
  assumes "free_to_send net h w" "queued w' = queued w" "dep w' = snd (update_forward h c set_columns (dep w))"
  shows "free_to_send net h w'"
  using assms busy_kept by (auto simp: free_to_send_def)

lemma row_kept:
  assumes "fwd_row db h = Some r"
  obtains r' where "fwd_row (snd (update_forward h c set_columns db)) h = Some r'"
    "\<And>x. holds_hash x r' = holds_hash x r" "submitted_tx r' = submitted_tx r"
proof (cases "c r")
  case True
  then show ?thesis using assms that [of "set_columns r"] by (simp add: row_after holds_kept hashes_kept)
next
  case False
  then show ?thesis using assms that [of r] by (simp add: row_after)
qed

lemma safe_kept:
  assumes "safe_open net h w" "queued w' = queued w" "dep w' = snd (update_forward h c set_columns (dep w))"
  shows "safe_open net h w'"
proof -
  obtain r where r: "fwd_row (dep w) h = Some r"
    using assms(1) by (auto simp: safe_open_def busy_def)
  from row_kept [OF r, of c] obtain r' where
    "fwd_row (dep w') h = Some r'" "\<And>x. holds_hash x r' = holds_hash x r"
    unfolding assms(3) by blast
  then show ?thesis
    using assms r busy_kept [of net h w w' c] by (auto simp: safe_open_def accounted_def)
qed

lemma in_flight_kept:
  assumes "in_flight net h x w" "queued w' = queued w" "dep w' = snd (update_forward h c set_columns (dep w))"
  shows "in_flight net h x w'"
proof -
  obtain r where r: "fwd_row (dep w) h = Some r" "submitted_tx r = Some x"
    using assms(1) by (auto simp: in_flight_def)
  from row_kept [OF r(1), of c] obtain r' where
    "fwd_row (dep w') h = Some r'" "submitted_tx r' = submitted_tx r"
    unfolding assms(3) by blast
  then show ?thesis
    using assms r busy_kept [of net h w w' c] by (auto simp: in_flight_def)
qed

end

interpretation touch_quiet: quiet_op "touch_row now" for now
  by unfold_locales (auto simp: touch_row_def)

interpretation sweep_quiet: quiet_op "sweep_row now reason" for now reason
  by unfold_locales (auto simp: sweep_row_def)

interpretation requeue_quiet: quiet_op "requeue_row now msg" for now msg
  by unfold_locales (auto simp: requeue_row_def)

interpretation perm_quiet: quiet_op "perm_failed_row now msg" for now msg
  by unfold_locales (auto simp: perm_failed_row_def)

interpretation retry_quiet: quiet_op "failed_row now StatusPendingRetry msg" for now msg
  by unfold_locales (auto simp: failed_row_def)

interpretation failed_quiet: quiet_op "failed_row now StatusFailed msg" for now msg
  by unfold_locales (auto simp: failed_row_def)

section \<open>Rules for the primitive calls\<close>

lemma cong_view:
  assumes "dep w' = dep w" "queued w' = queued w"
  shows "busy net h w' = busy net h w" "free_to_send net h w' = free_to_send net h w"
    "safe_open net h w' = safe_open net h w" "in_flight net h x w' = in_flight net h x w"
    "payment_inv net w' = payment_inv net w"
  using assms
  by (simp_all add: busy_def free_to_send_def safe_open_def in_flight_def payment_inv_def)

lemma free_safe: "free_to_send net h w \<Longrightarrow> safe_open net h w"
  by (auto simp: free_to_send_def safe_open_def accounted_def unpaid_def)

lemma in_flight_safe: "in_flight net h x w \<Longrightarrow> safe_open net h w"
  by (auto simp: in_flight_def safe_open_def accounted_def holds_hash_def)

lemma safe_inv: "safe_open net h w \<Longrightarrow> payment_inv net w"
  by (auto simp: safe_open_def payment_inv_def busy_def)

lemmas quiet_method_defs = requeue_for_contention_def permanently_fail_def mark_forward_failed_def
  mark_sweep_def requeue_for_contention_stmt_def permanently_fail_stmt_def
  mark_forward_failed_stmt_def mark_sweep_stmt_def

lemma wp_exec_keep:
  assumes "\<And>w'. dep w' = dep w \<Longrightarrow> queued w' = queued w \<Longrightarrow> P w'"
    and "\<And>w'. queued w' = queued w \<Longrightarrow> dep w' = snd (stmt (db_now e (tick w)) (dep w)) \<Longrightarrow> P w'"
  shows "wp (exec e p stmt) (\<lambda>_. P) w"
  by (rule wp_exec) (use assms in blast)

lemma view_same:
  assumes "dep w' = dep w" "queued w' = queued w"
  shows "free_to_send net h w \<Longrightarrow> free_to_send net h w'" "safe_open net h w \<Longrightarrow> safe_open net h w'"
    "payment_inv net w \<Longrightarrow> payment_inv net w'"
  using cong_view [OF assms] by simp_all

lemma wp_quiet_safe:
  assumes "safe_open net h w"
  shows "wp (requeue_for_contention e h msg) (\<lambda>_. safe_open net h) w"
    and "wp (permanently_fail e h msg) (\<lambda>_. safe_open net h) w"
    and "wp (mark_forward_failed e h StatusPendingRetry msg) (\<lambda>_. safe_open net h) w"
    and "wp (mark_forward_failed e h StatusFailed msg) (\<lambda>_. safe_open net h) w"
  unfolding quiet_method_defs
  by (rule wp_exec_keep, erule (1) view_same(2) [OF _ _ assms],
      (unfold snd_conv, erule (1) requeue_quiet.safe_kept [OF assms] perm_quiet.safe_kept [OF assms]
        retry_quiet.safe_kept [OF assms] failed_quiet.safe_kept [OF assms]))+

lemma wp_mark_sweep:
  assumes "free_to_send net h w"
  shows "wp (mark_sweep e h reason) (\<lambda>_. free_to_send net h) w"
  unfolding quiet_method_defs
  by (rule wp_exec_keep, erule (1) view_same(1) [OF _ _ assms],
      unfold snd_conv, erule (1) sweep_quiet.free_kept [OF assms])

lemma clear_free:
  assumes "free_to_send net h w" "queued w' = queued w" "dep w' = snd (clear_submission_stmt now h (dep w))"
  shows "free_to_send net h w'"
proof -
  obtain r where r: "fwd_row (dep w) h = Some r" "forward_tx r = None"
    using assms(1) by (auto simp: free_to_send_def busy_def)
  have "row_ok net r"
    using assms(1) fwd_row_key [OF r(1)] by (auto simp: free_to_send_def busy_def base_def)
  then have "busy net h w'"
    using assms r
    by (intro clear.busy_after [of net h w r w' "\<lambda>_. True" now])
      (auto simp: clear_submission_stmt_def clear_row_def row_ok_def holds_hash_def free_to_send_def)
  then show ?thesis using assms by (simp add: free_to_send_def)
qed

lemma wp_forget:
  assumes "free_to_send net h w"
  shows "wp (forget_submission e h) (\<lambda>_. free_to_send net h) w"
  unfolding forget_submission_def clear_submission_def wp_bind wp_return
  by (rule wp_exec_keep, erule (1) view_same(1) [OF _ _ assms], erule (1) clear_free [OF assms])

text \<open>A recorded hash: the row is free, and the hash about to be sent is on it.\<close>

definition recorded :: "network \<Rightarrow> string \<Rightarrow> string \<Rightarrow> bridge_world \<Rightarrow> bool" where
  "recorded net h x w \<longleftrightarrow> free_to_send net h w \<and>
     (\<exists>r. fwd_row (dep w) h = Some r \<and> submitted_tx r = Some x)"

lemma record_free:
  assumes "free_to_send net h w" "queued w' = queued w" "until = from_unix (max_time_of net x)"
    "dep w' = snd (record_submission_stmt now h x until (dep w))"
  shows "free_to_send net h w'"
    and "fst (record_submission_stmt now h x until (dep w)) \<Longrightarrow> recorded net h x w'"
proof -
  let ?taken = "list_ex (\<lambda>r. tx_hash r \<noteq> h \<and> holds_hash x r) (forwards (dep w))"
  obtain r where r: "fwd_row (dep w) h = Some r" "forward_tx r = None"
    using assms(1) by (auto simp: free_to_send_def busy_def)
  have ok: "row_ok net r" and wf: "db_wf (dep w)"
    using assms(1) fwd_row_key [OF r(1)] by (auto simp: free_to_send_def busy_def base_def)
  have new: "row_ok net (submission_row now x until r) \<and> forward_tx (submission_row now x until r) = None"
    using ok r(2) assms(3) by (auto simp: row_ok_def submission_row_def)
  have "busy net h w'"
  proof (rule submission.busy_after [of net h w r w' "\<lambda>_. \<not> ?taken" now x until])
    fix y s
    assume "\<not> ?taken" "holds_hash y (submission_row now x until r)" "\<not> holds_hash y r"
      "s \<in> set (forwards (dep w))" "tx_hash s \<noteq> h"
    moreover from this have "y = x" by (auto simp: holds_hash_def submission_row_def)
    ultimately show "\<not> holds_hash y s" by (simp add: list_ex_iff) metis
  qed (use assms r new in \<open>auto simp: free_to_send_def record_submission_stmt_def case_prod_beta\<close>)
  then show free: "free_to_send net h w'" using assms by (simp add: free_to_send_def)
  assume "fst (record_submission_stmt now h x until (dep w))"
  then have "\<not> ?taken" using record_submission_result [OF wf] by blast
  then have "fwd_row (dep w') h = Some (submission_row now x until r)"
    using r unfolding assms(4) record_submission_row by simp
  then show "recorded net h x w'" using free by (simp add: recorded_def submission_row_def)
qed

lemma wp_record_submission:
  assumes "free_to_send net h w" "until = from_unix (max_time_of net x)"
  shows "wp (record_submission e h x until)
    (\<lambda>err w'. free_to_send net h w' \<and> (err = None \<longrightarrow> recorded net h x w')) w"
  unfolding record_submission_def wp_bind
proof (rule wp_dep_stmt)
  fix w' :: bridge_world
  let ?s = "record_submission_stmt (db_now e (tick w)) h x until (dep w)"
  assume w': "queued w' = queued w" "dep w' = snd ?s"
  note rec = record_free [OF assms(1) w'(1) assms(2) w'(2)]
  show "wp (ret (case Inr (fst ?s) of Inl err \<Rightarrow> Some (StoreErr (''record submission: '' @ err))
      | Inr False \<Rightarrow> Some ErrSubmissionClaimed | Inr True \<Rightarrow> None))
    (\<lambda>err w'. free_to_send net h w' \<and> (err = None \<longrightarrow> recorded net h x w')) w'"
    using rec by (cases "fst ?s") simp_all
next
  fix m and w' :: bridge_world
  assume "queued w' = queued w" "dep w' = dep w \<or>
    dep w' = snd (record_submission_stmt (db_now e (tick w)) h x until (dep w))"
  then show "wp (ret (case Inl m of Inl err \<Rightarrow> Some (StoreErr (''record submission: '' @ err))
      | Inr False \<Rightarrow> Some ErrSubmissionClaimed | Inr True \<Rightarrow> None))
    (\<lambda>err w'. free_to_send net h w' \<and> (err = None \<longrightarrow> recorded net h x w')) w'"
    using record_free(1) [OF assms(1) _ assms(2), of w'] cong_view(2) [of w' w] assms(1)
    by auto
qed

text \<open>Settling a transfer that landed.\<close>

lemma settle_inv:
  assumes "in_flight net h x w" "lands net x" "queued w' = queued w"
    and "dep w' = snd (mark_forward_done_stmt now h x (dep w)) \<or> dep w' = snd (mark_swept_stmt now h x (dep w))"
  shows "payment_inv net w'"
proof -
  obtain r where r: "fwd_row (dep w) h = Some r" "submitted_tx r = Some x" "forward_tx r = None"
    using assms(1) by (auto simp: in_flight_def busy_def)
  have b: "base net (dep w)" using assms(1) by (simp add: in_flight_def busy_def)
  have "base net (snd (mark_forward_done_stmt now h x (dep w)))"
    unfolding mark_forward_done_stmt_def snd_conv
    by (rule done_op.base_after [OF b r(1)])
      (use r assms(2) in \<open>auto simp: row_ok_def done_row_def holds_hash_def\<close>)
  moreover have "base net (snd (mark_swept_stmt now h x (dep w)))"
    unfolding mark_swept_stmt_def snd_conv
    by (rule swept_op.base_after [OF b r(1)])
      (use r assms(2) in \<open>auto simp: row_ok_def swept_row_def holds_hash_def\<close>)
  ultimately have "base net (dep w')" using assms(4) by auto
  moreover have "accounted net h' (dep w') (queued w')" for h'
  proof (cases "h' = h")
    case True
    have "\<exists>r'. fwd_row (dep w') h = Some r' \<and> holds_hash x r'"
      using assms(4) r(1)
      by (elim disjE) (simp_all add: unconditional_rows holds_hash_def done_row_def swept_row_def)
    then show ?thesis
      using assms(1,3) True unfolding accounted_def in_flight_def by metis
  next
    case False
    then have "fwd_row (dep w') h' = fwd_row (dep w) h'"
      using assms(4) by (elim disjE) (simp_all add: unconditional_rows)
    moreover have "accounted net h' (dep w) (queued w)"
      using assms(1) False by (simp add: in_flight_def busy_def)
    ultimately show ?thesis using assms(3) by (simp add: accounted_def)
  qed
  ultimately show ?thesis by (simp add: payment_inv_def)
qed

lemma wp_settle:
  assumes "in_flight net h x w" "lands net x"
  shows "wp (mark_forward_done e h x) (\<lambda>_. payment_inv net) w"
    and "wp (mark_swept e h x) (\<lambda>_. payment_inv net) w"
  unfolding mark_forward_done_def mark_swept_def
  by (rule wp_exec_keep, erule (1) view_same(3) [OF _ _ safe_inv [OF in_flight_safe [OF assms(1)]]],
      erule settle_inv [OF assms], blast)+

lemma intents_inv:
  assumes "payment_inv net w" "queued w' = queued w" "db_wf (dep w')" "forwards (dep w') = forwards (dep w)"
  shows "payment_inv net w'"
proof -
  have "fwd_row (dep w') h = fwd_row (dep w) h" for h
    by (simp add: fwd_row_def assms(4))
  moreover have "exclusive_hashes (dep w') = exclusive_hashes (dep w)"
    unfolding exclusive_hashes_def assms(4) ..
  ultimately show ?thesis
    using assms(1,2,3) unfolding payment_inv_def base_def accounted_def assms(4) by simp
qed

lemma wp_intents:
  assumes "payment_inv net w"
  shows "wp (complete_intent e m) (\<lambda>_. payment_inv net) w" "wp (fail_intent e m) (\<lambda>_. payment_inv net) w"
proof -
  have wf: "db_wf (dep w)" using assms by (simp add: payment_inv_def base_def)
  have fwds: "forwards (snd (complete_intent_stmt now m (dep w))) = forwards (dep w)"
    "forwards (snd (fail_intent_stmt now m (dep w))) = forwards (dep w)" for now
    by (simp_all add: complete_intent_stmt_def fail_intent_stmt_def Let_def case_prod_beta)
  show "wp (complete_intent e m) (\<lambda>_. payment_inv net) w" "wp (fail_intent e m) (\<lambda>_. payment_inv net) w"
    unfolding complete_intent_def fail_intent_def
    by (rule wp_exec_keep, erule (1) view_same(3) [OF _ _ assms],
        erule intents_inv [OF assms], simp add: intent_stmts_wf [OF wf], simp add: fwds)+
qed

section \<open>Rules for the submit pipeline\<close>

text \<open>Outcomes of a send, of a poll, and of a whole transfer.\<close>

definition send_post :: "network \<Rightarrow> string \<Rightarrow> submit_error + string \<Rightarrow> bridge_world \<Rightarrow> bool" where
  "send_post net h res w \<longleftrightarrow>
     (case res of
        Inr x \<Rightarrow> in_flight net h x w
      | Inl err \<Rightarrow> if is_unconfirmed err then safe_open net h w else free_to_send net h w)"

definition transfer_post :: "network \<Rightarrow> string \<Rightarrow> submit_error + string \<Rightarrow> bridge_world \<Rightarrow> bool" where
  "transfer_post net h res w \<longleftrightarrow>
     (case res of
        Inr x \<Rightarrow> in_flight net h x w \<and> lands net x
      | Inl err \<Rightarrow> if is_unconfirmed err then safe_open net h w else free_to_send net h w)"

lemma classes [simp]:
  "\<not> is_unconfirmed (permanent m)" "\<not> is_unconfirmed (transient m)" "\<not> is_unconfirmed (contention m)"
  "is_unconfirmed (unconfirmed m)" "is_permanent (permanent m)" "\<not> is_permanent (transient m)"
  "\<not> is_permanent (contention m)" "\<not> is_permanent (unconfirmed m)" "is_contention (contention m)"
  "\<not> is_contention (permanent m)" "\<not> is_contention (transient m)" "\<not> is_contention (unconfirmed m)"
  by (simp_all add: permanent_def transient_def contention_def unconfirmed_def)

lemma classify_not_unconfirmed [simp]: "\<not> is_unconfirmed (classify_result_xdr k x)"
  by (simp add: classify_result_xdr_def Let_def split: xdr_decode.split)

lemma fee_exhausted_unconfirmed [simp]: "is_unconfirmed (fee_exhausted err) = is_unconfirmed err"
  by (simp add: fee_exhausted_def split: submit_error.split)

lemma wp_rpc_send:
  assumes "recorded net h x w"
  shows "wp (rpc_send e h x b) (\<lambda>r w'. r = send_transaction e (tick w) b \<and>
    (if may_be_queued r then in_flight net h x w' else recorded net h x w')) w"
proof -
  let ?w = "w\<lparr>tick := Suc (tick w)\<rparr>"
  have rec: "recorded net h x ?w"
    using assms cong_view(2) [of ?w w] by (simp add: recorded_def)
  moreover have "in_flight net h x (?w\<lparr>queued := queued w @ [(h, x)]\<rparr>)"
    using assms by (auto simp: recorded_def free_to_send_def in_flight_def busy_def accounted_def unpaid_def)
  ultimately show ?thesis by (simp add: rpc_send_def)
qed

text \<open>The wire form and the hash belong to one signed transaction with deadline \<open>until\<close>.\<close>

definition sealed_ok :: "runtime \<Rightarrow> network \<Rightarrow> instant \<Rightarrow> string \<Rightarrow> string \<Rightarrow> bool" where
  "sealed_ok e net until b x \<longleftrightarrow> until = from_unix (max_time_of net x) \<and>
     (\<forall>n resp. send_transaction e n b = Inr resp \<longrightarrow>
        send_status resp = SendPENDING \<or> send_status resp = SendDUPLICATE \<longrightarrow> send_hash resp = x)"

lemma recorded_tick: "recorded net h x w \<Longrightarrow> recorded net h x (w\<lparr>tick := n\<rparr>)"
  using cong_view(2) [of "w\<lparr>tick := n\<rparr>" w] by (simp add: recorded_def)

lemma wp_forget_then:
  assumes "free_to_send net h w" "\<not> is_unconfirmed err"
  shows "wp (forget_submission e h) (\<lambda>_. send_post net h (Inl err)) w"
  by (rule wp_mono [OF wp_forget [OF assms(1)]]) (simp add: send_post_def assms(2))

lemma wp_send_loop:
  assumes "recorded net h x w" "sealed_ok e net until b x"
  shows "wp (send_loop e k h x b n) (send_post net h) w"
  using assms(1)
proof (induction n arbitrary: w)
  case 0
  then show ?case
    by (simp add: send_loop.simps recorded_def wp_forget_then)
next
  case (Suc n)
  show ?case
    unfolding send_loop.simps
  proof (rule wp_bindI [where R = "\<lambda>_. recorded net h x"], goal_cases)
    case 1
    then show ?case using Suc.prems recorded_tick by simp
  next
    case (2 cancelled v)
    show ?case
    proof (rule wp_ifI, goal_cases)
      case 1
      have "wp (forget_submission e h) (\<lambda>_. free_to_send net h) v"
        using 2 by (intro wp_forget) (simp add: recorded_def)
      then show ?case
        by (rule wp_bindI) (simp add: send_post_def cong_view(2) [of "_\<lparr>tick := _\<rparr>"])
    next
      case 2
      note rec = \<open>recorded net h x v\<close>
      show ?case
      proof (rule wp_bindI [OF wp_rpc_send [OF rec]], goal_cases)
        case (1 r u)
        show ?case
        proof (cases "may_be_queued r")
          case True
          then have "in_flight net h x u" using 1 by simp
          moreover from this have "safe_open net h u" by (rule in_flight_safe)
          ultimately show ?thesis
            using True 1 assms(2)
            by (auto simp: may_be_queued_def sealed_ok_def send_post_def split: sum.split send_status.split)
        next
          case False
          then have u: "recorded net h x u" using 1 by metis
          then have f: "free_to_send net h u" by (simp add: recorded_def)
          show ?thesis
            using False Suc.IH [OF u] wp_forget_then [OF f classify_not_unconfirmed]
            by (auto simp: may_be_queued_def split: sum.splits send_status.split)
        qed
      qed
    qed
  qed
qed

lemma wp_sign_and_send:
  assumes "free_to_send net h w" and "\<And>b x. seal env = Inr (b, x) \<Longrightarrow> sealed_ok e net until b x"
  shows "wp (sign_and_send e k h seal env until) (send_post net h) w"
proof (cases "seal env")
  case (Inl m)
  then show ?thesis using assms(1) by (simp add: sign_and_send_def send_post_def)
next
  case (Inr bx)
  obtain b x where bx: "bx = (b, x)" by (cases bx)
  note ok = assms(2) [OF Inr [unfolded bx]]
  have "until = from_unix (max_time_of net x)" using ok by (simp add: sealed_ok_def)
  note rec = wp_record_submission [OF assms(1) this]
  show ?thesis
    unfolding sign_and_send_def Inr bx
  proof (simp only: sum.case prod.case, rule wp_bindI [OF rec], goal_cases)
    case (1 err v)
    then show ?case
      using wp_send_loop [OF _ ok]
      by (cases err) (auto simp: send_post_def split: store_error.split)
  qed
qed

lemma wp_poll_result:
  assumes "honest_network e k cfg net" "in_flight net h x w"
  shows "wp (poll_result e k x) (\<lambda>r v. queued v = queued w \<and> dep v = dep w \<and>
    (case r of
       Inr y \<Rightarrow> y = x \<and> lands net x
     | Inl err \<Rightarrow> \<not> is_unconfirmed err \<longrightarrow> \<not> lands net x)) w"
proof -
  have "tx_status resp = TxSuccess \<Longrightarrow> lands net x" "tx_status resp = TxFailed \<Longrightarrow> \<not> lands net x"
    if "poll_transaction e n x = Inr resp" for n resp
    using assms(1) that by (auto simp: honest_network_def rpc_truthful_def)
  then show ?thesis
    by (auto simp: poll_result_def split: sum.split tx_status.split)
qed

lemma in_flight_dead: "in_flight net h x w \<Longrightarrow> \<not> lands net x \<Longrightarrow> free_to_send net h w"
  by (auto simp: in_flight_def free_to_send_def unpaid_def)

text \<open>Building keeps the tables, and every priced envelope keeps the deadline it was built with.\<close>

definition built_ok :: "instant \<Rightarrow> submit_error + prepared \<Rightarrow> bool" where
  "built_ok until r \<longleftrightarrow>
     (case r of
        Inl err \<Rightarrow> \<not> is_unconfirmed err
      | Inr pr \<Rightarrow> env_max_time (prep_env pr) = unix_seconds until \<and>
          (\<forall>env fee. env_max_time (set_fee pr env fee) = env_max_time env))"

definition prepare_ok :: "prepare_fn \<Rightarrow> bool" where
  "prepare_ok prepare \<longleftrightarrow>
     (\<forall>src seq until w. wp (prepare src seq until)
        (\<lambda>r v. queued v = queued w \<and> dep v = dep w \<and> built_ok until r) w)"

lemma prepare_contract_payment_ok: "prepare_ok (prepare_contract_payment e k cfg pool c_addr amt ass)"
  by (auto simp: prepare_ok_def built_ok_def prepare_contract_payment_def base_envelope_def Let_def
      split: sum.split option.split xdr_decode.split)

lemma prepare_sweep_ok: "prepare_ok (prepare_sweep k cfg h pool amt a)"
  by (auto simp: prepare_ok_def built_ok_def prepare_sweep_def base_envelope_def Let_def split: option.split)

lemma seals_ok:
  assumes net: "honest_network e k cfg net"
    and env: "env_max_time env = unix_seconds until" and whole: "from_unix (unix_seconds until) = until"
  shows "seal_as_pool k cfg kp env = Inr (b, x) \<Longrightarrow> sealed_ok e net until b x"
    and "seal_via_channel k cfg ck kp env = Inr (b, x) \<Longrightarrow> sealed_ok e net until b x"
proof -
  have parse: "env' = env" if "reparse k env = Inr env'" for env'
    using net that
    by (auto simp: honest_network_def tx_codec_ok_def reparse_def split: sum.splits option.splits)
  have echo: "send_hash resp = x" if "send_transaction e n b = Inr resp"
    "send_status resp = SendPENDING \<or> send_status resp = SendDUPLICATE"
    "(\<exists>stx. tx_base64 k stx = Inr b \<and> tx_hash_hex k (network_passphrase cfg) stx = Inr x) \<or>
     (\<exists>fb. fb_base64 k fb = Inr b \<and> fb_hash_hex k (network_passphrase cfg) fb = Inr x)" for n resp b x
    using net that unfolding honest_network_def send_echoes_def by blast
  {
    assume "seal_as_pool k cfg kp env = Inr (b, x)"
    then have st: "tx_base64 k \<lparr>stx_env = env, stx_signers = [kp_address kp]\<rparr> = Inr b"
      "tx_hash_hex k (network_passphrase cfg) \<lparr>stx_env = env, stx_signers = [kp_address kp]\<rparr> = Inr x"
      using parse by (auto simp: seal_as_pool_def sign_tx_def split: sum.splits option.splits)
    moreover have "max_time_of net x = env_max_time env"
      using net st(2) unfolding honest_network_def hash_binds_def by force
    ultimately show "sealed_ok e net until b x"
      using echo env whole unfolding sealed_ok_def by metis
  }
  {
    assume "seal_via_channel k cfg ck kp env = Inr (b, x)"
    then obtain outer where
      st: "at_inner_rate k (EnvTx \<lparr>stx_env = env, stx_signers = [kp_address ck, kp_address kp]\<rparr>)
          (kp_address kp) = Inr outer"
        "fb_base64 k (outer\<lparr>fb_signers := fb_signers outer @ [kp_address kp]\<rparr>) = Inr b"
        "fb_hash_hex k (network_passphrase cfg) (outer\<lparr>fb_signers := fb_signers outer @ [kp_address kp]\<rparr>) = Inr x"
      using parse
      by (auto simp: seal_via_channel_def sign_tx_def sign_fee_bump_def split: sum.splits option.splits)
    have "stx_env (fb_inner outer) = env"
      using at_inner_rate_Inr [OF _ st(1)] net by (simp add: honest_network_def)
    then have "max_time_of net x = env_max_time env"
      using net st(3) unfolding honest_network_def hash_binds_def by force
    then show "sealed_ok e net until b x"
      using echo env whole st unfolding sealed_ok_def by metis
  }
qed

text \<open>Sequencer and channel table are separate from the deposit tables.\<close>

lemma wp_modify_pool [simp]:
  "wp (modify_pool addr f) Q w = Q () (w\<lparr>seqs := (seqs w)(addr \<mapsto> f (for_pool addr (seqs w)))\<rparr>)"
  by (simp add: modify_pool_def)

definition same_view :: "bridge_world \<Rightarrow> bridge_world \<Rightarrow> bool" where
  "same_view w v \<longleftrightarrow> queued v = queued w \<and> dep v = dep w"

lemma same_view_keeps:
  "same_view w v \<Longrightarrow> free_to_send net h v = free_to_send net h w"
  "same_view w v \<Longrightarrow> safe_open net h v = safe_open net h w"
  "same_view w v \<Longrightarrow> in_flight net h x v = in_flight net h x w"
  "same_view w v \<Longrightarrow> payment_inv net v = payment_inv net w"
  using cong_view [of v w] by (simp_all add: same_view_def)

lemma wp_sequencer:
  shows "wp (seq_next e pool) (\<lambda>_. same_view w) w" "wp (abandon_send pool err) (\<lambda>_. same_view w) w"
    "wp (lock_send pool) (\<lambda>_. same_view w) w" "wp (unlock_send pool) (\<lambda>_. same_view w) w"
  by (simp_all add: seq_next_def seed_locked_def abandon_send_def lock_send_def unlock_send_def
      resync_def same_view_def split: sum.split)

lemma run_acquire_view:
  "dep (snd (run_state (acquire e inst ttl) w)) = dep w"
  "queued (snd (run_state (acquire e inst ttl) w)) = queued (w :: bridge_world)"
proof -
  have "wp (acquire e inst ttl) (\<lambda>_ v. dep v = dep w \<and> queued v = queued w) w"
    unfolding acquire_def
    by (simp split: sum.split) (intro allI impI wp_db_stmt; simp)
  then show "dep (snd (run_state (acquire e inst ttl) w)) = dep w"
    "queued (snd (run_state (acquire e inst ttl) w)) = queued w"
    by (simp_all add: wp_def case_prod_beta)
qed

lemma acquire_loop_view:
  "same_view w (snd (acquire_loop e inst ttl deadline earliest (w :: bridge_world)))"
proof (induction e inst ttl deadline earliest w rule: acquire_loop.induct)
  case (1 e inst ttl deadline earliest w)
  obtain r w1 where run: "run_state (acquire e inst ttl) w = (r, w1)" by fastforce
  have "dep w1 = dep w" "queued w1 = queued w"
    using run_acquire_view [of e inst ttl w] run by simp_all
  then show ?case
    using 1 [OF run [symmetric] refl refl _ refl refl]
    by (subst acquire_loop.simps) (simp add: same_view_def Let_def run)
qed

lemma wp_acquire_wait: "wp (acquire_wait e inst ttl wait) (\<lambda>_. same_view w) w"
proof -
  have "same_view w (snd (acquire_loop e inst ttl d a (w\<lparr>tick := n\<rparr>)))" for d a n
    using acquire_loop_view [of "w\<lparr>tick := n\<rparr>" e inst ttl d a] by (simp add: same_view_def)
  then show ?thesis by (simp add: acquire_wait_def) (simp add: wp_def case_prod_beta)
qed

lemma wp_release_channel: "wp (release_channel e l c rs) (\<lambda>_. same_view w) w"
  unfolding release_channel_def release_def wp_bind
  by (rule wp_db_stmt) (simp_all add: same_view_def)

text \<open>The tail every transfer shares: an accepted send is polled, a failed one is forgotten.\<close>

lemma poll_outcome:
  assumes "in_flight net h x w" "queued v = queued w \<and> dep v = dep w \<and>
    (case r of Inr y \<Rightarrow> y = x \<and> lands net x | Inl err \<Rightarrow> \<not> is_unconfirmed err \<longrightarrow> \<not> lands net x)"
  shows "transfer_post net h r v"
proof -
  have "in_flight net h x v" using assms cong_view(4) [of v w] by simp
  then show ?thesis
    using assms(2) in_flight_dead in_flight_safe by (auto simp: transfer_post_def split: sum.splits)
qed

lemma transfer_post_forget:
  assumes "transfer_post net h (Inl err) w" "\<not> is_unconfirmed err"
  shows "wp (forget_submission e h) (\<lambda>_. transfer_post net h (Inl err)) w"
  by (rule wp_mono [OF wp_forget]) (use assms in \<open>simp_all add: transfer_post_def\<close>)

lemma transfer_post_view: "same_view w v \<Longrightarrow> transfer_post net h r v = transfer_post net h r w"
  by (auto simp: transfer_post_def same_view_keeps split: sum.splits)

lemma send_post_failed:
  assumes "send_post net h (Inl err) w" "same_view w v"
  shows "transfer_post net h (Inl (fee_exhausted err)) v"
  using assms same_view_keeps [OF assms(2)] by (simp add: send_post_def transfer_post_def split: if_splits)

lemma wp_fee_loop:
  assumes net: "honest_network e k cfg net" and whole: "from_unix (unix_seconds until) = until"
    and price: "\<And>env fee. env_max_time (price env fee) = env_max_time env"
    and "free_to_send net h w" "env_max_time env = unix_seconds until"
  shows "wp (fee_loop e k cfg h pool kp until price n env fee) (transfer_post net h) w"
  using assms(4,5)
proof (induction n arbitrary: w env fee)
  case 0
  show ?case
    unfolding fee_loop.simps Let_def
    by (rule wp_bindI [OF wp_sequencer(2)])
      (use 0 same_view_keeps in \<open>simp add: transfer_post_def\<close>)
next
  case (Suc n)
  let ?env = "price env fee"
  have env: "env_max_time ?env = unix_seconds until" using Suc.prems price by simp
  have send: "wp (sign_and_send e k h (seal_as_pool k cfg kp) ?env until) (send_post net h) w"
    by (rule wp_sign_and_send [OF Suc.prems(1)]) (rule seals_ok(1) [OF net env whole])
  show ?case
    unfolding fee_loop.simps Let_def
  proof (rule wp_bindI [OF send], rule wp_sumI, goal_cases)
    case (1 r v err)
    have free: "free_to_send net h v" if "is_fee_error err"
      using 1 that by (cases err) (simp_all add: send_post_def is_fee_error_def)
    show ?case
      by (rule wp_ifI, rule Suc.IH, use free env in blast, rule env, rule wp_bindI [OF wp_sequencer(2)])
        (use 1 send_post_failed in simp)
  next
    case (2 r v x)
    then have "in_flight net h x v" by (simp add: send_post_def)
    show ?case
    proof (rule wp_bindI [OF wp_sequencer(4)], goal_cases)
      case (1 _ u)
      then have u: "in_flight net h x u" using \<open>in_flight net h x v\<close> same_view_keeps(3) by blast
      show ?case
      proof (rule wp_bindI [OF wp_poll_result [OF net u]], goal_cases)
        case (1 p t)
        then have "transfer_post net h p t" by (rule poll_outcome [OF u])
        then show ?case
          using transfer_post_forget [of net h _ t e] by (cases p) auto
      qed
    qed
  qed
qed

lemma whole_second: "from_unix (unix_seconds (truncate_second t)) = truncate_second t"
  by (simp add: truncate_second_from_unix from_unix_def unix_seconds_def)

lemma wp_prepare:
  assumes "prepare_ok prepare" "free_to_send net h w"
  shows "wp (prepare src seq until) (\<lambda>r v. free_to_send net h v \<and> built_ok until r) w"
proof (rule wp_mono, rule assms(1) [unfolded prepare_ok_def, rule_format, of src seq until w])
  fix r and v :: bridge_world
  assume v: "queued v = queued w \<and> dep v = dep w \<and> built_ok until r"
  then show "free_to_send net h v \<and> built_ok until r"
    using view_same(1) [OF _ _ assms(2), of v] by blast
qed

lemma wp_transfer_as_pool:
  assumes net: "honest_network e k cfg net" and prep: "prepare_ok prepare" and "free_to_send net h w"
  shows "wp (transfer_as_pool e k cfg h pool kp prepare) (transfer_post net h) w"
  unfolding transfer_as_pool_def
proof (rule wp_bindI [OF wp_sequencer(3)], rule wp_bindI [OF wp_sequencer(1)], rule wp_sumI, goal_cases)
  case (1 _ v s u m)
  then show ?case
    using assms(3) by (intro wp_bindI [OF wp_sequencer(4)]) (simp add: transfer_post_def same_view_keeps)
next
  case (2 _ v s u seq)
  then have u: "free_to_send net h (u\<lparr>tick := Suc (tick u)\<rparr>)"
    using assms(3) same_view_keeps(1) cong_view(2) [of "u\<lparr>tick := Suc (tick u)\<rparr>" u] by simp
  let ?until = "truncate_second (clock e (tick u) + tx_validity)"
  show ?case
    unfolding Let_def wp_bind wp_ask
  proof (rule wp_mono [OF wp_prepare [OF prep u]], rule wp_sumI, goal_cases)
    case (1 p t err)
    then show ?case
      by (intro wp_bindI [OF wp_sequencer(2)]) (simp add: transfer_post_def built_ok_def same_view_keeps)
  next
    case (2 p t pr)
    then show ?case
      by (intro wp_fee_loop [OF net whole_second]) (simp_all add: built_ok_def)
  qed
qed

lemma wp_release_post:
  assumes "transfer_post net h r w"
  shows "wp (release_channel e l c rs) (\<lambda>_. transfer_post net h r) w"
  by (rule wp_mono [OF wp_release_channel]) (use assms transfer_post_view in blast)

lemma wp_channel_fee_loop:
  assumes net: "honest_network e k cfg net" and whole: "from_unix (unix_seconds until) = until"
    and price: "\<And>env fee. env_max_time (price env fee) = env_max_time env"
    and "free_to_send net h w" "env_max_time env = unix_seconds until"
  shows "wp (channel_fee_loop e k h l last_seq seq (seal_via_channel k cfg ck kp) until price n env fee)
    (transfer_post net h) w"
  using assms(4,5)
proof (induction n arbitrary: w env fee)
  case 0
  show ?case
    unfolding channel_fee_loop.simps
    by (rule wp_bindI [OF wp_release_channel])
      (use 0 same_view_keeps in \<open>simp add: transfer_post_def\<close>)
next
  case (Suc n)
  let ?env = "price env fee"
  have env: "env_max_time ?env = unix_seconds until" using Suc.prems price by simp
  have send: "wp (sign_and_send e k h (seal_via_channel k cfg ck kp) ?env until) (send_post net h) w"
    by (rule wp_sign_and_send [OF Suc.prems(1)]) (rule seals_ok(2) [OF net env whole])
  show ?case
    unfolding channel_fee_loop.simps Let_def
  proof (rule wp_bindI [OF send], rule wp_sumI, goal_cases)
    case (1 r v err)
    have free: "free_to_send net h v" if "is_fee_error err"
      using 1 that by (cases err) (simp_all add: send_post_def is_fee_error_def)
    have post: "transfer_post net h (Inl (fee_exhausted err)) v"
      using 1 by (intro send_post_failed [of _ _ _ v]) (simp_all add: same_view_def)
    show ?case
      by (rule wp_ifI, rule Suc.IH, use free env in blast, rule env)
        (simp add: wp_release_post [OF post])
  next
    case (2 r v x)
    then have v: "in_flight net h x v" by (simp add: send_post_def)
    show ?case
    proof (rule wp_bindI [OF wp_poll_result [OF net v]], goal_cases)
      case (1 p t)
      then have post: "transfer_post net h p t" by (rule poll_outcome [OF v])
      show ?case
      proof (cases p)
        case (Inl err)
        have "wp (release_channel e l (Some seq) False) (\<lambda>_. wp (forget_submission e h)
            (\<lambda>_. transfer_post net h (Inl err))) t" if "\<not> is_unconfirmed err"
          by (rule wp_mono [OF wp_release_post [OF post]])
            (use that Inl transfer_post_forget in blast)
        then show ?thesis using Inl post wp_release_post [OF post] by simp
      next
        case (Inr y)
        then show ?thesis using wp_release_post [OF post] by simp
      qed
    qed
  qed
qed

lemma wp_load_channel_seq:
  "wp (load_channel_seq e l) (\<lambda>r v. same_view w v \<and> (\<forall>err. r = Inl err \<longrightarrow> \<not> is_unconfirmed err)) w"
  by (auto simp: load_channel_seq_def same_view_def split: sum.split)

lemma wp_transfer_via_channel:
  assumes net: "honest_network e k cfg net" and prep: "prepare_ok prepare" and free: "free_to_send net h w"
  shows "wp (transfer_via_channel e k cfg keys h kp prepare) (transfer_post net h) w"
  unfolding transfer_via_channel_def
proof (rule wp_bindI [OF wp_acquire_wait], rule wp_sumI, goal_cases)
  case (1 a v err)
  then show ?case
    using free by (cases err) (simp_all add: transfer_post_def same_view_keeps)
next
  case (2 a v l)
  then have v: "free_to_send net h v" using free same_view_keeps(1) by blast
  have give_up: "wp (release_channel e l c rs) (\<lambda>_. transfer_post net h (Inl err)) u"
    if "free_to_send net h u" "\<not> is_unconfirmed err" for u c rs err
    using that by (intro wp_release_post) (simp add: transfer_post_def)
  show ?case
  proof (rule wp_optionI, goal_cases)
    case 1
    then show ?case using give_up [OF v] by simp
  next
    case (2 ck)
    show ?case
    proof (rule wp_bindI [OF wp_load_channel_seq], rule wp_sumI, goal_cases)
      case (1 s u err)
      then have "free_to_send net h u" using v same_view_keeps(1) by blast
      then show ?case using 1 give_up [of u err] by simp
    next
      case (2 s u last_seq)
      then have u: "free_to_send net h (u\<lparr>tick := Suc (tick u)\<rparr>)"
        using v same_view_keeps(1) cong_view(2) [of "u\<lparr>tick := Suc (tick u)\<rparr>" u] by simp
      show ?case
        unfolding Let_def wp_bind wp_ask
      proof (rule wp_mono [OF wp_prepare [OF prep u]], rule wp_sumI, goal_cases)
        case (1 p t err)
        then show ?case using give_up [of t err] by (simp add: built_ok_def)
      next
        case (2 p t pr)
        then show ?case
          by (intro wp_channel_fee_loop [OF net whole_second]) (simp_all add: built_ok_def)
      qed
    qed
  qed
qed

lemma wp_transfer:
  assumes "honest_network e k cfg net" "prepare_ok prepare" "free_to_send net h w"
  shows "wp (transfer e k cfg h pool prepare) (transfer_post net h) w"
  unfolding transfer_def
  by (intro wp_sumI wp_optionI)
    (use assms wp_transfer_via_channel wp_transfer_as_pool in \<open>auto simp: transfer_post_def\<close>)

lemma wp_submit:
  assumes "honest_network e k cfg net" "free_to_send net h w"
  shows "wp (submit e k cfg h c_addr pool amt ass) (transfer_post net h) w"
  unfolding submit_def by (rule wp_transfer [OF assms(1) prepare_contract_payment_ok assms(2)])

section \<open>Rules for the deposit life cycle\<close>

lemma wp_check_trustline:
  "wp (check_trustline e acct code issuer) (\<lambda>r v. same_view w v \<and> (\<forall>err. r = Some err \<longrightarrow> \<not> is_unconfirmed err)) w"
  by (auto simp: check_trustline_def same_view_def split: sum.split)

lemma wp_sweep_tx:
  assumes "honest_network e k cfg net" "free_to_send net h w"
  shows "wp (sweep_tx e k cfg h pool amt ass) (transfer_post net h) w"
  unfolding sweep_tx_def
proof (intro wp_ifI wp_sumI, goal_cases)
  case 1
  then show ?case using assms(2) by (simp add: transfer_post_def)
next
  case (2 m)
  then show ?case using assms(2) by (simp add: transfer_post_def)
next
  case (3 a)
  have "wp (case a of NativeAsset \<Rightarrow> ret None
      | CreditAsset code issuer \<Rightarrow> check_trustline e (recovery_address cfg) code issuer)
    (\<lambda>r v. same_view w v \<and> (\<forall>err. r = Some err \<longrightarrow> \<not> is_unconfirmed err)) w"
    using wp_check_trustline by (cases a) (simp_all add: same_view_def)
  then show ?case
  proof (rule wp_bindI, intro wp_optionI, goal_cases)
    case (1 r v)
    then show ?case
      using wp_transfer [OF assms(1) prepare_sweep_ok] assms(2) same_view_keeps(1) by blast
  next
    case (2 r v err)
    then have "free_to_send net h v" using assms(2) same_view_keeps(1) by blast
    then show ?case using 2 by (simp add: transfer_post_def)
  qed
qed

lemma wp_then_inv:
  assumes "wp m (\<lambda>_. safe_open net h) w"
  shows "wp m (\<lambda>_. payment_inv net) w"
  by (rule wp_mono [OF assms]) (rule safe_inv)

lemma transfer_failed_safe: "transfer_post net h (Inl err) w \<Longrightarrow> safe_open net h w"
  by (auto simp: transfer_post_def free_safe split: if_splits)

lemma wp_sweep_deposit:
  assumes "honest_network e k cfg net" "free_to_send net h w"
  shows "wp (sweep_deposit e k cfg h pool amt ass) (\<lambda>_. payment_inv net) w"
  unfolding sweep_deposit_def
proof (rule wp_bindI [OF wp_sweep_tx [OF assms]], goal_cases)
  case (1 r v)
  show ?case
  proof (cases r)
    case (Inl err)
    then have "safe_open net h v" using 1 transfer_failed_safe by simp
    note quiet = wp_quiet_safe [OF this, THEN wp_then_inv]
    show ?thesis by (simp add: Inl quiet)
  next
    case (Inr x)
    then show ?thesis using 1 wp_settle(2) by (simp add: transfer_post_def)
  qed
qed

lemma wp_start_sweep:
  assumes "honest_network e k cfg net" "free_to_send net h w"
  shows "wp (start_sweep e k cfg h pool amt ass reason) (\<lambda>_. payment_inv net) w"
  unfolding start_sweep_def
proof (rule wp_bindI [OF wp_mark_sweep [OF assms(2)]], rule wp_optionI, goal_cases)
  case (1 r v)
  then show ?case using wp_sweep_deposit [OF assms(1)] by simp
next
  case (2 r v m)
  then show ?case using wp_quiet_safe(3) [OF free_safe, THEN wp_then_inv] by simp
qed

lemma wp_complete:
  assumes "transfer_post net h (Inr x) w"
  shows "wp (mark_forward_done e h x) (\<lambda>_. wp (complete_intent e m) (\<lambda>_. payment_inv net)) w"
proof -
  have "in_flight net h x w" "lands net x" using assms by (simp_all add: transfer_post_def)
  from wp_settle(1) [OF this] show ?thesis by (rule wp_mono) (rule wp_intents(1))
qed

lemma wp_forward_attempts:
  assumes net: "honest_network e k cfg net" and "free_to_send net h w"
  shows "wp (forward_attempts e k cfg h m c_addr pool amt ass n last_err) (\<lambda>_. payment_inv net) w"
  using assms(2)
proof (induction n arbitrary: w last_err)
  case 0
  note quiet = wp_quiet_safe [OF free_safe [OF 0], THEN wp_then_inv]
  show ?case
    by (cases last_err) (simp_all add: forward_attempts.simps requeue_last_error_def quiet
        safe_inv [OF free_safe [OF 0]])
next
  case (Suc n)
  have "wp (if last_err = None then ret False else ask (ctx_done e)) (\<lambda>_. free_to_send net h) w"
    using Suc.prems cong_view(2) [of "w\<lparr>tick := Suc (tick w)\<rparr>" w] by simp
  then show ?case
    unfolding forward_attempts.simps
  proof (rule wp_bindI, intro wp_ifI, goal_cases)
    case (1 c v)
    then show ?case using safe_inv [OF free_safe] by simp
  next
    case (2 c v)
    show ?case
    proof (rule wp_bindI [OF wp_submit [OF net 2(1)]], rule wp_sumI, goal_cases)
      case (1 r u err)
      then have "safe_open net h u" using transfer_failed_safe by simp
      note quiet = wp_quiet_safe [OF this, THEN wp_then_inv]
      show ?case using 1 Suc.IH [of u "Some err"] quiet by (simp add: transfer_post_def)
    next
      case (2 r u x)
      then show ?case using wp_complete by simp
    qed
  qed
qed

lemma wp_get_intent: "wp (get_intent e m) (\<lambda>_. same_view w) w"
  unfolding get_intent_def wp_bind wp_return by (rule wp_dep_query) (simp add: same_view_def)

lemma open_row_busy:
  assumes "payment_inv net w" "fwd_row (dep w) h = Some r"
    "status r = StatusPending \<or> status r = StatusPendingRetry"
  shows "safe_open net h w"
proof -
  have "row_ok net r"
    using assms(1) fwd_row_key [OF assms(2)] by (auto simp: payment_inv_def base_def)
  then have "forward_tx r = None" using assms(3) by (auto simp: row_ok_def)
  then show ?thesis using assms by (auto simp: safe_open_def busy_def payment_inv_def)
qed

lemma safe_unsent:
  assumes "safe_open net h w" "fwd_row (dep w) h = Some r" "submitted_tx r = None"
  shows "free_to_send net h w"
  using assms by (auto simp: safe_open_def free_to_send_def busy_def accounted_def unpaid_def holds_hash_def)

lemma safe_sent:
  assumes "safe_open net h w" "fwd_row (dep w) h = Some r" "submitted_tx r = Some x"
  shows "in_flight net h x w"
  using assms by (auto simp: safe_open_def in_flight_def busy_def accounted_def holds_hash_def)

text \<open>A claim only touches the row, so it keeps what is known of it.\<close>

lemma claim_stmts_view:
  "snd (claim_new_forward_stmt now h db) =
    snd (update_forward h (\<lambda>r. status r = StatusPending \<and> updated_at r = created_at r) (touch_row now) db)"
  "snd (claim_pending_forward_stmt now h seen db) =
    snd (update_forward h (\<lambda>r. status r = StatusPending \<and> updated_at r = seen) (touch_row now) db)"
  by (simp_all add: claim_new_forward_stmt_def claim_pending_forward_stmt_def case_prod_beta)

lemma touch_inv:
  assumes inv: "payment_inv net w"
    and v: "queued v = queued w" "dep v = snd (update_forward h c (touch_row now) (dep w))"
    and pending: "\<And>r. c r \<Longrightarrow> status r = StatusPending"
  shows "payment_inv net v"
proof (cases "\<exists>r. fwd_row (dep w) h = Some r \<and> c r")
  case True
  then have "safe_open net h w" using open_row_busy [OF inv] pending by blast
  then show ?thesis using touch_quiet.safe_kept [OF _ v] safe_inv by blast
next
  case False
  have "fwd_row (dep v) h' = fwd_row (dep w) h'" for h'
    using False by (cases "fwd_row (dep w) h") (auto simp: v(2) touch.row_after)
  moreover have "forwards (dep v) = forwards (dep w)"
  proof -
    have "\<not> (tx_hash t = h \<and> c t)" if "t \<in> set (forwards (dep w))" for t
      using False fwd_row_mem [OF _ that] inv
      by (auto simp: payment_inv_def base_def db_wf_def)
    then show ?thesis
      unfolding v(2) touch.forwards_after update_where_def snd_conv by (intro map_idI) auto
  qed
  moreover have "db_wf (dep v)"
    using inv by (simp add: v(2) touch.wf_after payment_inv_def base_def)
  ultimately show ?thesis using intents_inv [OF inv v(1)] by blast
qed

lemma wp_claim_new:
  assumes inv: "payment_inv net w"
    and fresh: "\<And>r. fwd_row (dep w) h = Some r \<Longrightarrow> updated_at r = created_at r \<Longrightarrow> unpaid net h (queued w)"
  shows "wp (claim_new_forward e h) (\<lambda>c v. payment_inv net v \<and> (c = Inr True \<longrightarrow> free_to_send net h v)) w"
  unfolding claim_new_forward_def wp_bind wp_return
proof (rule wp_dep_stmt, goal_cases)
  case (1 v)
  let ?s = "claim_new_forward_stmt (db_now e (tick w)) h (dep w)"
  have view: "dep v = snd (update_forward h (\<lambda>r. status r = StatusPending \<and> updated_at r = created_at r)
      (touch_row (db_now e (tick w))) (dep w))"
    using 1 by (simp add: claim_stmts_view)
  have "free_to_send net h v" if claimed: "fst ?s"
  proof -
    obtain r where r: "fwd_row (dep w) h = Some r" "status r = StatusPending" "updated_at r = created_at r"
      using claim_new_result [of "dep w" "db_now e (tick w)" h] inv claimed
      by (auto simp: payment_inv_def base_def)
    have "safe_open net h w" "unpaid net h (queued w)"
      using open_row_busy [OF inv r(1)] fresh [OF r(1,3)] r(2) by simp_all
    then have "free_to_send net h w" by (simp add: free_to_send_def safe_open_def)
    then show ?thesis using touch_quiet.free_kept [OF _ 1(1) view] by blast
  qed
  moreover have "payment_inv net v" using touch_inv [OF inv 1(1) view] by blast
  ultimately show ?case by (simp add: wrap_err_def)
next
  case (2 m v)
  have "payment_inv net v"
    using 2(5)
  proof
    assume "dep v = dep w"
    then show ?thesis using view_same(3) [OF _ 2(1) inv] by blast
  next
    assume "dep v = snd (claim_new_forward_stmt (db_now e (tick w)) h (dep w))"
    then show ?thesis using touch_inv [OF inv 2(1), of h] by (simp add: claim_stmts_view)
  qed
  then show ?case by (simp add: wrap_err_def)
qed

text \<open>The watcher worker's run keeps the invariant.\<close>

lemma wp_forward_claimed:
  assumes net: "honest_network e k cfg net" and free: "free_to_send net (job_tx_hash job) w"
  shows "wp (forward_claimed e k cfg pool job landed) (\<lambda>_. payment_inv net) w"
  unfolding forward_claimed_def Let_def
proof (rule wp_ifI [OF wp_start_sweep [OF net free]], rule wp_bindI [OF wp_get_intent], goal_cases)
  case (1 i u)
  then have u: "free_to_send net (job_tx_hash job) u" using free same_view_keeps(1) by blast
  show ?case
    using wp_start_sweep [OF net u] wp_forward_attempts [OF net u]
      wp_quiet_safe(3) [OF free_safe [OF u], THEN wp_then_inv]
    by (cases i) (simp_all split: store_error.split)
qed

lemma wp_forward_recorded:
  assumes net: "honest_network e k cfg net" and inv: "payment_inv net w"
    and fresh: "\<And>r. fwd_row (dep w) (job_tx_hash job) = Some r \<Longrightarrow> updated_at r = created_at r \<Longrightarrow>
      unpaid net (job_tx_hash job) (queued w)"
  shows "wp (forward_recorded e k cfg pool job) (\<lambda>_. payment_inv net) w"
proof -
  let ?w = "w\<lparr>tick := Suc (tick w)\<rparr>"
  have "payment_inv net ?w" using inv cong_view(5) [of ?w w] by simp
  note claim = wp_claim_new [OF this, of "job_tx_hash job" e]
  show ?thesis
    unfolding forward_recorded_def wp_bind wp_ask
    by (rule wp_mono [OF claim]) (use fresh wp_forward_claimed [OF net] in auto)
qed

lemma seconds_less: "from_unix a < from_unix b \<longleftrightarrow> a < b" "from_unix a \<le> from_unix b \<longleftrightarrow> a \<le> b"
  by (simp_all add: from_unix_def second_def millisecond_def)

text \<open>
  The one case in which a recorded transfer is given up without an answer: its time is over, and
  RPC's history covers every ledger it could have landed in.
\<close>

lemma expired_never_lands:
  assumes net: "honest_network e k cfg net" and got: "get_transaction e n x = Inr resp"
    and st: "tx_status resp \<noteq> TxSuccess" "tx_status resp \<noteq> TxFailed"
    and past: "if latest_ledger_close_time resp \<noteq> 0
      then from_unix (max_time_of net x) < from_unix (latest_ledger_close_time resp)
      else from_unix (max_time_of net x) + landing_grace < clock e (Suc n)"
    and hist: "\<not> outside_history resp (from_unix (max_time_of net x))"
  shows "\<not> lands net x"
proof
  assume "lands net x"
  then obtain c where c: "landed_in net x = Some c" by (auto simp: lands_def)
  then have b: "0 \<le> c" "max_time_of net x - 120 \<le> c" "c \<le> max_time_of net x"
    using net by (auto simp: honest_network_def bounds_respected_def)
  have "from_unix (max_time_of net x) - tx_validity = from_unix (max_time_of net x - 120)"
    by (simp add: from_unix_def tx_validity_def minute_def algebra_simps)
  then have "oldest_ledger_close_time resp \<le> c"
    using hist b by (auto simp: outside_history_def seconds_less not_less)
  then have "if latest_ledger_close_time resp \<noteq> 0 then latest_ledger_close_time resp < c
      else clock e (Suc n) \<le> from_unix c + landing_grace"
    using net got st c unfolding honest_network_def rpc_complete_def by blast
  moreover have "from_unix c \<le> from_unix (max_time_of net x)" using b by (simp add: seconds_less)
  moreover have "max_time_of net x < latest_ledger_close_time resp" if "latest_ledger_close_time resp \<noteq> 0"
    using past that by (simp add: seconds_less)
  ultimately show False using past b by (cases "latest_ledger_close_time resp = 0") auto
qed

lemma wp_past_max_time:
  "wp (past_max_time e resp until) (\<lambda>past v. same_view w v \<and>
     (past \<longleftrightarrow> (if latest_ledger_close_time resp \<noteq> 0 then until < from_unix (latest_ledger_close_time resp)
                else until + landing_grace < clock e (tick w)))) w"
  by (simp add: past_max_time_def same_view_def)

lemma wp_settle_permanent:
  assumes "safe_open net h w"
  shows "wp (permanently_fail e h msg) (\<lambda>_. wp (fail_intent e m) (\<lambda>_. payment_inv net)) w"
  by (rule wp_mono [OF wp_quiet_safe(2) [OF assms, THEN wp_then_inv]]) (rule wp_intents(2))

definition resolve_post :: "network \<Rightarrow> string \<Rightarrow> bool \<Rightarrow> bridge_world \<Rightarrow> bool" where
  "resolve_post net h settled w \<longleftrightarrow> (if settled then payment_inv net w else free_to_send net h w)"

lemma resolve_post_True [simp]: "resolve_post net h True = payment_inv net"
  by (rule ext) (simp add: resolve_post_def)

lemma wp_forget_resolved:
  assumes "free_to_send net h w"
  shows "wp (forget_submission e h) (\<lambda>forgot. resolve_post net h (\<not> forgot)) w"
  by (rule wp_mono [OF wp_forget [OF assms]]) (simp add: resolve_post_def safe_inv [OF free_safe])

lemma wp_resolve_unseen:
  assumes net: "honest_network e k cfg net" and fl: "in_flight net (tx_hash fwd) x w" and n: "tick w = Suc n"
    and until: "submitted_until fwd = Some (from_unix (max_time_of net x))"
    and got: "get_transaction e n x = Inr resp"
    and st: "tx_status resp \<noteq> TxSuccess" "tx_status resp \<noteq> TxFailed"
  shows "wp (resolve_unseen e fwd x resp) (resolve_post net (tx_hash fwd)) w"
  unfolding resolve_unseen_def Let_def until option.case
proof (rule wp_bindI [OF wp_past_max_time], goal_cases)
  case (1 past v)
  then have v: "in_flight net (tx_hash fwd) x v" using fl same_view_keeps(3) by blast
  note quiet = wp_quiet_safe [OF in_flight_safe [OF v], THEN wp_then_inv]
  have "free_to_send net (tx_hash fwd) v"
    if p: "past" "\<not> outside_history resp (from_unix (max_time_of net x))"
  proof -
    have "if latest_ledger_close_time resp \<noteq> 0
        then from_unix (max_time_of net x) < from_unix (latest_ledger_close_time resp)
        else from_unix (max_time_of net x) + landing_grace < clock e (Suc n)"
      using 1 p(1) n by metis
    from expired_never_lands [OF net got st this p(2)] show ?thesis by (rule in_flight_dead [OF v])
  qed
  then show ?case using quiet wp_forget_resolved by simp
qed

lemma wp_resolve_submitted:
  assumes net: "honest_network e k cfg net" and fl: "in_flight net (tx_hash fwd) x w"
    and until: "submitted_until fwd = Some (from_unix (max_time_of net x))"
  shows "wp (resolve_submitted e k fwd x) (resolve_post net (tx_hash fwd)) w"
proof -
  let ?h = "tx_hash fwd"
  let ?w = "w\<lparr>tick := Suc (tick w)\<rparr>"
  have fl': "in_flight net ?h x ?w" using fl cong_view(4) [of ?w w] by simp
  note quiet = wp_quiet_safe [OF in_flight_safe [OF fl'], THEN wp_then_inv]
  show ?thesis
  proof (cases "get_transaction e (tick w) x")
    case (Inl m)
    then show ?thesis using quiet(1) by (simp add: resolve_submitted_def)
  next
    case (Inr resp)
    have truth: "tx_status resp = TxSuccess \<Longrightarrow> lands net x" "tx_status resp = TxFailed \<Longrightarrow> \<not> lands net x"
      using net Inr by (auto simp: honest_network_def rpc_truthful_def)
    have other: "wp (resolve_unseen e fwd x resp) (resolve_post net ?h) ?w"
      if "tx_status resp \<noteq> TxSuccess" "tx_status resp \<noteq> TxFailed"
      using wp_resolve_unseen [OF net fl' _ until Inr that] by simp
    show ?thesis
    proof (cases "tx_status resp")
      case TxSuccess
      then show ?thesis
        using wp_settle(2) [OF fl' truth(1)] wp_complete [of net ?h x ?w] fl' truth(1)
        by (simp add: resolve_submitted_def Inr complete_retried_def transfer_post_def)
    next
      case TxFailed
      then have "free_to_send net ?h ?w" using in_flight_dead [OF fl'] truth(2) by blast
      then show ?thesis
        using TxFailed quiet(2) wp_settle_permanent [OF in_flight_safe [OF fl']] wp_forget_resolved
        by (simp add: resolve_submitted_def Inr Let_def)
    next
      case TxNotFound
      then show ?thesis using other by (simp add: resolve_submitted_def Inr)
    next
      case (TxOtherStatus s)
      then show ?thesis using other by (simp add: resolve_submitted_def Inr)
    qed
  qed
qed

lemma wp_retry_forward:
  assumes net: "honest_network e k cfg net" and free: "free_to_send net (tx_hash fwd) w"
  shows "wp (retry_forward e k cfg fwd intent) (\<lambda>_. payment_inv net) w"
  unfolding retry_forward_def Let_def
proof (rule wp_bindI [OF wp_submit [OF net free]], rule wp_sumI, goal_cases)
  case (1 r v err)
  then have v: "safe_open net (tx_hash fwd) v" using transfer_failed_safe by simp
  note quiet = wp_quiet_safe [OF v, THEN wp_then_inv]
  show ?case using quiet wp_settle_permanent [OF v] by simp
next
  case (2 r v x)
  then show ?case using wp_complete by (simp add: complete_retried_def)
qed

lemma wp_retry_unsent:
  assumes net: "honest_network e k cfg net" and free: "free_to_send net (tx_hash fwd) w"
  shows "wp (retry_unsent e k cfg fwd) (\<lambda>_. payment_inv net) w"
proof -
  note safe = free_safe [OF free]
  note quiet = wp_quiet_safe [OF safe, THEN wp_then_inv]
  note sweeps = wp_start_sweep [OF net free] wp_sweep_deposit [OF net free]
  show ?thesis
    unfolding retry_unsent_def Let_def
  proof (intro wp_ifI, goal_cases)
    case 6
    show ?case
    proof (rule wp_bindI [OF wp_get_intent], goal_cases)
      case (1 i v)
      then have v: "free_to_send net (tx_hash fwd) v" using free same_view_keeps(1) by blast
      note quiet' = wp_quiet_safe [OF free_safe [OF v], THEN wp_then_inv]
      show ?case
        using wp_start_sweep [OF net v] wp_retry_forward [OF net v] quiet'
        by (cases i) (simp_all split: store_error.split)
    qed
  qed (simp_all add: quiet wp_settle_permanent [OF safe] sweeps)
qed

text \<open>
  What the retry worker knows of a row it read: it is unchanged, unless it was read as
  \<open>pending\<close> and has been written since.
\<close>

definition snapshot_ok :: "bridge_world \<Rightarrow> forward \<Rightarrow> bool" where
  "snapshot_ok w fwd \<longleftrightarrow> (status fwd = StatusPending \<or> status fwd = StatusPendingRetry) \<and>
     (\<exists>r. fwd_row (dep w) (tx_hash fwd) = Some r \<and>
        (r = fwd \<or> status fwd = StatusPending \<and> updated_at fwd < updated_at r))"

lemma wp_claim_pending:
  assumes inv: "payment_inv net w" and snap: "snapshot_ok w fwd" and st: "status fwd = StatusPending"
  shows "wp (claim_pending_forward e (tx_hash fwd) (updated_at fwd)) (\<lambda>c v. payment_inv net v \<and>
    (c = Inr True \<longrightarrow> safe_open net (tx_hash fwd) v \<and>
      (\<exists>r. fwd_row (dep v) (tx_hash fwd) = Some r \<and> submitted_tx r = submitted_tx fwd))) w"
  unfolding claim_pending_forward_def wp_bind wp_return
proof (rule wp_dep_stmt, goal_cases)
  case (1 v)
  let ?h = "tx_hash fwd"
  let ?s = "claim_pending_forward_stmt (db_now e (tick w)) ?h (updated_at fwd) (dep w)"
  have view: "dep v = snd (update_forward ?h (\<lambda>r. status r = StatusPending \<and> updated_at r = updated_at fwd)
      (touch_row (db_now e (tick w))) (dep w))"
    using 1 by (simp add: claim_stmts_view)
  have "safe_open net ?h v \<and> (\<exists>r. fwd_row (dep v) ?h = Some r \<and> submitted_tx r = submitted_tx fwd)"
    if claimed: "fst ?s"
  proof -
    obtain r where r: "fwd_row (dep w) ?h = Some r" "updated_at r = updated_at fwd"
      using claim_pending_result [of "dep w" "db_now e (tick w)" ?h "updated_at fwd"] inv claimed
      by (auto simp: payment_inv_def base_def)
    then have "r = fwd" using snap by (auto simp: snapshot_ok_def)
    with r have row: "fwd_row (dep w) ?h = Some fwd" by simp
    have "safe_open net ?h w" using open_row_busy [OF inv row] st by simp
    then have "safe_open net ?h v" by (rule touch_quiet.safe_kept [OF _ 1(1) view])
    moreover have "fwd_row (dep v) ?h = Some (touch_row (db_now e (tick w)) fwd)"
      using row st by (simp add: view touch.row_after)
    ultimately show ?thesis by (simp add: touch_row_def)
  qed
  moreover have "payment_inv net v" using touch_inv [OF inv 1(1) view] by blast
  ultimately show ?case by (simp add: wrap_err_def)
next
  case (2 m v)
  have "payment_inv net v"
    using 2(5)
  proof
    assume "dep v = dep w"
    then show ?thesis using view_same(3) [OF _ 2(1) inv] by blast
  next
    assume "dep v = snd (claim_pending_forward_stmt (db_now e (tick w)) (tx_hash fwd) (updated_at fwd) (dep w))"
    then show ?thesis using touch_inv [OF inv 2(1)] by (simp add: claim_stmts_view)
  qed
  then show ?case by (simp add: wrap_err_def)
qed

text \<open>The retry worker's run keeps the invariant.\<close>

lemma wp_retry_claimed:
  assumes net: "honest_network e k cfg net"
    and until: "\<And>x. submitted_tx fwd = Some x \<Longrightarrow> submitted_until fwd = Some (from_unix (max_time_of net x))"
    and safe: "safe_open net (tx_hash fwd) w"
    and row: "fwd_row (dep w) (tx_hash fwd) = Some r" "submitted_tx r = submitted_tx fwd"
  shows "wp (retry_claimed e k cfg fwd) (\<lambda>_. payment_inv net) w"
proof -
  let ?h = "tx_hash fwd"
  have "wp (case submitted_tx fwd of None \<Rightarrow> ret False | Some x \<Rightarrow> resolve_submitted e k fwd x)
    (resolve_post net ?h) w"
  proof (rule wp_optionI)
    assume "submitted_tx fwd = None"
    then show "wp (ret False) (resolve_post net ?h) w"
      using safe_unsent [OF safe row(1)] row(2) by (simp add: resolve_post_def)
  next
    fix x
    assume x: "submitted_tx fwd = Some x"
    then show "wp (resolve_submitted e k fwd x) (resolve_post net ?h) w"
      using wp_resolve_submitted [OF net safe_sent [OF safe row(1)] until] row(2) by simp
  qed
  then show ?thesis
    unfolding retry_claimed_def
    by (rule wp_bindI) (use wp_retry_unsent [OF net] in \<open>auto simp: resolve_post_def\<close>)
qed

lemma wp_retry:
  assumes net: "honest_network e k cfg net" and inv: "payment_inv net w" and snap: "snapshot_ok w fwd"
    and until: "\<And>x. submitted_tx fwd = Some x \<Longrightarrow> submitted_until fwd = Some (from_unix (max_time_of net x))"
  shows "wp (retry e k cfg fwd) (\<lambda>_. payment_inv net) w"
proof -
  let ?h = "tx_hash fwd"
  have "wp (if status fwd = StatusPending then claim_pending_forward e ?h (updated_at fwd) else ret (Inr True))
    (\<lambda>c v. payment_inv net v \<and> (c = Inr True \<longrightarrow> safe_open net ?h v \<and>
      (\<exists>r. fwd_row (dep v) ?h = Some r \<and> submitted_tx r = submitted_tx fwd))) w"
  proof (rule wp_ifI [OF wp_claim_pending [OF inv snap]])
    assume st: "status fwd \<noteq> StatusPending"
    then have row: "fwd_row (dep w) ?h = Some fwd" "status fwd = StatusPendingRetry"
      using snap by (auto simp: snapshot_ok_def)
    then have "safe_open net ?h w" using open_row_busy [OF inv row(1)] by simp
    then show "wp (ret (Inr True)) (\<lambda>c v. payment_inv net v \<and> (c = Inr True \<longrightarrow> safe_open net ?h v \<and>
      (\<exists>r. fwd_row (dep v) ?h = Some r \<and> submitted_tx r = submitted_tx fwd))) w"
      using inv row by simp
  qed
  then show ?thesis
    unfolding retry_def
    by (rule wp_bindI, intro wp_ifI) (use wp_retry_claimed [OF net until] in auto)
qed

end
