(* ===== verification/Bridge_Frame.thy ===== *)
theory Bridge_Frame
  imports Payment_Safety
begin

text \<open>
  What the workers' runs leave alone. The locale \<open>bridge_rel\<close> is the contract of a relation between
  the worlds before and after any single effect a run on deposit \<open>h\<close> may have; inside it, every
  function of the forwarder is shown once to stay within such a relation. Its interpretations give
  the frame of a run (other deposits' rows and transfers are untouched), the growth of time stamps
  that the claim protocol rests on, and the finality of completed intents.
\<close>

section \<open>The effects of a run\<close>

text \<open>The row functions of the nine \<open>UPDATE forwards\<close> statements at database time \<open>now\<close>.\<close>

definition row_op :: "instant \<Rightarrow> (forward \<Rightarrow> forward) \<Rightarrow> bool" where
  "row_op now f \<longleftrightarrow> f = touch_row now \<or> f = clear_row now \<or> (\<exists>x. f = done_row now x) \<or>
     (\<exists>x. f = swept_row now x) \<or> (\<exists>reason. f = sweep_row now reason) \<or>
     (\<exists>x until. f = submission_row now x until) \<or> (\<exists>st msg. f = failed_row now st msg) \<or>
     (\<exists>msg. f = requeue_row now msg) \<or> (\<exists>msg. f = perm_failed_row now msg)"

lemma row_op_intros [intro]:
  "row_op now (touch_row now)" "row_op now (clear_row now)" "row_op now (done_row now x)"
  "row_op now (swept_row now x)" "row_op now (sweep_row now reason)"
  "row_op now (submission_row now x until)" "row_op now (failed_row now st msg)"
  "row_op now (requeue_row now msg)" "row_op now (perm_failed_row now msg)"
  by (auto simp: row_op_def)

lemma row_op_columns:
  assumes "row_op now f"
  shows "tx_hash (f r) = tx_hash r" "created_at (f r) = created_at r" "updated_at (f r) = now"
    "retries r \<le> retries (f r)" "fwd_memo_id (f r) = fwd_memo_id r" "amount (f r) = amount r"
    "asset (f r) = asset r" "fwd_pool (f r) = fwd_pool r"
  using assms by (auto simp: row_op_def row_defs)

lemma row_op_forward_op: "row_op now f \<Longrightarrow> forward_op f"
  by (auto simp: row_op_def intro: touch.forward_op_axioms clear.forward_op_axioms
      done_op.forward_op_axioms swept_op.forward_op_axioms sweep_op.forward_op_axioms
      submission.forward_op_axioms failed_op.forward_op_axioms requeue.forward_op_axioms
      perm_fail.forward_op_axioms)

text \<open>The effects of the submit pipeline: it writes only the submission columns of its row.\<close>

locale submit_rel =
  fixes e :: runtime and h :: string and R :: "bridge_world \<Rightarrow> bridge_world \<Rightarrow> bool"
  assumes R_refl: "R w w"
    and R_trans: "R u v \<Longrightarrow> R v w \<Longrightarrow> R u w"
    and tick: "R w (w\<lparr>tick := Suc (tick w)\<rparr>)"
    and seqs: "R w (w\<lparr>seqs := s\<rparr>)"
    and chans: "R w (w\<lparr>channels := c\<rparr>)"
    and log: "R w (w\<lparr>queued := queued w @ [(h, x)]\<rparr>)"
    and submission: "R w (w\<lparr>tick := Suc (tick w),
      dep := snd (update_forward h cond (submission_row (db_now e (tick w)) x until) (dep w))\<rparr>)"
    and clear: "R w (w\<lparr>tick := Suc (tick w),
      dep := snd (update_forward h cond (clear_row (db_now e (tick w))) (dep w))\<rparr>)"
begin

definition keeps :: "'a bridge \<Rightarrow> bool" where
  "keeps m \<longleftrightarrow> (\<forall>w. R w (snd (run_state m w)))"

lemma keeps_ret [intro!, simp]: "keeps (ret a)"
  by (simp add: keeps_def R_refl)

lemma keeps_bind [intro!]: "keeps m \<Longrightarrow> (\<And>a. keeps (f a)) \<Longrightarrow> keeps (State_Monad.bind m f)"
  by (auto simp: keeps_def split: prod.splits) (metis snd_conv R_trans)

lemma keeps_ask [intro!, simp]: "keeps (ask f)"
  by (simp add: keeps_def ask_def tick)

lemma keeps_gets [intro!, simp]: "keeps (gets f)"
  by (simp add: keeps_def R_refl)

lemma keeps_pool [intro!, simp]: "keeps (modify_pool addr f)"
  by (simp add: keeps_def modify_pool_def seqs)

lemma keeps_dep_stmt:
  assumes "\<And>w. R w (w\<lparr>tick := Suc (tick w), dep := snd (stmt (db_now e (tick w)) (dep w))\<rparr>)"
  shows "keeps (dep_stmt e stmt)"
  using assms tick
  by (auto simp: keeps_def dep_stmt_def db_stmt_def Let_def case_prod_beta split: db_reply.split)

lemma keeps_exec:
  assumes "\<And>w. R w (w\<lparr>tick := Suc (tick w), dep := snd (stmt (db_now e (tick w)) (dep w))\<rparr>)"
  shows "keeps (exec e p stmt)"
  unfolding exec_def by (intro keeps_bind keeps_ret keeps_dep_stmt assms)

lemma keeps_query [intro!, simp]: "keeps (dep_query e q)"
  unfolding dep_query_def by (rule keeps_dep_stmt) (simp add: tick)

lemma keeps_if [intro!]: "keeps m \<Longrightarrow> keeps n \<Longrightarrow> keeps (if b then m else n)"
  by simp

lemma keeps_sum [intro!]: "(\<And>x. keeps (f x)) \<Longrightarrow> (\<And>y. keeps (g y)) \<Longrightarrow> keeps (case r of Inl x \<Rightarrow> f x | Inr y \<Rightarrow> g y)"
  by (cases r) auto

lemma keeps_option [intro!]: "keeps f \<Longrightarrow> (\<And>y. keeps (g y)) \<Longrightarrow> keeps (case r of None \<Rightarrow> f | Some y \<Rightarrow> g y)"
  by (cases r) auto

lemma keeps_submission_methods [intro!, simp]:
  "keeps (record_submission e h x until)" "keeps (clear_submission e h)"
  unfolding record_submission_def clear_submission_def
  by (intro keeps_bind keeps_ret keeps_exec keeps_dep_stmt;
      simp add: record_submission_stmt_def clear_submission_stmt_def case_prod_beta submission clear)+

lemma keeps_channel_stmt: "keeps (db_stmt e channels channels_update stmt)"
proof -
  have "R w (w\<lparr>tick := Suc (tick w), channels := c\<rparr>)" for w c
    using R_trans [OF tick chans, of w c] by simp
  then show ?thesis
    using tick by (auto simp: keeps_def db_stmt_def Let_def case_prod_beta split: db_reply.split)
qed

lemma keeps_acquire [intro!, simp]: "keeps (acquire e inst ttl)"
  unfolding acquire_def by (intro keeps_bind keeps_ask keeps_sum keeps_ret keeps_channel_stmt)

lemma keeps_release [intro!, simp]: "keeps (release_channel e l c rs)"
  unfolding release_channel_def release_def by (intro keeps_bind keeps_ret keeps_channel_stmt)

lemma R_acquire_loop: "e' = e \<Longrightarrow> R w (snd (acquire_loop e' inst ttl deadline earliest w))"
proof (induction e' inst ttl deadline earliest w rule: acquire_loop.induct)
  case (1 e' inst ttl deadline earliest w)
  obtain r w1 where run: "run_state (acquire e inst ttl) w = (r, w1)" by fastforce
  have ticks: "R v (v\<lparr>tick := Suc (tick v)\<rparr>)" "R v (v\<lparr>tick := Suc (Suc (Suc (tick v)))\<rparr>)" for v
    using tick R_trans [OF tick [of v] R_trans [OF tick tick]] by simp_all
  have "R w w1" using keeps_acquire [of inst ttl] run unfolding keeps_def by (metis snd_conv)
  moreover note 1(1) [OF run [folded \<open>e' = e\<close>, symmetric] refl refl _ refl refl _ \<open>e' = e\<close>]
  ultimately show ?case
    using ticks [of w1] 1(2) R_trans
    by (subst acquire_loop.simps) (auto simp: Let_def run; blast)
qed

lemma keeps_acquire_wait [intro!, simp]: "keeps (acquire_wait e inst ttl wait)"
  unfolding acquire_wait_def
  by (intro keeps_bind keeps_ask) (simp add: keeps_def R_acquire_loop)

lemma keeps_forget [intro!, simp]: "keeps (forget_submission e h)"
  unfolding forget_submission_def by (intro keeps_bind keeps_submission_methods keeps_ret)

lemma keeps_rpc_send [intro!, simp]: "keeps (rpc_send e h x b)"
proof -
  have "keeps (modify (\<lambda>w. w\<lparr>queued := queued w @ [(h, x)]\<rparr>))"
    by (simp add: keeps_def log)
  then show ?thesis unfolding rpc_send_def by (intro keeps_bind keeps_ask keeps_if keeps_ret)
qed

lemma keeps_send_loop [intro!, simp]: "keeps (send_loop e k h x b n)"
  by (induction n) (auto simp: send_loop.simps split: send_status.split)

lemma keeps_sign_and_send [intro!, simp]: "keeps (sign_and_send e k h seal env until)"
  unfolding sign_and_send_def by (auto split: store_error.split prod.split)

lemma keeps_poll [intro!, simp]: "keeps (poll_result e k x)"
  unfolding poll_result_def by (intro keeps_bind keeps_ask keeps_ret)

lemma keeps_sequencer [intro!, simp]:
  "keeps (lock_send pool)" "keeps (unlock_send pool)" "keeps (seq_next e pool)" "keeps (abandon_send pool err)"
  unfolding lock_send_def unlock_send_def seq_next_def seed_locked_def abandon_send_def resync_def
  by auto

lemma keeps_fee_loops [intro!, simp]:
  "keeps (fee_loop e k cfg h pool kp until price n env fee)"
  "keeps (channel_fee_loop e k h l last_seq seq seal until price n env fee)"
  by (induction n arbitrary: env fee) (auto simp: fee_loop.simps channel_fee_loop.simps Let_def)

lemma keeps_transfer:
  assumes "\<And>src seq until. keeps (prepare src seq until)"
  shows "keeps (transfer e k cfg h pool prepare)"
  unfolding transfer_def transfer_as_pool_def transfer_via_channel_def load_channel_seq_def Let_def
  by (auto simp: assms split: pool_error.split)

lemma keeps_submit [intro!, simp]: "keeps (submit e k cfg h c_addr pool amt ass)"
  unfolding submit_def
  by (rule keeps_transfer) (auto simp: prepare_contract_payment_def Let_def)

lemma keeps_sweep_tx [intro!, simp]: "keeps (sweep_tx e k cfg h pool amt ass)"
proof -
  have "keeps (transfer e k cfg h pool (prepare_sweep k cfg h pool amt a))" for a
    by (rule keeps_transfer) (simp add: prepare_sweep_def Let_def)
  then show ?thesis
    unfolding sweep_tx_def check_trustline_def by (auto split: Stellar.asset.split)
qed

lemma keepsD: "keeps m \<Longrightarrow> run_state m w = (a, w') \<Longrightarrow> R w w'"
  by (metis keeps_def snd_conv)

end

text \<open>The effects of a whole run: any statement on the row, and the two intent statements.\<close>

locale bridge_rel = submit_rel +
  assumes row: "row_op (db_now e (tick w)) f \<Longrightarrow>
      R w (w\<lparr>tick := Suc (tick w), dep := snd (update_forward h cond f (dep w))\<rparr>)"
    and complete: "R w (w\<lparr>tick := Suc (tick w), dep := snd (complete_intent_stmt (db_now e (tick w)) m (dep w))\<rparr>)"
    and failing: "R w (w\<lparr>tick := Suc (tick w), dep := snd (fail_intent_stmt (db_now e (tick w)) m (dep w))\<rparr>)"
begin

lemma keeps_store_methods [intro!, simp]:
  "keeps (claim_new_forward e h)" "keeps (claim_pending_forward e h seen)"
  "keeps (mark_forward_done e h x)" "keeps (mark_sweep e h reason)" "keeps (mark_swept e h x)"
  "keeps (mark_forward_failed e h st msg)" "keeps (requeue_for_contention e h msg)"
  "keeps (permanently_fail e h msg)" "keeps (complete_intent e m)" "keeps (fail_intent e m)"
  "keeps (get_intent e m)"
  unfolding claim_new_forward_def claim_pending_forward_def mark_forward_done_def mark_sweep_def
    mark_swept_def mark_forward_failed_def
    requeue_for_contention_def permanently_fail_def complete_intent_def fail_intent_def get_intent_def
  by (intro keeps_bind keeps_ret keeps_query keeps_exec keeps_dep_stmt;
      simp add: stmt_defs case_prod_beta row row_op_intros complete failing)+

lemma keeps_sweeps [intro!, simp]:
  "keeps (sweep_deposit e k cfg h pool amt ass)" "keeps (start_sweep e k cfg h pool amt ass reason)"
  unfolding sweep_deposit_def start_sweep_def by auto

lemma keeps_forward_attempts [intro!, simp]:
  "keeps (forward_attempts e k cfg h m c_addr pool amt ass n last_err)"
  by (induction n arbitrary: last_err) (auto simp: forward_attempts.simps requeue_last_error_def)

text \<open>The runs of the two workers on this deposit.\<close>

lemma keeps_forward_claimed:
  assumes "job_tx_hash job = h"
  shows "keeps (forward_claimed e k cfg pool job landed)"
  unfolding forward_claimed_def Let_def assms by (auto split: store_error.split)

lemma keeps_forward_recorded:
  assumes "job_tx_hash job = h"
  shows "keeps (forward_recorded e k cfg pool job)"
  unfolding forward_recorded_def using keeps_forward_claimed [OF assms] by (auto simp: assms)

lemma keeps_resolve:
  assumes "tx_hash fwd = h"
  shows "keeps (resolve_submitted e k fwd x)"
  unfolding resolve_submitted_def resolve_unseen_def past_max_time_def complete_retried_def Let_def assms
  by (auto split: tx_status.split)

lemma keeps_retry_unsent:
  assumes "tx_hash fwd = h"
  shows "keeps (retry_unsent e k cfg fwd)"
  unfolding retry_unsent_def retry_forward_def complete_retried_def Let_def assms
  by (auto split: store_error.split)

lemma keeps_retry_claimed:
  assumes "tx_hash fwd = h"
  shows "keeps (retry_claimed e k cfg fwd)"
  unfolding retry_claimed_def using keeps_resolve [OF assms] keeps_retry_unsent [OF assms] by auto

lemma keeps_retry:
  assumes "tx_hash fwd = h"
  shows "keeps (retry e k cfg fwd)"
  unfolding retry_def using keeps_retry_claimed [OF assms] by (auto simp: assms)

end

section \<open>Other deposits are untouched\<close>

definition frame :: "string \<Rightarrow> bridge_world \<Rightarrow> bridge_world \<Rightarrow> bool" where
  "frame h w v \<longleftrightarrow> cursors (dep v) = cursors (dep w) \<and>
     (\<forall>h'. h' \<noteq> h \<longrightarrow> fwd_row (dep v) h' = fwd_row (dep w) h' \<and>
        filter (\<lambda>p. fst p = h') (queued v) = filter (\<lambda>p. fst p = h') (queued w))"

lemma intent_stmts_forwards [simp]:
  "forwards (snd (complete_intent_stmt now m db)) = forwards db"
  "forwards (snd (fail_intent_stmt now m db)) = forwards db"
  "cursors (snd (complete_intent_stmt now m db)) = cursors db"
  "cursors (snd (fail_intent_stmt now m db)) = cursors db"
  by (simp_all add: complete_intent_stmt_def fail_intent_stmt_def Let_def case_prod_beta)

lemma update_forward_cursors [simp]:
  "cursors (snd (update_forward h c f db)) = cursors db" "intents (snd (update_forward h c f db)) = intents db"
  by (simp_all add: update_forward_def case_prod_beta)

lemma intent_stmts_rows [simp]:
  "fwd_row (snd (complete_intent_stmt now m db)) h = fwd_row db h"
  "fwd_row (snd (fail_intent_stmt now m db)) h = fwd_row db h"
  by (simp_all add: fwd_row_def)

interpretation fr: bridge_rel e h "frame h" for e h
proof unfold_locales
  fix w :: bridge_world and f cond
  assume "row_op (db_now e (tick w)) f"
  then have "forward_op f" by (rule row_op_forward_op)
  then show "frame h w (w\<lparr>tick := Suc (tick w), dep := snd (update_forward h cond f (dep w))\<rparr>)"
    by (simp add: frame_def forward_op.row_after)
next
  fix u v w
  assume "frame h u v" "frame h v w"
  then show "frame h u w" unfolding frame_def by presburger
qed (simp_all add: frame_def submission.row_after clear.row_after)

section \<open>Time stamps grow\<close>

text \<open>
  The database clock never repeats: \<open>NOW()\<close> is later at every statement. Then no row is dated
  ahead of the next statement, and only a row that was never written again has
  \<open>updated_at = created_at\<close>.
\<close>

definition row_dated :: "forward \<Rightarrow> bool" where
  "row_dated r \<longleftrightarrow> created_at r \<le> updated_at r \<and> (status r \<noteq> StatusPending \<longrightarrow> created_at r < updated_at r)"

definition clock_ok :: "runtime \<Rightarrow> bridge_world \<Rightarrow> bool" where
  "clock_ok e w \<longleftrightarrow>
     (\<forall>h r. fwd_row (dep w) h = Some r \<longrightarrow> row_dated r \<and> updated_at r < db_now e (tick w))"

definition grew :: "forward option \<Rightarrow> forward option \<Rightarrow> bool" where
  "grew r r' \<longleftrightarrow>
     (case r of
        None \<Rightarrow> r' = None
      | Some a \<Rightarrow> (\<exists>b. r' = Some b \<and> created_at b = created_at a \<and> (b = a \<or> updated_at a < updated_at b)))"

definition evolves :: "runtime \<Rightarrow> string \<Rightarrow> bridge_world \<Rightarrow> bridge_world \<Rightarrow> bool" where
  "evolves e h w v \<longleftrightarrow> (strict_mono (db_now e) \<longrightarrow> clock_ok e w \<longrightarrow>
     clock_ok e v \<and> tick w \<le> tick v \<and> grew (fwd_row (dep w) h) (fwd_row (dep v) h))"

lemma grew_refl [simp]: "grew r r"
  by (simp add: grew_def split: option.split)

lemma grew_trans: "grew a b \<Longrightarrow> grew b c \<Longrightarrow> grew a c"
  by (auto simp: grew_def split: option.splits)

lemma evolves_same:
  assumes "tick v = tick w \<or> tick v = Suc (tick w)" "\<And>h. fwd_row (dep v) h = fwd_row (dep w) h"
  shows "evolves e h w v"
proof -
  have "db_now e (tick w) \<le> db_now e (tick v)" if "strict_mono (db_now e)"
    using assms(1) that by (auto simp: strict_mono_less_eq)
  then show ?thesis using assms by (auto simp: evolves_def clock_ok_def intro: less_le_trans)
qed

lemma evolves_row:
  assumes "row_op (db_now e (tick w)) f"
  shows "evolves e h w (w\<lparr>tick := Suc (tick w), dep := snd (update_forward h cond f (dep w))\<rparr>)"
proof -
  let ?v = "w\<lparr>tick := Suc (tick w), dep := snd (update_forward h cond f (dep w))\<rparr>"
  note cols = row_op_columns [OF assms]
  have row: "fwd_row (dep ?v) h' = (if h' = h then map_option (\<lambda>r. if cond r then f r else r) (fwd_row (dep w) h)
      else fwd_row (dep w) h')" for h'
    using forward_op.row_after [OF row_op_forward_op [OF assms]] by simp
  show ?thesis
    unfolding evolves_def
  proof (intro impI conjI)
    assume mono: "strict_mono (db_now e)" and ok: "clock_ok e w"
    have step: "db_now e (tick w) < db_now e (tick ?v)" using mono by (simp add: strict_mono_less)
    have old: "row_dated r" "updated_at r < db_now e (tick w)" if "fwd_row (dep w) h' = Some r" for h' r
      using ok that by (auto simp: clock_ok_def)
    have new: "row_dated (f r)" "updated_at (f r) < db_now e (tick ?v)" "updated_at r < updated_at (f r)"
      if "fwd_row (dep w) h = Some r" for r
      using old [OF that] step by (auto simp: row_dated_def cols)
    show "clock_ok e ?v"
      unfolding clock_ok_def
    proof (intro allI impI)
      fix h' r
      assume r: "fwd_row (dep ?v) h' = Some r"
      show "row_dated r \<and> updated_at r < db_now e (tick ?v)"
      proof (cases "h' = h")
        case True
        with r row obtain a where "fwd_row (dep w) h = Some a" "r = a \<or> r = f a"
          by (auto split: if_splits)
        then show ?thesis using old [of h a] new [of a] step by auto
      next
        case False
        then have "fwd_row (dep w) h' = Some r" using r row [of h'] by simp
        from old [OF this] step show ?thesis by simp
      qed
    qed
    show "tick w \<le> tick ?v" by simp
    show "grew (fwd_row (dep w) h) (fwd_row (dep ?v) h)"
      using row [of h] new(3) cols(2) by (cases "fwd_row (dep w) h") (auto simp: grew_def)
  qed
qed

interpretation ev: bridge_rel e h "evolves e h" for e h
proof unfold_locales
  show "evolves e h w (w\<lparr>tick := Suc (tick w),
      dep := snd (update_forward h cond (submission_row (db_now e (tick w)) x until) (dep w))\<rparr>)"
    "evolves e h w (w\<lparr>tick := Suc (tick w),
      dep := snd (update_forward h cond (clear_row (db_now e (tick w))) (dep w))\<rparr>)" for w cond x until
    by (intro evolves_row row_op_intros)+
next
  fix u v w
  assume "evolves e h u v" "evolves e h v w"
  then show "evolves e h u w" unfolding evolves_def by (meson grew_trans order_trans)
next
  show "evolves e h w (w\<lparr>tick := Suc (tick w), dep := snd (complete_intent_stmt (db_now e (tick w)) m (dep w))\<rparr>)"
    "evolves e h w (w\<lparr>tick := Suc (tick w), dep := snd (fail_intent_stmt (db_now e (tick w)) m (dep w))\<rparr>)" for w m
    by (intro evolves_same; simp)+
qed (assumption | rule evolves_row | (rule evolves_same; simp))+

section \<open>Intents move forward only\<close>

text \<open>Apart from its time stamp, an intent changes only by completing or failing.\<close>

definition intent_moves :: "intent \<Rightarrow> intent \<Rightarrow> bool" where
  "intent_moves i j \<longleftrightarrow> intent_id j = intent_id i \<and> memo_id j = memo_id i \<and> c_address j = c_address i \<and>
     intent_pool j = intent_pool i \<and> expires_at j = expires_at i \<and> external_id j = external_id i \<and>
     (intent_status j = intent_status i \<or>
      intent_status i = IntentPending \<and> intent_status j = IntentFailed \<or>
      (intent_status i = IntentPending \<or> intent_status i = IntentExpired) \<and> intent_status j = IntentCompleted)"

definition intents_move :: "bridge_world \<Rightarrow> bridge_world \<Rightarrow> bool" where
  "intents_move w v \<longleftrightarrow> list_all2 intent_moves (intents (dep w)) (intents (dep v))"

lemma intents_move_stmts:
  "list_all2 intent_moves (intents db) (intents (snd (complete_intent_stmt now m db)))"
  "list_all2 intent_moves (intents db) (intents (snd (fail_intent_stmt now m db)))"
  by (auto simp: complete_intent_stmt_def fail_intent_stmt_def update_where_def list_all2_map2
      intent_moves_def intro!: list.rel_refl_strong)

lemma intents_move_refl: "intents (dep v) = intents (dep w) \<Longrightarrow> intents_move w v"
  by (simp add: intents_move_def intent_moves_def list.rel_refl)

interpretation mv: bridge_rel e h intents_move for e h
proof unfold_locales
  fix u v w
  assume "intents_move u v" "intents_move v w"
  then show "intents_move u w"
    unfolding intents_move_def by (rule list_all2_trans [rotated]) (auto simp: intent_moves_def)
qed (auto simp: intents_move_refl intents_move_stmts intents_move_def [of _ "_\<lparr>tick := _, dep := snd (complete_intent_stmt _ _ _)\<rparr>"]
      intents_move_def [of _ "_\<lparr>tick := _, dep := snd (fail_intent_stmt _ _ _)\<rparr>"])

end
