(* ===== verification/Watcher.thy ===== *)
theory Watcher
  imports Forwarder Memo
begin

text \<open>
  \<open>internal/service/watcher/watcher.go\<close>: what one pool's watcher does with each record Horizon
  returns. A record is handled against the tables; the job it puts on the worker channel, the
  error it stops the poll with and the alert it raises are the result. \<open>poll_page\<close> is one turn of
  the polling loop. What the watcher promises is in theories \<open>Watcher_Run\<close> and \<open>Watcher_Laws\<close>.
\<close>

section \<open>Horizon records\<close>

record tx_data =
  memo_type :: string
  memo_text :: string
  operation_count :: int

record payment =
  pay_id :: string
  pay_tx_hash :: string
  pay_from :: string
  pay_to :: string
  pay_to_muxed :: string
  pay_to_muxed_id :: "64 word"
  pay_amount :: string
  pay_asset_type :: string
  pay_asset_code :: string
  pay_asset_issuer :: string
  pay_close_time :: instant
  pay_transaction :: "tx_data option"

record balance_change =
  change_type :: string
  change_to :: string

datatype op_body =
    OpPayment payment
  | OpPathPayment payment
  | OpPathPaymentStrictSend payment
  | OpAccountMerge string
  | OpInvokeHostFunction "balance_change list"
  | OpOther

record hz_operation =
  op_body :: op_body
  paging_token :: string

definition forward_queue :: nat where "forward_queue = 256"
definition page_size :: nat where "page_size = 200"

section \<open>Reading a payment\<close>

definition payment_to :: "op_body \<Rightarrow> string \<Rightarrow> payment option" where
  "payment_to op pool =
     (case op of
        OpPayment p \<Rightarrow> if pay_to p = pool then Some p else None
      | OpPathPayment p \<Rightarrow> if pay_to p = pool then Some p else None
      | OpPathPaymentStrictSend p \<Rightarrow> if pay_to p = pool then Some p else None
      | _ \<Rightarrow> None)"

definition unhandled_credit :: "op_body \<Rightarrow> string \<Rightarrow> string" where
  "unhandled_credit op pool =
     (case op of
        OpAccountMerge into \<Rightarrow> if into = pool then ''account_merge'' else []
      | OpInvokeHostFunction cs \<Rightarrow>
          if list_ex (\<lambda>c. change_to c = pool \<and> (change_type c = ''transfer'' \<or> change_type c = ''mint'')) cs
          then ''contract_transfer'' else []
      | _ \<Rightarrow> [])"

datatype routing_error = MemoError memo_error | ErrTagConflict string

definition routing_id :: "payment \<Rightarrow> tx_data \<Rightarrow> routing_error + 64 word" where
  "routing_id p tx =
     (case parse_id (memo_type tx) (memo_text tx) of
        Inl err \<Rightarrow> if pay_to_muxed p = [] then Inl (MemoError err) else Inr (pay_to_muxed_id p)
      | Inr m \<Rightarrow>
          if pay_to_muxed p = [] then Inr m
          else if m \<noteq> pay_to_muxed_id p
          then Inl (ErrTagConflict (''memo and muxed id name different intents: memo '' @ show_nat (unat m) @
            '', muxed id '' @ show_nat (unat (pay_to_muxed_id p))))
          else Inr (pay_to_muxed_id p))"

text \<open>\<open>id & 0xFFF\<close> on an \<open>int64\<close> is the residue modulo 4096.\<close>

definition deposit_key :: "string \<Rightarrow> string \<Rightarrow> int \<Rightarrow> string" where
  "deposit_key h op_id op_count =
     (if op_count = 1 then h
      else case parse_int64 op_id of
        None \<Rightarrow> h @ '':'' @ op_id
      | Some i \<Rightarrow> h @ '':'' @ show_int (i mod 4096))"

definition asset_id :: "payment \<Rightarrow> string" where
  "asset_id p =
     (if pay_asset_type p = ''native'' then ''native''
      else pay_asset_code p @ '':'' @ pay_asset_issuer p)"

text \<open>A payment with no usable tag gets memo 0, the zero value of the job's field.\<close>

definition job_of :: "payment \<Rightarrow> tx_data \<Rightarrow> forward_job" where
  "job_of p tx =
     \<lparr>job_tx_hash = deposit_key (pay_tx_hash p) (pay_id p) (operation_count tx),
      job_landed_at = pay_close_time p,
      job_memo_id = (case routing_id p tx of Inl _ \<Rightarrow> 0 | Inr m \<Rightarrow> m),
      job_from = pay_from p, job_amount = pay_amount p, job_asset = asset_id p\<rparr>"

section \<open>Handling a record\<close>

record handled =
  h_error :: "string option"
  h_job :: "forward_job option"
  h_alert :: string

definition save_cursor :: "runtime \<Rightarrow> string \<Rightarrow> string \<Rightarrow> unit bridge" where
  "save_cursor e pool tok = do { upsert_cursor e pool tok; skip }"

text \<open>\<open>dispatch\<close>: the job is queued unless intake stops first.\<close>

definition dispatch :: "runtime \<Rightarrow> bool bridge" where
  "dispatch e = do { stopped \<leftarrow> ask (ctx_done e); ret (\<not> stopped) }"

definition handle :: "runtime \<Rightarrow> string \<Rightarrow> hz_operation \<Rightarrow> handled bridge" where
  "handle e pool op =
     (case payment_to (op_body op) pool of
        None \<Rightarrow> do {
          save_cursor e pool (paging_token op);
          ret \<lparr>h_error = None, h_job = None, h_alert = unhandled_credit (op_body op) pool\<rparr> }
      | Some p \<Rightarrow>
          (case pay_transaction p of
             None \<Rightarrow> do {
               save_cursor e pool (paging_token op);
               ret \<lparr>h_error = None, h_job = None, h_alert = []\<rparr> }
           | Some tx \<Rightarrow>
               (let job = job_of p tx in do {
                 r \<leftarrow> insert_forward e (job_tx_hash job) (job_memo_id job) pool (job_from job)
                        (job_amount job) (job_asset job) (job_landed_at job);
                 (case r of
                    Inl m \<Rightarrow>
                      ret \<lparr>h_error = Some (''record deposit '' @ job_tx_hash job @ '': '' @ m),
                           h_job = None, h_alert = []\<rparr>
                  | Inr False \<Rightarrow> do {
                      save_cursor e pool (paging_token op);
                      ret \<lparr>h_error = None, h_job = None, h_alert = []\<rparr> }
                  | Inr True \<Rightarrow> do {
                      sent \<leftarrow> dispatch e;
                      if sent then do {
                        save_cursor e pool (paging_token op);
                        ret \<lparr>h_error = None, h_job = Some job, h_alert = []\<rparr> }
                      else ret \<lparr>h_error = None, h_job = None, h_alert = []\<rparr> }) })))"

section \<open>Polling\<close>

text \<open>What ends a turn of the loop, and the cursor the next turn starts from.\<close>

datatype poll_outcome = PollError string | PollStopped | PollNext string

fun poll_records ::
  "runtime \<Rightarrow> string \<Rightarrow> string \<Rightarrow> hz_operation list \<Rightarrow> (poll_outcome \<times> forward_job list) bridge"
where
  "poll_records e pool cursor [] = ret (PollNext cursor, [])"
| "poll_records e pool cursor (op # ops) = do {
     r \<leftarrow> handle e pool op;
     (let js = (case h_job r of None \<Rightarrow> [] | Some j \<Rightarrow> [j]) in
      case h_error r of
        Some m \<Rightarrow> ret (PollError m, js)
      | None \<Rightarrow> do {
          stopped \<leftarrow> ask (ctx_done e);
          if stopped then ret (PollStopped, js)
          else do {
            rest \<leftarrow> poll_records e pool (paging_token op) ops;
            ret (fst rest, js @ snd rest) } })
   }"

text \<open>One turn: a page in ascending order after the cursor, handled record by record.\<close>

definition poll_page ::
  "runtime \<Rightarrow> (nat \<Rightarrow> string \<Rightarrow> string \<Rightarrow> string + hz_operation list) \<Rightarrow> string \<Rightarrow> string \<Rightarrow>
   (poll_outcome \<times> forward_job list) bridge"
where
  "poll_page e payments pool cursor = do {
     page \<leftarrow> ask (\<lambda>n. payments n pool cursor);
     (case page of
        Inl m \<Rightarrow> ret (PollError m, [])
      | Inr ops \<Rightarrow> do {
          r \<leftarrow> poll_records e pool cursor ops;
          (case fst r of
             PollNext c \<Rightarrow>
               if length ops = page_size then ret r
               else do {
                 stopped \<leftarrow> ask (ctx_done e);
                 ret (if stopped then PollStopped else PollNext c, snd r) }
           | _ \<Rightarrow> ret r) })
   }"

text \<open>\<open>latestCursor\<close>: the newest payment's token, from a page of one in descending order.\<close>

definition latest_cursor ::
  "(nat \<Rightarrow> string \<Rightarrow> string + hz_operation list) \<Rightarrow> string \<Rightarrow> (string + string) bridge"
where
  "latest_cursor newest pool = do {
     page \<leftarrow> ask (\<lambda>n. newest n pool);
     ret (case page of
            Inl m \<Rightarrow> Inl m
          | Inr [] \<Rightarrow> Inr ''0''
          | Inr (op # _) \<Rightarrow> Inr (paging_token op))
   }"

text \<open>Where \<open>poll\<close> starts.\<close>

definition poll_start ::
  "runtime \<Rightarrow> (nat \<Rightarrow> string \<Rightarrow> string + hz_operation list) \<Rightarrow> string \<Rightarrow> (string + string) bridge"
where
  "poll_start e newest pool = do {
     c \<leftarrow> get_cursor e pool;
     (case c of
        Inl m \<Rightarrow> ret (Inl m)
      | Inr tok \<Rightarrow> if tok = [] then latest_cursor newest pool else ret (Inr tok))
   }"

text \<open>\<open>poll\<close> runs until an error or cancellation; \<open>None\<close> is a poll still running after \<open>n\<close> pages.\<close>

fun poll_loop ::
  "runtime \<Rightarrow> (nat \<Rightarrow> string \<Rightarrow> string \<Rightarrow> string + hz_operation list) \<Rightarrow> string \<Rightarrow> nat \<Rightarrow> string \<Rightarrow>
   (poll_outcome option \<times> forward_job list) bridge"
where
  "poll_loop e payments pool 0 cursor = ret (None, [])"
| "poll_loop e payments pool (Suc n) cursor = do {
     r \<leftarrow> poll_page e payments pool cursor;
     (case fst r of
        PollNext c \<Rightarrow> do {
          rest \<leftarrow> poll_loop e payments pool n c;
          ret (fst rest, snd r @ snd rest) }
      | out \<Rightarrow> ret (Some out, snd r))
   }"

definition poll ::
  "runtime \<Rightarrow> (nat \<Rightarrow> string \<Rightarrow> string \<Rightarrow> string + hz_operation list) \<Rightarrow>
   (nat \<Rightarrow> string \<Rightarrow> string + hz_operation list) \<Rightarrow> string \<Rightarrow> nat \<Rightarrow>
   (poll_outcome option \<times> forward_job list) bridge"
where
  "poll e payments newest pool n = do {
     c \<leftarrow> poll_start e newest pool;
     (case c of
        Inl m \<Rightarrow> ret (Some (PollError m), [])
      | Inr tok \<Rightarrow> poll_loop e payments pool n tok)
   }"

text \<open>\<open>forward\<close>: a worker runs the job against its watcher's pool.\<close>

definition forward_job_run :: "runtime \<Rightarrow> sdk \<Rightarrow> bridge_config \<Rightarrow> string \<Rightarrow> forward_job \<Rightarrow> unit bridge" where
  "forward_job_run e k cfg pool job = forward_recorded e k cfg pool job"

end
