(* ===== verification/Bridge.thy ===== *)
theory Bridge
  imports Bridge_Frame Watcher
begin

text \<open>
  The deposit bridge as a whole. One process runs the watchers, their forward workers, the retry
  worker (\<open>internal/service/retry/retry.go\<close>) and the HTTP handlers over one database. A state is
  the world, the jobs on the worker channels and the rows the retry worker has read and not yet
  retried. Each step is one call of the program; calls on different deposits write different rows
  (theorem \<open>run_touches_only_its_deposit\<close>), so it is the order of whole calls on one deposit
  that matters. A restart may happen between any two calls, and a crash inside a call is a runtime
  whose later calls all fail.
\<close>

section \<open>The retry worker\<close>

text \<open>The part of \<open>tick\<close> before its loop: the rows to retry, one \<open>retry\<close> step each.\<close>

definition retry_tick :: "runtime \<Rightarrow> (forward list) bridge" where
  "retry_tick e = do {
     expire_stale_intents e;
     r \<leftarrow> get_pending_retries e;
     ret (case r of Inl m \<Rightarrow> [] | Inr fwds \<Rightarrow> fwds)
   }"

text \<open>The loop of \<open>tick\<close>, run to its end without interleaving.\<close>

fun retry_all :: "runtime \<Rightarrow> sdk \<Rightarrow> bridge_config \<Rightarrow> forward list \<Rightarrow> unit bridge" where
  "retry_all e k cfg [] = skip"
| "retry_all e k cfg (fwd # fwds) = do { retry e k cfg fwd; retry_all e k cfg fwds }"

section \<open>Steps\<close>

record bridge_state =
  world :: bridge_world
  jobs :: "(string \<times> forward_job) list"
  todo :: "forward list"

inductive bridge_step :: "runtime \<Rightarrow> sdk \<Rightarrow> bridge_config \<Rightarrow> bridge_state \<Rightarrow> bridge_state \<Rightarrow> bool"
  for e k cfg
where
  watch: "run_state (handle e pool op) (world s) = (r, w) \<Longrightarrow>
    length (jobs s) < forward_queue \<Longrightarrow>
    bridge_step e k cfg s (s\<lparr>world := w,
      jobs := jobs s @ (case h_job r of None \<Rightarrow> [] | Some j \<Rightarrow> [(pool, j)])\<rparr>)"
| work: "jobs s = (pool, j) # js \<Longrightarrow>
    run_state (forward_job_run e k cfg pool j) (world s) = (u, w) \<Longrightarrow>
    bridge_step e k cfg s (s\<lparr>world := w, jobs := js\<rparr>)"
| fetch: "todo s = [] \<Longrightarrow> run_state (retry_tick e) (world s) = (fwds, w) \<Longrightarrow>
    bridge_step e k cfg s (s\<lparr>world := w, todo := fwds\<rparr>)"
| retry: "todo s = fwd # fwds \<Longrightarrow> run_state (retry e k cfg fwd) (world s) = (u, w) \<Longrightarrow>
    bridge_step e k cfg s (s\<lparr>world := w, todo := fwds\<rparr>)"
| mint: "run_state (create_intent e c_addr pool expected expires ext) (world s) = (r, w) \<Longrightarrow>
    bridge_step e k cfg s (s\<lparr>world := w\<rparr>)"
| bind_order: "run_state (set_intent_external_id e m ext) (world s) = (r', w) \<Longrightarrow>
    bridge_step e k cfg s (s\<lparr>world := w\<rparr>)"
| channels_change: "bridge_step e k cfg s (s\<lparr>world := (world s)\<lparr>channels := c\<rparr>\<rparr>)"
| restart: "bridge_step e k cfg s (s\<lparr>world := (world s)\<lparr>seqs := Map.empty\<rparr>, jobs := [], todo := []\<rparr>)"

inductive_cases bridge_step_cases: "bridge_step e k cfg s s'"

text \<open>A start with no deposits recorded and nothing sent.\<close>

definition bridge_init :: "bridge_state \<Rightarrow> bool" where
  "bridge_init s \<longleftrightarrow> db_wf (dep (world s)) \<and> forwards (dep (world s)) = [] \<and> queued (world s) = [] \<and>
     jobs s = [] \<and> todo s = []"

inductive bridge_reachable :: "runtime \<Rightarrow> sdk \<Rightarrow> bridge_config \<Rightarrow> bridge_state \<Rightarrow> bool"
  for e k cfg
where
  start: "bridge_init s \<Longrightarrow> bridge_reachable e k cfg s"
| step: "bridge_reachable e k cfg s \<Longrightarrow> bridge_step e k cfg s s' \<Longrightarrow> bridge_reachable e k cfg s'"

section \<open>The invariant\<close>

text \<open>A deposit whose row was never written again after its insertion was never sent.\<close>

definition untouched_ok :: "network \<Rightarrow> bridge_world \<Rightarrow> bool" where
  "untouched_ok net w \<longleftrightarrow>
     (\<forall>h r. fwd_row (dep w) h = Some r \<longrightarrow> updated_at r = created_at r \<longrightarrow> unpaid net h (queued w))"

definition bridge_inv :: "runtime \<Rightarrow> network \<Rightarrow> bridge_state \<Rightarrow> bool" where
  "bridge_inv e net s \<longleftrightarrow> payment_inv net (world s) \<and> clock_ok e (world s) \<and> untouched_ok net (world s) \<and>
     (\<forall>r \<in> set (todo s). snapshot_ok (world s) r \<and> row_ok net r) \<and> distinct (map tx_hash (todo s))"

text \<open>
  An interface for invariants of the step relation: the rule induction is done once, and a client
  supplies the start and one preservation fact.
\<close>

locale bridge_invariant =
  fixes e :: runtime and k :: sdk and cfg :: bridge_config and I :: "bridge_state \<Rightarrow> bool"
  assumes at_start: "bridge_init s \<Longrightarrow> I s"
    and kept: "I s \<Longrightarrow> bridge_step e k cfg s s' \<Longrightarrow> I s'"
begin

lemma holds: "bridge_reachable e k cfg s \<Longrightarrow> I s"
  by (induction rule: bridge_reachable.induct) (auto intro: at_start kept)

end

section \<open>Steps that leave the forwards alone\<close>

text \<open>The effects of a call that only reads, or writes intents, cursors and channels.\<close>

definition bystander :: "bridge_world \<Rightarrow> bridge_world \<Rightarrow> bool" where
  "bystander w v \<longleftrightarrow> db_wf (dep w) \<longrightarrow>
     db_wf (dep v) \<and> forwards (dep v) = forwards (dep w) \<and> queued v = queued w \<and> tick w \<le> tick v"

lemma bystander_trans: "bystander u v \<Longrightarrow> bystander v w \<Longrightarrow> bystander u w"
  by (auto simp: bystander_def)

lemma wp_bystander_stmt:
  assumes "\<And>now. db_wf (dep w) \<Longrightarrow> db_wf (snd (stmt now (dep w)))"
    and "\<And>now. forwards (snd (stmt now (dep w))) = forwards (dep w)"
  shows "wp (dep_stmt e stmt) (\<lambda>_. bystander w) w"
  by (rule wp_dep_stmt) (use assms in \<open>auto simp: bystander_def\<close>)

lemma other_stmts_forwards [simp]:
  "forwards (snd (insert_intent now uuid m ca pool ea ex ext db)) = forwards db"
  "forwards (snd (set_external_id_update now m x db)) = forwards db"
  "forwards (snd (expire_stale_intents_stmt now db)) = forwards db"
  "forwards (snd (upsert_cursor_stmt now p tok db)) = forwards db"
  by (simp_all add: insert_intent_def set_external_id_update_def expire_stale_intents_stmt_def
      upsert_cursor_stmt_def Let_def case_prod_beta)

lemma wp_bystander_query: "wp (dep_query e q) (\<lambda>_. bystander w) w"
  unfolding dep_query_def by (rule wp_bystander_stmt) simp_all

lemma bystander_tick: "bystander w (w\<lparr>tick := Suc (tick w)\<rparr>)"
  by (simp add: bystander_def)

lemma wp_create_intent: "wp (create_intent e ca pool ea ex ext) (\<lambda>_. bystander w) w"
proof -
  have "bystander u w \<Longrightarrow> wp (create_intent_tries e n ca pool ea ex ext) (\<lambda>_. bystander u) w" for n u w
  proof (induction n arbitrary: w)
    case 0
    then show ?case by simp
  next
    case (Suc n)
    have stmt: "wp (dep_stmt e (\<lambda>now. insert_intent now uuid m ca pool ea ex ext)) (\<lambda>_. bystander v) v" for uuid m v
      by (rule wp_bystander_stmt) (simp_all add: intent_stmts_wf)
    have v: "bystander u (w\<lparr>tick := Suc (Suc (tick w))\<rparr>)"
      using Suc.prems by (auto simp: bystander_def)
    show ?case
      unfolding create_intent_tries.simps wp_bind wp_ask
      by (simp, rule wp_mono [OF stmt])
        (use v bystander_trans Suc.IH in \<open>auto split: sum.split option.split\<close>)
  qed
  then show ?thesis unfolding create_intent_def by (simp add: bystander_def)
qed

lemma wp_set_external_id: "wp (set_intent_external_id e m ext) (\<lambda>_. bystander w) w"
  unfolding set_intent_external_id_def
proof (rule wp_bindI [OF wp_bystander_stmt], goal_cases)
  case (3 r v)
  have "wp (dep_query e (\<lambda>_. get_intent_by_memo_id m)) (\<lambda>_. bystander w) v"
    by (rule wp_mono [OF wp_bystander_query]) (use 3 bystander_trans in blast)
  with 3 show ?case by (simp split: sum.split)
qed (simp_all add: intent_stmts_wf)


lemma pending_retries_rows:
  "set (get_pending_retries_stmt now db) \<subseteq> {r \<in> set (forwards db). retryable now r}"
  "db_wf db \<Longrightarrow> distinct (map tx_hash (get_pending_retries_stmt now db))"
proof -
  let ?s = "sort_key retries (sort_key created_at (filter (retryable now) (forwards db)))"
  show "set (get_pending_retries_stmt now db) \<subseteq> {r \<in> set (forwards db). retryable now r}"
    using set_take_subset [of 200 ?s] by (auto simp: get_pending_retries_stmt_def)
  assume "db_wf db"
  then have "inj_on tx_hash (set (forwards db))" "distinct (forwards db)"
    by (simp_all add: db_wf_def distinct_map)
  then have "distinct (map tx_hash ?s)"
    by (simp add: distinct_map inj_on_subset)
  then show "distinct (map tx_hash (get_pending_retries_stmt now db))"
    by (simp add: get_pending_retries_stmt_def take_map [symmetric])
qed

lemma wp_pending_retries:
  "wp (get_pending_retries e) (\<lambda>r v. bystander w v \<and>
     (\<forall>fwds. r = Inr fwds \<longrightarrow> (\<exists>now. fwds = get_pending_retries_stmt now (dep w)))) w"
  unfolding get_pending_retries_def dep_query_def wp_bind wp_return
  by (rule wp_dep_stmt) (auto simp: bystander_def wrap_err_def)

lemma wp_retry_tick:
  assumes "db_wf (dep w)"
  shows "wp (retry_tick e) (\<lambda>fwds v. bystander w v \<and>
     (\<forall>r \<in> set fwds. r \<in> set (forwards (dep w)) \<and> (\<exists>now. retryable now r)) \<and> distinct (map tx_hash fwds)) w"
proof -
  have "wp (expire_stale_intents e) (\<lambda>_. bystander w) w"
    unfolding expire_stale_intents_def wp_bind wp_return
    by (rule wp_bystander_stmt) (simp_all add: intent_stmts_wf)
  then show ?thesis
    unfolding retry_tick_def
  proof (rule wp_bindI, intro wp_bindI [OF wp_pending_retries], goal_cases)
    case (1 _ v r u)
    then have "bystander w u" using bystander_trans by blast
    moreover have "db_wf (dep v)" "forwards (dep v) = forwards (dep w)"
      using 1 assms by (simp_all add: bystander_def)
    ultimately show ?case
      using 1 pending_retries_rows [where db = "dep v"] by (cases r) auto
  qed
qed

section \<open>Preservation\<close>

definition world_inv :: "runtime \<Rightarrow> network \<Rightarrow> bridge_world \<Rightarrow> bool" where
  "world_inv e net w \<longleftrightarrow> payment_inv net w \<and> clock_ok e w \<and> untouched_ok net w"

text \<open>The invariant, and what the retry worker knows of the rows it has read.\<close>

definition inv_step :: "runtime \<Rightarrow> network \<Rightarrow> forward list \<Rightarrow> bridge_world \<Rightarrow> bridge_world \<Rightarrow> bool" where
  "inv_step e net ts w v \<longleftrightarrow> (world_inv e net w \<longrightarrow> (\<forall>r \<in> set ts. snapshot_ok w r) \<longrightarrow>
     world_inv e net v \<and> (\<forall>r \<in> set ts. snapshot_ok v r))"

lemma inv_step_trans: "inv_step e net ts u v \<Longrightarrow> inv_step e net ts v w \<Longrightarrow> inv_step e net ts u w"
  by (auto simp: inv_step_def)

lemma bystander_inv_step:
  assumes "bystander w v" "strict_mono (db_now e)"
  shows "inv_step e net ts w v"
  unfolding inv_step_def
proof (intro impI)
  assume inv: "world_inv e net w" and snaps: "\<forall>r \<in> set ts. snapshot_ok w r"
  have v: "db_wf (dep v)" "forwards (dep v) = forwards (dep w)" "queued v = queued w" "tick w \<le> tick v"
    using inv assms(1) by (simp_all add: bystander_def world_inv_def payment_inv_def base_def)
  have row: "fwd_row (dep v) h = fwd_row (dep w) h" for h by (simp add: fwd_row_def v(2))
  have "db_now e (tick w) \<le> db_now e (tick v)"
    using assms(2) v(4) by (simp add: strict_mono_less_eq)
  moreover have "payment_inv net v"
    using intents_inv [OF _ v(3,1,2)] inv by (simp add: world_inv_def)
  ultimately show "world_inv e net v \<and> (\<forall>r \<in> set ts. snapshot_ok v r)"
    using inv snaps
    by (auto simp: world_inv_def clock_ok_def untouched_ok_def snapshot_ok_def row v(3) intro: less_le_trans)
qed

lemma new_forward_row:
  "tx_hash (new_forward now i h m p fa amt ass la) = h" "row_ok net (new_forward now i h m p fa amt ass la)"
  "\<not> holds_hash x (new_forward now i h m p fa amt ass la)"
  "created_at (new_forward now i h m p fa amt ass la) = now"
  "updated_at (new_forward now i h m p fa amt ass la) = now"
  "row_dated (new_forward now i h m p fa amt ass la)"
  by (simp_all add: new_forward_def row_ok_def holds_hash_def row_dated_def)

lemma insert_base:
  assumes "base net db"
  shows "base net (snd (insert_forward_stmt now h m p fa amt ass la db))"
proof -
  let ?r = "new_forward now (next_fwd_id db) h m p fa amt ass la"
  have "set (forwards (snd (insert_forward_stmt now h m p fa amt ass la db))) \<subseteq> insert ?r (set (forwards db))"
    by (auto simp: insert_forward_stmt_def insert_unless_def)
  then have "exclusive_hashes (snd (insert_forward_stmt now h m p fa amt ass la db))"
    "\<forall>r \<in> set (forwards (snd (insert_forward_stmt now h m p fa amt ass la db))). row_ok net r"
    using assms new_forward_row(2,3) [of _ now "next_fwd_id db" h m p fa amt ass la]
    unfolding base_def exclusive_hashes_def by blast+
  then show ?thesis using assms insert_forward_wf by (simp add: base_def)
qed

lemma insert_inv_step:
  assumes mono: "strict_mono (db_now e)" and v: "queued v = queued w" "tick v = Suc (tick w)"
    "dep v = snd (insert_forward_stmt (db_now e (tick w)) h m p fa amt ass la (dep w))"
  shows "inv_step e net ts w v"
  unfolding inv_step_def
proof (intro impI)
  assume inv: "world_inv e net w" and snaps: "\<forall>r \<in> set ts. snapshot_ok w r"
  let ?now = "db_now e (tick w)"
  let ?r = "new_forward ?now (next_fwd_id (dep w)) h m p fa amt ass la"
  have row: "fwd_row (dep v) h' = (case fwd_row (dep w) h' of Some r \<Rightarrow> Some r
      | None \<Rightarrow> if h' = h then Some ?r else None)" for h'
    by (simp add: v(3) insert_forward_row)
  have later: "?now < db_now e (tick v)" using mono v(2) by (simp add: strict_mono_less)
  have absent: "unpaid net h' (queued w)" if "fwd_row (dep w) h' = None" for h'
    using inv that unfolding world_inv_def payment_inv_def accounted_def unpaid_def
    by (metis option.distinct(1))
  have "payment_inv net v"
    unfolding payment_inv_def
  proof (intro conjI allI)
    show "base net (dep v)"
      using inv insert_base unfolding v(3) world_inv_def payment_inv_def by blast
    show "accounted net h' (dep v) (queued v)" for h'
    proof (cases "fwd_row (dep w) h'")
      case None
      then show ?thesis using absent [of h'] v(1) by (auto simp: accounted_def unpaid_def)
    next
      case (Some r)
      then show ?thesis
        using inv v(1) unfolding world_inv_def payment_inv_def accounted_def row [of h']
        by (metis option.case(2))
    qed
  qed
  moreover have "clock_ok e v"
    unfolding clock_ok_def
  proof (intro allI impI)
    fix h' r
    assume r: "fwd_row (dep v) h' = Some r"
    have "row_dated r \<and> updated_at r \<le> ?now"
    proof (cases "fwd_row (dep w) h'")
      case None
      then have "r = ?r" using r row [of h'] by (simp split: if_splits)
      then show ?thesis using new_forward_row(5,6) by simp
    next
      case (Some a)
      then have "fwd_row (dep w) h' = Some r" using r row [of h'] by simp
      then show ?thesis using inv by (auto simp: world_inv_def clock_ok_def less_imp_le)
    qed
    then show "row_dated r \<and> updated_at r < db_now e (tick v)" using later by simp
  qed
  moreover have "untouched_ok net v"
    unfolding untouched_ok_def
  proof (intro allI impI)
    fix h' r
    assume r: "fwd_row (dep v) h' = Some r" "updated_at r = created_at r"
    show "unpaid net h' (queued v)"
      using r inv absent [of h'] unfolding row v(1)
      by (auto simp: world_inv_def untouched_ok_def split: option.splits if_splits)
  qed
  moreover have "snapshot_ok v r" if "r \<in> set ts" for r
    using snaps that by (auto simp: snapshot_ok_def row)
  ultimately show "world_inv e net v \<and> (\<forall>r \<in> set ts. snapshot_ok v r)"
    by (simp add: world_inv_def)
qed

lemma wp_save_cursor: "wp (save_cursor e pool tok) (\<lambda>_. bystander w) w"
proof -
  have "wp (dep_stmt e (\<lambda>now. upsert_cursor_stmt now pool tok)) (\<lambda>_. bystander w) w"
    by (rule wp_bystander_stmt) (simp_all add: intent_stmts_wf)
  then show ?thesis by (simp add: save_cursor_def upsert_cursor_def exec_def)
qed

lemma wp_handle_inv:
  assumes "strict_mono (db_now e)"
  shows "wp (handle e pool op) (\<lambda>_. inv_step e net ts w) w"
proof -
  have save: "wp (save_cursor e pool tok) (\<lambda>_. inv_step e net ts w) v" if "inv_step e net ts w v" for tok v
    by (rule wp_mono [OF wp_save_cursor])
      (use that bystander_inv_step [OF _ assms] inv_step_trans in blast)
  have start: "inv_step e net ts w w" by (simp add: inv_step_def)
  have insert: "wp (insert_forward e h m pool fa amt ass la) (\<lambda>_. inv_step e net ts w) w" for h m fa amt ass la
    unfolding insert_forward_def wp_bind wp_return
    by (rule wp_dep_stmt)
      (use insert_inv_step [OF assms] bystander_inv_step [OF _ assms] in \<open>auto simp: bystander_def\<close>)
  have "inv_step e net ts w (v\<lparr>tick := Suc (tick v)\<rparr>)" if "inv_step e net ts w v" for v
    using that bystander_inv_step [OF bystander_tick assms] inv_step_trans by blast
  note ticked = this
  show ?thesis
    unfolding handle_def Let_def dispatch_def
  proof (intro wp_optionI, goal_cases)
    case (3 p tx)
    show ?case
    proof (rule wp_bindI [OF insert], goal_cases)
      case (1 r v)
      then show ?case using save ticked by (simp split: sum.split bool.split)
    qed
  qed (simp_all add: save start)
qed

text \<open>A row that has been written since its insertion stays so.\<close>

definition touched :: "runtime \<Rightarrow> string \<Rightarrow> bridge_world \<Rightarrow> bool" where
  "touched e h w \<longleftrightarrow> clock_ok e w \<and> (\<exists>r. fwd_row (dep w) h = Some r \<and> created_at r < updated_at r)"

lemma touched_kept:
  assumes "strict_mono (db_now e)" "evolves e h w v" "touched e h w"
  shows "touched e h v"
  using assms by (auto simp: touched_def evolves_def grew_def)

lemma claimed_touched:
  assumes "strict_mono (db_now e)" "clock_ok e w" "fwd_row (dep w) h = Some r" "c r"
    and v: "tick v = Suc (tick w)" "dep v = snd (update_forward h c (touch_row (db_now e (tick w))) (dep w))"
  shows "touched e h v"
proof -
  let ?v = "w\<lparr>tick := Suc (tick w), dep := dep v\<rparr>"
  have "evolves e h w ?v" unfolding v(2) by (intro evolves_row row_op_intros)
  then have "clock_ok e v" using assms(1,2) v(1) by (simp add: evolves_def clock_ok_def)
  moreover have "fwd_row (dep v) h = Some (touch_row (db_now e (tick w)) r)"
    using assms(3,4) by (simp add: v(2) touch.row_after)
  moreover have "row_dated r" "updated_at r < db_now e (tick w)"
    using assms(2,3) unfolding clock_ok_def by blast+
  ultimately show ?thesis by (auto simp: touched_def touch_row_def row_dated_def)
qed

lemma clock_wf_result:
  assumes "payment_inv net w"
  shows "db_wf (dep w)"
  using assms by (simp add: payment_inv_def base_def)

text \<open>After a claim: taken and so touched, or nothing was sent.\<close>

lemma wp_claims_touch:
  assumes mono: "strict_mono (db_now e)" and clk: "clock_ok e w" and wf: "db_wf (dep w)"
  shows "wp (claim_new_forward e h) (\<lambda>c v. queued v = queued w \<and> (c = Inr True \<longrightarrow> touched e h v)) w"
    and "wp (claim_pending_forward e h seen) (\<lambda>c v. queued v = queued w \<and> (c = Inr True \<longrightarrow> touched e h v)) w"
proof -
  show "wp (claim_new_forward e h) (\<lambda>c v. queued v = queued w \<and> (c = Inr True \<longrightarrow> touched e h v)) w"
    unfolding claim_new_forward_def wp_bind wp_return
    by (rule wp_dep_stmt)
      (use claimed_touched [OF mono clk, where c = "\<lambda>r. status r = StatusPending \<and> updated_at r = created_at r"]
       in \<open>auto simp: wrap_err_def claim_stmts_view claim_new_result [OF wf]\<close>)
  show "wp (claim_pending_forward e h seen) (\<lambda>c v. queued v = queued w \<and> (c = Inr True \<longrightarrow> touched e h v)) w"
    unfolding claim_pending_forward_def wp_bind wp_return
    by (rule wp_dep_stmt)
      (use claimed_touched [OF mono clk, where c = "\<lambda>r. status r = StatusPending \<and> updated_at r = seen"]
       in \<open>auto simp: wrap_err_def claim_stmts_view claim_pending_result [OF wf]\<close>)
qed

lemma wp_evolves_touched:
  assumes "ev.keeps e h m" "strict_mono (db_now e)" "touched e h w"
  shows "wp m (\<lambda>_. touched e h) w"
  using assms touched_kept [OF assms(2)] unfolding ev.keeps_def wp_def case_prod_beta by blast

lemma wp_forward_touches:
  assumes mono: "strict_mono (db_now e)" and clk: "clock_ok e w" and wf: "db_wf (dep w)"
  shows "wp (forward_recorded e k cfg pool job)
    (\<lambda>_ v. touched e (job_tx_hash job) v \<or> queued v = queued w) w"
proof -
  let ?w = "w\<lparr>tick := Suc (tick w)\<rparr>"
  have "clock_ok e ?w"
    using ev.tick [of e "job_tx_hash job" w] mono clk by (simp add: evolves_def)
  note claim = wp_claims_touch(1) [OF mono this, of "job_tx_hash job"]
  show ?thesis
    unfolding forward_recorded_def wp_bind wp_ask
  proof (rule wp_mono [OF claim], goal_cases)
    case 1
    then show ?case using wf by simp
  next
    case (2 c v)
    then show ?case
      using wp_mono [OF wp_evolves_touched [OF ev.keeps_forward_claimed [OF refl] mono]]
      by (intro wp_ifI) auto
  qed
qed

lemma wp_retry_touches:
  assumes mono: "strict_mono (db_now e)" and clk: "clock_ok e w" and wf: "db_wf (dep w)"
    and snap: "snapshot_ok w fwd"
  shows "wp (retry e k cfg fwd) (\<lambda>_ v. touched e (tx_hash fwd) v \<or> queued v = queued w) w"
proof -
  let ?h = "tx_hash fwd"
  have "wp (if status fwd = StatusPending then claim_pending_forward e ?h (updated_at fwd) else ret (Inr True))
    (\<lambda>c v. queued v = queued w \<and> (c = Inr True \<longrightarrow> touched e ?h v)) w"
  proof (rule wp_ifI [OF wp_claims_touch(2) [OF mono clk wf]])
    assume "status fwd \<noteq> StatusPending"
    then have "fwd_row (dep w) ?h = Some fwd" using snap by (auto simp: snapshot_ok_def)
    moreover from this have "row_dated fwd" using clk unfolding clock_ok_def by blast
    ultimately have "touched e ?h w"
      using clk \<open>status fwd \<noteq> StatusPending\<close> by (auto simp: touched_def row_dated_def)
    then show "wp (ret (Inr True)) (\<lambda>c v. queued v = queued w \<and> (c = Inr True \<longrightarrow> touched e ?h v)) w"
      by simp
  qed
  then show ?thesis
    unfolding retry_def
  proof (rule wp_bindI, goal_cases)
    case (1 c v)
    then show ?case
      using wp_mono [OF wp_evolves_touched [OF ev.keeps_retry_claimed [OF refl] mono]]
      by (intro wp_ifI) auto
  qed
qed

text \<open>A worker leaves a deposit alone that is past its first attempt.\<close>

lemma wp_forward_leaves:
  assumes wf: "db_wf (dep w)" and row: "fwd_row (dep w) (job_tx_hash job) = Some r" "status r \<noteq> StatusPending"
  shows "wp (forward_recorded e k cfg pool job) (\<lambda>_ v. fwd_row (dep v) (job_tx_hash job) = Some r) w"
proof -
  have "wp (claim_new_forward e (job_tx_hash job))
    (\<lambda>c v. fwd_row (dep v) (job_tx_hash job) = Some r \<and> c \<noteq> Inr True) (w\<lparr>tick := Suc (tick w)\<rparr>)"
    unfolding claim_new_forward_def wp_bind wp_return
    by (rule wp_dep_stmt)
      (use row wf in \<open>auto simp: wrap_err_def claim_new_row claim_new_result\<close>)
  then show ?thesis
    unfolding forward_recorded_def wp_bind wp_ask by (rule wp_mono) simp
qed

text \<open>What a worker's run on \<open>h\<close> does to the invariant, given the pieces above.\<close>

lemma own_run_world_inv:
  assumes mono: "strict_mono (db_now e)" and inv: "world_inv e net w" and pay: "payment_inv net v"
    and ev: "evolves e h w v" and fr: "frame h w v" and own: "touched e h v \<or> queued v = queued w"
  shows "world_inv e net v"
proof -
  have clk: "clock_ok e v" and g: "grew (fwd_row (dep w) h) (fwd_row (dep v) h)"
    using mono inv ev by (simp_all add: world_inv_def evolves_def)
  have "unpaid net h' (queued v)" if r: "fwd_row (dep v) h' = Some r" "updated_at r = created_at r" for h' r
  proof (cases "h' = h")
    case False
    then have row: "fwd_row (dep w) h' = Some r"
      and q: "filter (\<lambda>p. fst p = h') (queued v) = filter (\<lambda>p. fst p = h') (queued w)"
      using fr r by (auto simp: frame_def)
    have same: "(h', x) \<in> set (queued v) \<longleftrightarrow> (h', x) \<in> set (queued w)" for x
    proof -
      have "(h', x) \<in> set l \<longleftrightarrow> (h', x) \<in> set (filter (\<lambda>p. fst p = h') l)" for l by simp
      then show ?thesis using q by metis
    qed
    have "unpaid net h' (queued w)"
      using inv row r(2) unfolding world_inv_def untouched_ok_def by blast
    then show ?thesis unfolding unpaid_def same .
  next
    case True
    then have "queued v = queued w" using own r by (auto simp: touched_def)
    moreover obtain a where a: "fwd_row (dep w) h = Some a" "created_at r = created_at a"
      "r = a \<or> updated_at a < updated_at r"
      using g r True by (auto simp: grew_def split: option.splits)
    moreover have "created_at a \<le> updated_at a"
      using inv a(1) unfolding world_inv_def clock_ok_def row_dated_def by blast
    ultimately have "updated_at a = created_at a" using r(2) by auto
    then show ?thesis
      using inv a(1) True \<open>queued v = queued w\<close> unfolding world_inv_def untouched_ok_def by metis
  qed
  then show ?thesis using pay clk by (simp add: world_inv_def untouched_ok_def)
qed

lemma snapshot_other:
  assumes "frame h w v" "tx_hash r \<noteq> h" "snapshot_ok w r"
  shows "snapshot_ok v r"
  using assms by (simp add: frame_def snapshot_ok_def)

lemma snapshot_own:
  assumes "grew (fwd_row (dep w) h) (fwd_row (dep v) h)" "tx_hash r = h" "status r = StatusPending"
    "snapshot_ok w r"
  shows "snapshot_ok v r"
  using assms by (auto simp: snapshot_ok_def grew_def split: option.splits)

lemma work_inv:
  assumes net: "honest_network e k cfg net" and mono: "strict_mono (db_now e)" and inv: "bridge_inv e net s"
    and run: "run_state (forward_recorded e k cfg pool j) (world s) = (u, v)"
  shows "bridge_inv e net (s\<lparr>world := v, jobs := js\<rparr>)"
proof -
  let ?w = "world s" and ?h = "job_tx_hash j"
  have w: "world_inv e net ?w" "payment_inv net ?w" "clock_ok e ?w" "untouched_ok net ?w"
    and todo: "\<forall>r \<in> set (todo s). snapshot_ok ?w r \<and> row_ok net r" "distinct (map tx_hash (todo s))"
    using inv by (simp_all add: bridge_inv_def world_inv_def)
  note wf = clock_wf_result [OF w(2)]
  have fresh: "unpaid net ?h (queued ?w)" if "fwd_row (dep ?w) ?h = Some r" "updated_at r = created_at r" for r
    using w(4) that unfolding untouched_ok_def by blast
  have pay: "payment_inv net v"
    by (rule wp_run [OF run wp_forward_recorded [OF net w(2)]]) (rule fresh)
  have ev: "evolves e ?h ?w v" by (rule ev.keepsD [OF ev.keeps_forward_recorded [OF refl] run])
  have fr: "frame ?h ?w v" by (rule fr.keepsD [OF fr.keeps_forward_recorded [OF refl] run])
  have own: "touched e ?h v \<or> queued v = queued ?w"
    using wp_run [OF run wp_forward_touches [OF mono w(3) wf]] .
  have "snapshot_ok v r" if r: "r \<in> set (todo s)" for r
  proof (cases "tx_hash r = ?h \<and> status r \<noteq> StatusPending")
    case True
    then have row: "fwd_row (dep ?w) ?h = Some r" using todo(1) r by (force simp: snapshot_ok_def)
    then have "fwd_row (dep v) ?h = Some r"
      using wp_run [OF run wp_forward_leaves [OF wf row]] True by blast
    then show ?thesis using todo(1) r True by (auto simp: snapshot_ok_def)
  next
    case False
    moreover have "grew (fwd_row (dep ?w) ?h) (fwd_row (dep v) ?h)"
      using ev mono w(3) by (simp add: evolves_def)
    ultimately show ?thesis using todo(1) r snapshot_own snapshot_other [OF fr] by blast
  qed
  then show ?thesis
    using own_run_world_inv [OF mono w(1) pay ev fr own] todo by (simp add: bridge_inv_def world_inv_def)
qed

lemma retry_inv:
  assumes net: "honest_network e k cfg net" and mono: "strict_mono (db_now e)" and inv: "bridge_inv e net s"
    and todo: "todo s = fwd # fwds" and run: "run_state (retry e k cfg fwd) (world s) = (u, v)"
  shows "bridge_inv e net (s\<lparr>world := v, todo := fwds\<rparr>)"
proof -
  let ?w = "world s" and ?h = "tx_hash fwd"
  have w: "world_inv e net ?w" "payment_inv net ?w" "clock_ok e ?w"
    and snap: "snapshot_ok ?w fwd" "row_ok net fwd"
    and rest: "\<forall>r \<in> set fwds. snapshot_ok ?w r \<and> row_ok net r \<and> tx_hash r \<noteq> ?h" "distinct (map tx_hash fwds)"
    using inv todo by (auto simp: bridge_inv_def world_inv_def rev_image_eqI)
  have until: "submitted_until fwd = Some (from_unix (max_time_of net x))" if "submitted_tx fwd = Some x" for x
    using snap(2) that by (simp add: row_ok_def)
  have pay: "payment_inv net v" using wp_run [OF run wp_retry [OF net w(2) snap(1) until]] by blast
  have ev: "evolves e ?h ?w v" by (rule ev.keepsD [OF ev.keeps_retry [OF refl] run])
  have fr: "frame ?h ?w v" by (rule fr.keepsD [OF fr.keeps_retry [OF refl] run])
  have own: "touched e ?h v \<or> queued v = queued ?w"
    using wp_run [OF run wp_retry_touches [OF mono w(3) clock_wf_result [OF w(2)] snap(1)]] .
  have "world_inv e net v" by (rule own_run_world_inv [OF mono w(1) pay ev fr own])
  then show ?thesis
    using rest snapshot_other [OF fr] by (auto simp: bridge_inv_def world_inv_def)
qed

lemma inv_step_state:
  assumes "bridge_inv e net s" "inv_step e net (todo s) (world s) v"
  shows "bridge_inv e net (s\<lparr>world := v, jobs := js\<rparr>)" "bridge_inv e net (s\<lparr>world := v\<rparr>)"
  using assms by (auto simp: bridge_inv_def inv_step_def world_inv_def)

lemma fetch_inv:
  assumes mono: "strict_mono (db_now e)" and inv: "bridge_inv e net s"
    and run: "run_state (retry_tick e) (world s) = (fwds, v)"
  shows "bridge_inv e net (s\<lparr>world := v, todo := fwds\<rparr>)"
proof -
  have pay: "payment_inv net (world s)" using inv by (simp add: bridge_inv_def)
  note wf = clock_wf_result [OF pay]
  have post: "bystander (world s) v" "distinct (map tx_hash fwds)"
    "\<forall>r \<in> set fwds. r \<in> set (forwards (dep (world s))) \<and> (\<exists>now. retryable now r)"
    using wp_run [OF run wp_retry_tick [OF wf]] by simp_all
  have "inv_step e net [] (world s) v" by (rule bystander_inv_step [OF post(1) mono])
  then have "world_inv e net v" using inv by (simp add: inv_step_def world_inv_def bridge_inv_def)
  moreover have "forwards (dep v) = forwards (dep (world s))" "db_wf (dep v)"
    using post(1) wf by (simp_all add: bystander_def)
  ultimately show ?thesis
    using post(2,3) fwd_row_mem [of "dep v"]
    by (auto simp: bridge_inv_def world_inv_def snapshot_ok_def retryable_def payment_inv_def base_def db_wf_def)
qed

lemma bridge_step_inv:
  assumes net: "honest_network e k cfg net" and mono: "strict_mono (db_now e)"
    and inv: "bridge_inv e net s" and step: "bridge_step e k cfg s s'"
  shows "bridge_inv e net s'"
  using step
proof cases
  case (watch pool op r w)
  then show ?thesis
    using inv_step_state(1) [OF inv wp_run [OF watch(2) wp_handle_inv [OF mono]]] by simp
next
  case (work pool j js u w)
  then show ?thesis using work_inv [OF net mono inv] by (simp add: forward_job_run_def)
next
  case (fetch fwds w)
  then show ?thesis using fetch_inv [OF mono inv] by simp
next
  case (retry fwd fwds u w)
  then show ?thesis using retry_inv [OF net mono inv] by simp
next
  case (mint c_addr pool expected expires ext r w)
  then show ?thesis
    using inv_step_state(2) [OF inv bystander_inv_step [OF wp_run [OF mint(2) wp_create_intent] mono]] by simp
next
  case (bind_order m ext r' w)
  then show ?thesis
    using inv_step_state(2) [OF inv bystander_inv_step [OF wp_run [OF bind_order(2) wp_set_external_id] mono]] by simp
next
  case (channels_change c)
  have "bystander (world s) ((world s)\<lparr>channels := c\<rparr>)" by (simp add: bystander_def)
  then show ?thesis
    using inv_step_state(2) [OF inv bystander_inv_step [OF _ mono]] channels_change by simp
next
  case restart
  have "bystander (world s) ((world s)\<lparr>seqs := Map.empty\<rparr>)" by (simp add: bystander_def)
  then have "inv_step e net [] (world s) ((world s)\<lparr>seqs := Map.empty\<rparr>)"
    using bystander_inv_step mono by blast
  then show ?thesis using inv restart by (auto simp: bridge_inv_def inv_step_def world_inv_def)
qed

section \<open>Properties of the bridge\<close>

lemma bridge_init_inv: "bridge_init s \<Longrightarrow> bridge_inv e net s"
  by (simp add: bridge_init_def bridge_inv_def payment_inv_def base_def exclusive_hashes_def
      accounted_def clock_ok_def untouched_ok_def fwd_row_def select_one_def)

text \<open>The contract is met by the invariant of the bridge, guarded by what is assumed outside it.\<close>

interpretation br: bridge_invariant e k cfg
  "\<lambda>s. honest_network e k cfg net \<longrightarrow> strict_mono (db_now e) \<longrightarrow> bridge_inv e net s" for e k cfg net
  by unfold_locales (auto simp: bridge_init_inv bridge_step_inv)

lemma reachable_inv:
  assumes "honest_network e k cfg net" "strict_mono (db_now e)" "bridge_reachable e k cfg s"
  shows "payment_inv net (world s)"
  using br.holds [OF assms(3)] assms(1,2) by (auto simp: bridge_inv_def)


text \<open>
  C2: a deposit is reported done or swept only when its transfer landed. In every reachable
  state, a row with status \<open>done\<close> or \<open>swept\<close> names an outbound transaction that moved funds, and
  a row with any other status names none.
\<close>

theorem settled_means_landed:
  assumes "honest_network e k cfg net" "strict_mono (db_now e)" "bridge_reachable e k cfg s"
    and "r \<in> set (forwards (dep (world s)))"
  shows "if status r = StatusDone \<or> status r = StatusSwept
    then \<exists>x. forward_tx r = Some x \<and> lands net x \<and> submitted_tx r = None
    else forward_tx r = None"
proof -
  have "row_ok net r"
    using reachable_inv [OF assms(1,2,3)] assms(4) by (simp add: payment_inv_def base_def)
  then show ?thesis by (auto simp: row_ok_def)
qed

text \<open>
  C3: a transfer that lands is never forgotten. In every reachable state, if a transaction sent
  for a deposit lands, the deposit's row holds it: as its settled transfer, or as the submission
  the retry worker will look up before building anything else.
\<close>

theorem landed_transfer_on_record:
  assumes "honest_network e k cfg net" "strict_mono (db_now e)" "bridge_reachable e k cfg s"
    and "(h, x) \<in> set (queued (world s))" "lands net x"
  shows "\<exists>r. fwd_row (dep (world s)) h = Some r \<and>
    (status r = StatusDone \<and> forward_tx r = Some x \<or> status r = StatusSwept \<and> forward_tx r = Some x \<or>
     submitted_tx r = Some x \<and> submitted_until r = Some (from_unix (max_time_of net x)))"
proof -
  note inv = reachable_inv [OF assms(1,2,3)]
  obtain r where r: "fwd_row (dep (world s)) h = Some r" "holds_hash x r"
    using inv assms(4,5) unfolding payment_inv_def accounted_def by blast
  moreover have "row_ok net r"
    using inv fwd_row_key [OF r(1)] by (auto simp: payment_inv_def base_def)
  ultimately show ?thesis by (auto simp: row_ok_def holds_hash_def)
qed

text \<open>
  C13: a run touches only its deposit. A forward worker's run and a retry on one deposit leave the
  rows and the transfers of every other deposit, and the saved cursors, exactly as they were; and
  each intent keeps its C-address, pool, expiry and order id, moving only from pending to failed,
  or from pending or expired to completed.
\<close>

theorem run_touches_only_its_deposit:
  "frame (job_tx_hash j) w (snd (run_state (forward_recorded e k cfg pool j) w)) \<and>
   intents_move w (snd (run_state (forward_recorded e k cfg pool j) w)) \<and>
   frame (tx_hash fwd) w (snd (run_state (retry e k cfg fwd) w)) \<and>
   intents_move w (snd (run_state (retry e k cfg fwd) w))"
  using fr.keeps_forward_recorded [OF refl] mv.keeps_forward_recorded [OF refl]
    fr.keeps_retry [OF refl] mv.keeps_retry [OF refl]
  unfolding fr.keeps_def mv.keeps_def by simp

section \<open>A concrete run\<close>

text \<open>
  A network on which every transaction lands, a runtime whose calls all succeed, and one deposit
  with no usable memo: it is recorded, taken by a worker, swept to recovery and marked swept.
\<close>

definition demo_env :: tx_envelope where
  "demo_env = base_envelope ''POOL'' 8 (Payment ''RECOVERY'' ''5'' NativeAsset ''POOL'') None (120 * second)"

definition demo_sdk :: sdk where
  "demo_sdk =
     \<lparr>code_string = (\<lambda>c. []), decode_result_xdr = (\<lambda>x. BadXDR ''no''), decode_soroban_data = (\<lambda>x. BadXDR ''no''),
      payment_to_contract_error = (\<lambda>op. None), new_transaction_error = (\<lambda>env. None),
      marshal_base64 = (\<lambda>env. if env = demo_env then Inr ''ENV'' else Inl ''no''),
      tx_from_xdr = (\<lambda>b. Inr (Some demo_env)), sign_error = (\<lambda>p ks env. None),
      tx_base64 = (\<lambda>stx. Inr ''SIGNED''),
      tx_hash_hex = (\<lambda>p stx. if env_max_time (stx_env stx) = 120 then Inr ''OUT'' else Inl ''no''),
      set_address_error = (\<lambda>a. None), fb_marshal_base64 = (\<lambda>fb. Inl ''no''), fb_from_xdr = (\<lambda>b. Inl ''no''),
      fb_sign_error = (\<lambda>p kp fb. None), fb_base64 = (\<lambda>fb. Inl ''no''), fb_hash_hex = (\<lambda>p fb. Inl ''no'')\<rparr>"

definition demo_network :: network where
  "demo_network = \<lparr>landed_in = (\<lambda>x. Some 60), max_time_of = (\<lambda>x. 120)\<rparr>"

definition demo_config :: bridge_config where
  "demo_config =
     \<lparr>network_passphrase = ''net'', recovery_address = ''RECOVERY'', accepted_assets = [''native''],
      pool_accounts = [\<lparr>pa_address = ''POOL'', pa_keypair = \<lparr>kp_address = ''POOL'', kp_seed = ''S''\<rparr>\<rparr>],
      instance_id = ''i1'', channel_keys = None\<rparr>"

definition demo_deposit :: hz_operation where
  "demo_deposit =
     \<lparr>op_body = OpPayment
        \<lparr>pay_id = ''1'', pay_tx_hash = ''IN'', pay_from = ''G'', pay_to = ''POOL'', pay_to_muxed = [],
         pay_to_muxed_id = 0, pay_amount = ''5'', pay_asset_type = ''native'', pay_asset_code = [],
         pay_asset_issuer = [], pay_close_time = 0,
         pay_transaction = Some \<lparr>memo_type = ''none'', memo_text = [], operation_count = 1\<rparr>\<rparr>,
      paging_token = ''77''\<rparr>"

definition demo_start :: bridge_state where
  "demo_start =
     \<lparr>world = \<lparr>tick = 0, channels = \<lparr>ch_rows = [], next_ch_id = 1\<rparr>,
               dep = \<lparr>intents = [], forwards = [], cursors = [], next_fwd_id = 1\<rparr>,
               seqs = Map.empty, queued = []\<rparr>,
      jobs = [], todo = []\<rparr>"

definition demo_job :: forward_job where
  "demo_job = \<lparr>job_tx_hash = ''IN'', job_landed_at = 0, job_memo_id = 0, job_from = ''G'', job_amount = ''5'',
     job_asset = ''native''\<rparr>"

definition demo_recorded :: bridge_state where
  "demo_recorded = demo_start\<lparr>world := snd (run_state (handle demo_runtime ''POOL'' demo_deposit) (world demo_start)),
     jobs := [(''POOL'', demo_job)]\<rparr>"

definition demo_done :: bridge_state where
  "demo_done = demo_recorded\<lparr>world := snd (run_state (forward_job_run demo_runtime demo_sdk demo_config ''POOL'' demo_job)
     (world demo_recorded)), jobs := []\<rparr>"

lemma demo_honest: "honest_network demo_runtime demo_sdk demo_config demo_network"
  by (auto simp: honest_network_def bounds_respected_def rpc_truthful_def rpc_complete_def hash_binds_def
      send_echoes_def tx_codec_ok_def fb_codec_ok_def lands_def demo_runtime_def demo_sdk_def
      demo_config_def demo_network_def Let_def)

lemma demo_clock: "strict_mono (db_now demo_runtime)"
  by (simp add: demo_runtime_def Let_def strict_mono_def)

lemma demo_handled:
  "h_job (fst (run_state (handle demo_runtime ''POOL'' demo_deposit) (world demo_start))) = Some demo_job"
  by code_simp

lemma demo_reachable: "bridge_reachable demo_runtime demo_sdk demo_config demo_done"
proof -
  have "bridge_init demo_start"
    by (simp add: bridge_init_def demo_start_def db_wf_def)
  then have "bridge_reachable demo_runtime demo_sdk demo_config demo_start" by (rule start)
  moreover have "bridge_step demo_runtime demo_sdk demo_config demo_start demo_recorded"
    using bridge_step.watch [OF prod.collapse [symmetric], where s = demo_start and pool = "''POOL''"
        and op = demo_deposit and e = demo_runtime and k = demo_sdk and cfg = demo_config]
    by (simp add: demo_handled demo_recorded_def) (simp add: demo_start_def forward_queue_def)
  moreover have "bridge_step demo_runtime demo_sdk demo_config demo_recorded demo_done"
    unfolding demo_done_def
    by (rule bridge_step.work [OF _ prod.collapse [symmetric]]) (simp add: demo_recorded_def)
  ultimately show ?thesis by (meson step)
qed

lemma demo_queued: "queued (world demo_done) = [(''IN'', ''OUT'')]"
  by code_simp

lemma demo_rows: "map (\<lambda>r. (tx_hash r, status r, forward_tx r)) (forwards (dep (world demo_done))) =
    [(''IN'', StatusSwept, Some ''OUT'')]"
  by code_simp


theorem settled_means_landed_witness:
  "\<exists>r. forwards (dep (world demo_done)) = [r] \<and> status r = StatusSwept \<and>
     lands demo_network (the (forward_tx r))"
proof -
  obtain r where r: "forwards (dep (world demo_done)) = [r]" "status r = StatusSwept"
    using demo_rows by (auto simp: map_eq_Cons_conv)
  then have "lands demo_network (the (forward_tx r))"
    using settled_means_landed [OF demo_honest demo_clock demo_reachable, of r] by auto
  with r show ?thesis by blast
qed

theorem landed_transfer_on_record_witness:
  "\<exists>r. fwd_row (dep (world demo_done)) ''IN'' = Some r \<and> holds_hash ''OUT'' r"
  using landed_transfer_on_record [OF demo_honest demo_clock demo_reachable, of "''IN''" "''OUT''"] demo_queued
  by (auto simp: lands_def demo_network_def holds_hash_def)

end
