(* ===== verification/Boot.thy ===== *)
theory Boot
  imports Startup Migrations Bridge
begin

text \<open>
  How the deposit bridge comes up: \<open>Connect\<close> of \<open>internal/db\<close>, and the steps of \<open>main\<close> in \<open>cmd/serve\<close> from the
  configuration to the background workers. The theorem says what the forwarder, the schema and the
  connection pool are like when \<open>main\<close> gets that far.
\<close>

section \<open>The connection pool\<close>

record pool_options =
  opt_max_conns :: int
  opt_min_conns :: int

record pool_settings =
  ps_max_conns :: int
  ps_min_conns :: int
  ps_max_lifetime :: duration
  ps_max_idle :: duration
  ps_health_check :: duration

text \<open>The driver: settings parsed from an URL, and the errors of opening and of pinging a pool.\<close>

record pg_driver =
  parse_url :: "string \<Rightarrow> string + pool_settings"
  open_pool :: "pool_settings \<Rightarrow> string option"
  ping_pool :: "pool_settings \<Rightarrow> string option"

definition pool_settings_of :: "pool_options \<Rightarrow> pool_settings \<Rightarrow> pool_settings" where
  "pool_settings_of opts c =
     c\<lparr>ps_max_conns := (if 0 < opt_max_conns opts then opt_max_conns opts else ps_max_conns c),
       ps_min_conns := (if 0 < opt_min_conns opts then opt_min_conns opts else ps_min_conns c),
       ps_max_lifetime := 30 * minute, ps_max_idle := 5 * minute, ps_health_check := 30 * second\<rparr>"

definition connect :: "pg_driver \<Rightarrow> string \<Rightarrow> pool_options \<Rightarrow> string + pool_settings" where
  "connect d url opts =
     (case parse_url d url of
        Inl m \<Rightarrow> Inl (''parse database url: '' @ m)
      | Inr c0 \<Rightarrow>
          (let c = pool_settings_of opts c0 in
           case open_pool d c of
             Some m \<Rightarrow> Inl (''open pool: '' @ m)
           | None \<Rightarrow>
               (case ping_pool d c of
                  Some m \<Rightarrow> Inl (''ping database: '' @ m)
                | None \<Rightarrow> Inr c)))"

lemma connect_sizes:
  "connect d url opts = Inr c \<Longrightarrow> 0 < opt_max_conns opts \<Longrightarrow> 0 < opt_min_conns opts \<Longrightarrow>
    ps_max_conns c = opt_max_conns opts \<and> ps_min_conns c = opt_min_conns opts \<and> ping_pool d c = None"
  by (auto simp: connect_def pool_settings_of_def Let_def split: sum.splits option.splits)

section \<open>Main\<close>

text \<open>\<open>forwarder.New\<close>: without channels.\<close>

definition forwarder_of :: "deposit_config \<Rightarrow> bridge_config" where
  "forwarder_of g =
     \<lparr>network_passphrase = cc_passphrase g, recovery_address = dc_recovery g, accepted_assets = dc_accepted g,
      pool_accounts = dc_pools g, instance_id = dc_instance g, channel_keys = None\<rparr>"

text \<open>
  \<open>main\<close> up to its workers: an error is \<open>os.Exit(1)\<close>; missing trustlines are only logged, and so are
  channels that cannot be used. \<open>db\<close> is what the migrations find, \<open>found\<close> what the ledger answers for the
  channel accounts.
\<close>

definition start_bridge ::
  "runtime \<Rightarrow> pg_driver \<Rightarrow> (string \<Rightarrow> 's \<Rightarrow> 's option) \<Rightarrow> migration_set \<Rightarrow> string + (string \<Rightarrow> ledger_account) \<Rightarrow>
   deposit_config \<Rightarrow> 's migrated \<Rightarrow> (string + bridge_config \<times> pool_settings \<times> 's migrated) bridge"
where
  "start_bridge e d sql mset found g db =
     (case connect d (database_url g) \<lparr>opt_max_conns = db_max_conns g, opt_min_conns = db_min_conns g\<rparr> of
        Inl m \<Rightarrow> ret (Inl (''database: connect: '' @ m))
      | Inr pool \<Rightarrow>
          (case run_migrations sql mset db of
             (Some m, db') \<Rightarrow> ret (Inl (''database: migrations: '' @ m))
           | (None, db') \<Rightarrow> do {
               warnings \<leftarrow> check_trustlines e (forwarder_of g);
               cfg \<leftarrow> (if dc_channels g = [] then ret (forwarder_of g)
                      else enable_channels e (dc_channels g) found (forwarder_of g));
               ret (Inr (cfg, pool, db')) }))"

section \<open>A bridge that comes up\<close>

lemma migrations_complete:
  assumes "run_migrations sql mset db = (None, db')" "load_set mset = Inr ms" "distinct (map fst (set_files mset))"
  shows "mig_version ` set ms \<subseteq> set (known db')"
proof -
  have "distinct (map mig_version ms)" by (rule load_set_distinct [OF assms(2,3)])
  from iffD1 [OF run_ok [OF assms(2) this] assms(1)]
  have "versions db' = Some (known db @ map mig_version (pending (known db) ms))" by (elim exE conjE) simp
  then have "known db' = known db @ map mig_version (pending (known db) ms)" by (simp add: known_def)
  then show ?thesis by auto
qed

text \<open>Channels change the forwarder only by their keys, and are used when one exists or nothing is known.\<close>

definition channel_use ::
  "string + (string \<Rightarrow> ledger_account) \<Rightarrow> channel_key list \<Rightarrow> bridge_config \<Rightarrow> bridge_config \<Rightarrow> bool"
where
  "channel_use found chans fc cfg \<longleftrightarrow> cfg = fc \<or>
     cfg = use_channels (map (\<lambda>ch. (ck_address ch, ck_keypair ch)) chans) fc \<and>
     (\<forall>accts. found = Inr accts \<longrightarrow> (\<exists>ch \<in> set chans. acct_exists (accts (ck_address ch))))"

lemma wp_enable_channels: "wp (enable_channels e chans found fc) (\<lambda>cfg _. channel_use found chans fc cfg) w"
  unfolding enable_channels_def Let_def wp_bind
proof (rule wp_runI)
  fix err and v :: bridge_world
  let ?on = "use_channels (map (\<lambda>ch. (ck_address ch, ck_keypair ch)) chans) fc"
  have "wp (record_live e accts chans) (\<lambda>n _. channel_use (Inr accts) chans fc (if n = 0 then fc else ?on)) v" for accts
    by (rule wp_mono [OF record_live_exists]) (auto simp: channel_use_def)
  then show "wp (case err of
        None \<Rightarrow> (case found of Inl m \<Rightarrow> ret ?on
                 | Inr accts \<Rightarrow> record_live e accts chans \<bind> (\<lambda>live. ret (if live = 0 then fc else ?on)))
      | Some m \<Rightarrow> ret fc) (\<lambda>cfg _. channel_use found chans fc cfg) v"
    by (cases err; cases found) (simp_all add: channel_use_def)
qed

lemma wp_start_bridge:
  "wp (start_bridge e d sql mset found g db) (\<lambda>r _. \<forall>cfg pool db'. r = Inr (cfg, pool, db') \<longrightarrow>
     connect d (database_url g) \<lparr>opt_max_conns = db_max_conns g, opt_min_conns = db_min_conns g\<rparr> = Inr pool \<and>
     run_migrations sql mset db = (None, db') \<and> channel_use found (dc_channels g) (forwarder_of g) cfg) w"
proof (cases "connect d (database_url g) \<lparr>opt_max_conns = db_max_conns g, opt_min_conns = db_min_conns g\<rparr>")
  case (Inr pool)
  obtain r db' where run: "run_migrations sql mset db = (r, db')" by fastforce
  show ?thesis
  proof (cases r)
    case None
    let ?Q = "\<lambda>cfg _. channel_use found (dc_channels g) (forwarder_of g) cfg"
    have chosen: "wp (if dc_channels g = [] then ret (forwarder_of g)
        else enable_channels e (dc_channels g) found (forwarder_of g)) ?Q v" for v
      using wp_enable_channels [of e "dc_channels g" found "forwarder_of g" v]
      by (cases "dc_channels g = []") (simp_all add: channel_use_def)
    show ?thesis
      unfolding start_bridge_def Inr run None sum.case prod.case option.case wp_bind wp_return
      by (rule wp_runI, rule wp_mono [OF chosen]) simp
  qed (simp add: start_bridge_def Inr run)
qed (simp add: start_bridge_def)


definition demo_driver :: pg_driver where
  "demo_driver =
     \<lparr>parse_url = (\<lambda>u. Inr \<lparr>ps_max_conns = 4, ps_min_conns = 0, ps_max_lifetime = 0, ps_max_idle = 0, ps_health_check = 0\<rparr>),
      open_pool = (\<lambda>c. None), ping_pool = (\<lambda>c. None)\<rparr>"

definition demo_bridge_settings :: deposit_config where
  "demo_bridge_settings = projr (load_config demo_config_sdk demo_deposit_env)"

definition demo_booted :: "(string + bridge_config \<times> pool_settings \<times> string migrated) \<times> bridge_world" where
  "demo_booted = run_state (start_bridge demo_runtime demo_driver demo_sql demo_new (Inl ''unasked'')
     demo_bridge_settings \<lparr>schema = [], versions = None\<rparr>) (world demo_start)"


end
