(* ===== verification/Lifecycle.thy ===== *)
theory Lifecycle
  imports Prelude "HOL-Library.Multiset"
begin

text \<open>
  \<open>internal/lifecycle/tracker.go\<close>: the tracker that lets background work outlive the shutdown
  signal. A state holds the tracker's context, the counter of its \<open>WaitGroup\<close>, the tasks it has
  started, what they share, and where a call of \<open>Drain\<close> is; every rule is one action of a goroutine.
  What a task does is a parameter: \<open>act\<close> relates whether its context is cancelled, the shared state
  and the task's own state to the next ones, \<open>None\<close> being its return; \<open>env\<close> is what the rest of the
  program does to the shared state. The lemmas show that \<open>Drain\<close> returns only when every task that
  had been started has returned, and reports true only when none of them was cut off.
\<close>

section \<open>State\<close>

text \<open>A task that has ended remembers its last state and whether its context was cancelled when it returned.\<close>

datatype 'u task = Running 'u | Ended 'u bool

text \<open>
  \<open>Drain\<close>: in its first \<open>select\<close>; past the timeout, with the context cancelled, at the second
  receive; returned with a result.
\<close>

datatype drain_phase = NotCalled | Selecting | TimedOut | Returned bool

text \<open>
  \<open>done_closed\<close> is the channel \<open>done\<close>; \<open>asked\<close> is a ghost, the number of tasks started before
  \<open>Drain\<close> was called.
\<close>

record ('s, 'u) tracker =
  cancelled :: bool
  wg :: nat
  tasks :: "'u task list"
  shared :: 's
  drain_at :: drain_phase
  done_closed :: bool
  asked :: nat

definition new_tracker :: "'s \<Rightarrow> ('s, 'u) tracker" where
  "new_tracker s = \<lparr>cancelled = False, wg = 0, tasks = [], shared = s, drain_at = NotCalled,
     done_closed = False, asked = 0\<rparr>"

section \<open>Operations\<close>

definition tracker_go :: "'u \<Rightarrow> ('s, 'u) tracker \<Rightarrow> ('s, 'u) tracker" where
  "tracker_go u t = t\<lparr>wg := Suc (wg t), tasks := tasks t @ [Running u]\<rparr>"

definition drain_call :: "('s, 'u) tracker \<Rightarrow> ('s, 'u) tracker" where
  "drain_call t = t\<lparr>drain_at := Selecting, asked := length (tasks t)\<rparr>"

inductive tracker_step ::
  "(bool \<Rightarrow> 's \<Rightarrow> 'u \<Rightarrow> 's \<Rightarrow> 'u option \<Rightarrow> bool) \<Rightarrow> ('s \<Rightarrow> 's \<Rightarrow> bool) \<Rightarrow>
   ('s, 'u) tracker \<Rightarrow> ('s, 'u) tracker \<Rightarrow> bool"
  for act env
where
  run: "i < length (tasks t) \<Longrightarrow> tasks t ! i = Running u \<Longrightarrow> act (cancelled t) (shared t) u s (Some u') \<Longrightarrow>
    tracker_step act env t (t\<lparr>shared := s, tasks := (tasks t)[i := Running u']\<rparr>)"
| finish: "i < length (tasks t) \<Longrightarrow> tasks t ! i = Running u \<Longrightarrow> act (cancelled t) (shared t) u s None \<Longrightarrow>
    tracker_step act env t (t\<lparr>shared := s, wg := wg t - 1, tasks := (tasks t)[i := Ended u (cancelled t)]\<rparr>)"
| env: "env (shared t) s \<Longrightarrow> tracker_step act env t (t\<lparr>shared := s\<rparr>)"
| close: "drain_at t \<noteq> NotCalled \<Longrightarrow> wg t = 0 \<Longrightarrow> tracker_step act env t (t\<lparr>done_closed := True\<rparr>)"
| in_time: "drain_at t = Selecting \<Longrightarrow> done_closed t \<Longrightarrow>
    tracker_step act env t (t\<lparr>cancelled := True, drain_at := Returned True\<rparr>)"
| timeout: "drain_at t = Selecting \<Longrightarrow> tracker_step act env t (t\<lparr>cancelled := True, drain_at := TimedOut\<rparr>)"
| late: "drain_at t = TimedOut \<Longrightarrow> done_closed t \<Longrightarrow> tracker_step act env t (t\<lparr>drain_at := Returned False\<rparr>)"

text \<open>
  A run from a new tracker. \<open>Go\<close> may be called at any time, with a task of a kind \<open>entry\<close> allows, and
  \<open>Drain\<close> once.
\<close>

inductive tracker_run ::
  "(bool \<Rightarrow> 's \<Rightarrow> 'u \<Rightarrow> 's \<Rightarrow> 'u option \<Rightarrow> bool) \<Rightarrow> ('s \<Rightarrow> 's \<Rightarrow> bool) \<Rightarrow> ('u \<Rightarrow> bool) \<Rightarrow> 's \<Rightarrow>
   ('s, 'u) tracker \<Rightarrow> bool"
  for act env entry s0
where
  new: "tracker_run act env entry s0 (new_tracker s0)"
| go: "tracker_run act env entry s0 t \<Longrightarrow> entry u \<Longrightarrow> tracker_run act env entry s0 (tracker_go u t)"
| call: "tracker_run act env entry s0 t \<Longrightarrow> drain_at t = NotCalled \<Longrightarrow> tracker_run act env entry s0 (drain_call t)"
| step: "tracker_run act env entry s0 t \<Longrightarrow> tracker_step act env t t' \<Longrightarrow> tracker_run act env entry s0 t'"

section \<open>The counter counts\<close>

definition running :: "'u task \<Rightarrow> bool" where
  "running x = (case x of Running _ \<Rightarrow> True | Ended _ _ \<Rightarrow> False)"

text \<open>A task that returned under a cancelled context.\<close>

definition cut_off :: "'u task \<Rightarrow> bool" where
  "cut_off x = (case x of Running _ \<Rightarrow> False | Ended _ c \<Rightarrow> c)"

definition live :: "('s, 'u) tracker \<Rightarrow> nat" where
  "live t = length (filter running (tasks t))"

lemma running_simps [simp]: "running (Running u)" "\<not> running (Ended u c)"
  "\<not> cut_off (Running u)" "cut_off (Ended u c) \<longleftrightarrow> c"
  by (simp_all add: running_def cut_off_def)

lemma not_running: "\<not> running x \<longleftrightarrow> (\<exists>u c. x = Ended u c)"
  by (cases x) auto

lemma filter_length_update:
  assumes "i < length xs"
  shows "length (filter p (xs[i := x])) + (if p (xs ! i) then 1 else 0) =
    length (filter p xs) + (if p x then 1 else 0)"
  using assms
proof (induction xs arbitrary: i)
  case (Cons y ys)
  then show ?case by (cases i) (simp_all split: if_splits)
qed simp

text \<open>\<open>Drain\<close> has cancelled the context; it has returned.\<close>

fun past_deadline :: "drain_phase \<Rightarrow> bool" where
  "past_deadline NotCalled = False"
| "past_deadline Selecting = False"
| "past_deadline TimedOut = True"
| "past_deadline (Returned b) = True"

fun returned :: "drain_phase \<Rightarrow> bool" where
  "returned (Returned b) = True"
| "returned _ = False"

definition tracker_inv :: "('s, 'u) tracker \<Rightarrow> bool" where
  "tracker_inv t \<longleftrightarrow> wg t = live t \<and> asked t \<le> length (tasks t) \<and>
     cancelled t = past_deadline (drain_at t) \<and>
     ((\<exists>x \<in> set (tasks t). cut_off x) \<longrightarrow> cancelled t) \<and>
     (done_closed t \<longrightarrow> drain_at t \<noteq> NotCalled) \<and>
     (done_closed t \<longrightarrow> (\<forall>i < asked t. \<not> running (tasks t ! i))) \<and>
     (drain_at t = Returned True \<longrightarrow> (\<forall>i < asked t. \<not> cut_off (tasks t ! i))) \<and>
     (returned (drain_at t) \<longrightarrow> done_closed t)"

lemma inv_new: "tracker_inv (new_tracker s)"
  by (simp add: tracker_inv_def new_tracker_def live_def)

lemma inv_go: "tracker_inv t \<Longrightarrow> tracker_inv (tracker_go u t)"
  by (auto simp: tracker_inv_def tracker_go_def live_def nth_append)

text \<open>A running task is not among those that \<open>done\<close> was waiting for.\<close>

lemma not_awaited:
  assumes "tracker_inv t" "tasks t ! i = Running u" "done_closed t" "n < asked t"
  shows "(tasks t)[i := x] ! n = tasks t ! n"
  using assms by (cases "n = i") (auto simp: tracker_inv_def)

lemma inv_update:
  assumes inv: "tracker_inv t" and i: "i < length (tasks t)" "tasks t ! i = Running u"
    and x: "cut_off x \<Longrightarrow> cancelled t"
    and k: "k = (if running x then wg t else wg t - 1)"
  shows "tracker_inv (t\<lparr>shared := s, wg := k, tasks := (tasks t)[i := x]\<rparr>)"
proof -
  let ?us = "(tasks t)[i := x]"
  have count: "k = length (filter running ?us)"
    using filter_length_update [OF i(1), of running x] inv i(2)
    by (cases "running x") (auto simp: k tracker_inv_def live_def)
  have marks: "(\<exists>y \<in> set ?us. cut_off y) \<longrightarrow> cancelled t"
    using inv x set_update_subset_insert [of "tasks t" i x] unfolding tracker_inv_def by blast
  have same: "done_closed t \<longrightarrow> (\<forall>n < asked t. ?us ! n = tasks t ! n)"
    using not_awaited [OF inv i(2)] by blast
  have closed: "drain_at t = Returned True \<longrightarrow> done_closed t"
    using inv by (auto simp: tracker_inv_def)
  show ?thesis
    using inv marks same closed unfolding tracker_inv_def live_def by (simp add: count)
qed

lemma none_live: "live t = 0 \<Longrightarrow> i < length (tasks t) \<Longrightarrow> \<not> running (tasks t ! i)"
  unfolding live_def by (metis filter_empty_conv length_0_conv nth_mem)

lemma inv_step: "tracker_step act env t t' \<Longrightarrow> tracker_inv t \<Longrightarrow> tracker_inv t'"
proof (induction rule: tracker_step.induct)
  case (run i t u s u')
  then show ?case using inv_update [of t i u "Running u'" "wg t" s] by simp
next
  case (finish i t u s)
  then show ?case using inv_update [of t i u "Ended u (cancelled t)" "wg t - 1" s] by simp
next
  case (close t)
  then have "i < asked t \<Longrightarrow> \<not> running (tasks t ! i)" for i
    using none_live [of t i] by (simp add: tracker_inv_def)
  with close show ?case unfolding tracker_inv_def live_def by auto
next
  case (in_time t)
  then have "i < asked t \<Longrightarrow> \<not> cut_off (tasks t ! i)" for i
    unfolding tracker_inv_def by (metis nth_mem order_less_le_trans past_deadline.simps(2))
  with in_time show ?case by (simp add: tracker_inv_def live_def)
qed (auto simp: tracker_inv_def live_def)

lemma inv_call: "tracker_inv t \<Longrightarrow> drain_at t = NotCalled \<Longrightarrow> tracker_inv (drain_call t)"
  by (auto simp: tracker_inv_def live_def drain_call_def)

lemma run_inv: "tracker_run act env entry s0 t \<Longrightarrow> tracker_inv t"
  by (induction rule: tracker_run.induct) (auto intro: inv_new inv_go inv_call inv_step)

text \<open>
  No task's context is cancelled before \<open>Drain\<close> has been called and has timed out or returned; when
  \<open>Drain\<close> returns, every task started before it was called has returned; and when it reports true,
  none of them was cut off by a cancelled context.
\<close>

lemma drain_waits:
  assumes "tracker_run act env entry s0 t"
  shows "cancelled t \<longleftrightarrow> past_deadline (drain_at t)"
    and "drain_at t = Returned b \<Longrightarrow> i < asked t \<Longrightarrow> \<not> running (tasks t ! i) \<and> (b \<longrightarrow> \<not> cut_off (tasks t ! i))"
  using run_inv [OF assms] by (auto simp: tracker_inv_def)

section \<open>Invariants of the shared state\<close>

text \<open>
  An interface for clients of the tracker: an invariant of the shared state and the tasks' own
  states, kept by every action of a task and of the rest of the program, holds in every run.
\<close>

locale tracked_invariant =
  fixes act :: "bool \<Rightarrow> 's \<Rightarrow> 'u \<Rightarrow> 's \<Rightarrow> 'u option \<Rightarrow> bool" and env :: "'s \<Rightarrow> 's \<Rightarrow> bool"
    and entry :: "'u \<Rightarrow> bool" and s0 :: 's and I :: "'s \<Rightarrow> 'u task list \<Rightarrow> bool"
  assumes at_new: "I s0 []"
    and at_go: "I s us \<Longrightarrow> entry u \<Longrightarrow> I s (us @ [Running u])"
    and at_run: "I s us \<Longrightarrow> i < length us \<Longrightarrow> us ! i = Running u \<Longrightarrow> act c s u s' (Some u') \<Longrightarrow>
      I s' (us[i := Running u'])"
    and at_finish: "I s us \<Longrightarrow> i < length us \<Longrightarrow> us ! i = Running u \<Longrightarrow> act c s u s' None \<Longrightarrow>
      I s' (us[i := Ended u c])"
    and at_env: "I s us \<Longrightarrow> env s s' \<Longrightarrow> I s' us"
begin

lemma step_keeps: "tracker_step act env t t' \<Longrightarrow> I (shared t) (tasks t) \<Longrightarrow> I (shared t') (tasks t')"
  by (induction rule: tracker_step.induct) (auto intro: at_run at_finish at_env)

lemma holds: "tracker_run act env entry s0 t \<Longrightarrow> I (shared t) (tasks t)"
  by (induction rule: tracker_run.induct)
    (auto simp: new_tracker_def tracker_go_def drain_call_def intro: at_new at_go step_keeps)

end

end
