(* ===== verification/Watcher_Run.thy ===== *)
theory Watcher_Run
  imports Bridge Lifecycle
begin

text \<open>
  \<open>Run\<close> and \<open>startWorkers\<close> of \<open>internal/service/watcher/watcher.go\<close>. \<open>watcher_run\<close> is the polling
  loop with its restarts; the forward workers of all pools are tasks of one tracker (theory
  \<open>Lifecycle\<close>), those of one pool around its channel \<open>jobs\<close>. The lemmas show that no job is lost or run
  twice, that a channel stays within its capacity, that the workers end once intake has stopped, and
  that by then every job queued before that moment has been forwarded.
\<close>

section \<open>The polling loop\<close>

text \<open>
  \<open>Run\<close>: poll, and after an error poll again five seconds later unless the context is done. The
  fuel counts the polls and, inside each, its pages; \<open>False\<close> is a loop still running when it is
  used up.
\<close>

fun watcher_run ::
  "runtime \<Rightarrow> (nat \<Rightarrow> string \<Rightarrow> string \<Rightarrow> string + hz_operation list) \<Rightarrow>
   (nat \<Rightarrow> string \<Rightarrow> string + hz_operation list) \<Rightarrow> string \<Rightarrow> nat \<Rightarrow> nat \<Rightarrow>
   (bool \<times> forward_job list) bridge"
where
  "watcher_run e payments newest pool pages 0 = ret (False, [])"
| "watcher_run e payments newest pool pages (Suc n) = do {
     r \<leftarrow> poll e payments newest pool pages;
     (case fst r of
        None \<Rightarrow> ret (False, snd r)
      | Some _ \<Rightarrow> do {
          stopped \<leftarrow> ask (ctx_done e);
          if stopped then ret (True, snd r)
          else do {
            rest \<leftarrow> watcher_run e payments newest pool pages n;
            ret (fst rest, snd r @ snd rest) } })
   }"

section \<open>The workers\<close>

text \<open>
  What a watcher's goroutines share: the channel, and whether the poll's context is done. Ghosts:
  all jobs ever sent on the channel, those received, those whose forward has returned, and how many
  had been sent when intake stopped.
\<close>

record intake =
  channel :: "forward_job list"
  stopped :: bool
  sent :: "forward_job list"
  received :: "forward_job list"
  forwarded :: "forward_job list"
  before_stop :: nat

definition new_intake :: intake where
  "new_intake = \<lparr>channel = [], stopped = False, sent = [], received = [], forwarded = [], before_stop = 0\<rparr>"

text \<open>Where a worker is: at the outer \<open>select\<close>, or in the inner loop after intake stopped.\<close>

datatype worker = Waiting | Forwarding forward_job | Emptying | ForwardingLast forward_job

definition receive :: "forward_job \<Rightarrow> forward_job list \<Rightarrow> intake \<Rightarrow> intake" where
  "receive j js s = s\<lparr>channel := js, received := received s @ [j]\<rparr>"

text \<open>
  One action of a worker. What \<open>forward\<close> does to the tables is \<open>forward_job_run\<close>; here it ends.
\<close>

inductive worker_act :: "bool \<Rightarrow> intake \<Rightarrow> worker \<Rightarrow> intake \<Rightarrow> worker option \<Rightarrow> bool" for c where
  take_job: "channel s = j # js \<Longrightarrow> worker_act c s Waiting (receive j js s) (Some (Forwarding j))"
| job_done: "worker_act c s (Forwarding j) (s\<lparr>forwarded := forwarded s @ [j]\<rparr>) (Some Waiting)"
| intake_done: "stopped s \<Longrightarrow> worker_act c s Waiting s (Some Emptying)"
| take_last: "channel s = j # js \<Longrightarrow> worker_act c s Emptying (receive j js s) (Some (ForwardingLast j))"
| last_done: "worker_act c s (ForwardingLast j) (s\<lparr>forwarded := forwarded s @ [j]\<rparr>) (Some Emptying)"
| leave: "channel s = [] \<Longrightarrow> worker_act c s Emptying s None"

inductive_cases worker_act_cases: "worker_act c s u s' u'"

text \<open>
  What the rest of a watcher does to it: \<open>dispatch\<close> sends while the channel has room (its \<open>select\<close> may
  choose the channel even when intake has just stopped), and the poll's context is cancelled, which
  has no effect the second time.
\<close>

definition send_job :: "forward_job \<Rightarrow> intake \<Rightarrow> intake" where
  "send_job j s = s\<lparr>channel := channel s @ [j], sent := sent s @ [j]\<rparr>"

definition stop_intake :: "intake \<Rightarrow> intake" where
  "stop_intake s = (if stopped s then s else s\<lparr>stopped := True, before_stop := length (sent s)\<rparr>)"

text \<open>
  All pools: the watchers share the tracker, each task belongs to one pool, and the one context stops
  them all.
\<close>

inductive pools_act :: "bool \<Rightarrow> intake list \<Rightarrow> nat \<times> worker \<Rightarrow> intake list \<Rightarrow> (nat \<times> worker) option \<Rightarrow> bool" for c where
  "i < length S \<Longrightarrow> worker_act c (S ! i) u s u' \<Longrightarrow>
    pools_act c S (i, u) (S[i := s]) (map_option (Pair i) u')"

inductive pools_send :: "nat \<Rightarrow> intake list \<Rightarrow> intake list \<Rightarrow> bool" for i where
  "i < length S \<Longrightarrow> length (channel (S ! i)) < forward_queue \<Longrightarrow> pools_send i S (S[i := send_job j (S ! i)])"

definition pools_env :: "intake list \<Rightarrow> intake list \<Rightarrow> bool" where
  "pools_env S S' \<longleftrightarrow> (\<exists>i. pools_send i S S') \<or> S' = map stop_intake S"

inductive_cases pools_act_cases: "pools_act c S (i, u) S' u'"

text \<open>\<open>New\<close> and \<open>startWorkers\<close>: at least one worker.\<close>

definition start_workers :: "nat \<Rightarrow> nat \<Rightarrow> (nat \<times> worker) list" where
  "start_workers i n = replicate n (i, Waiting)"

definition watcher_workers :: "nat \<Rightarrow> int \<Rightarrow> (nat \<times> worker) list" where
  "watcher_workers i workers = start_workers i (nat (max workers 1))"

definition fresh_worker :: "nat \<times> worker \<Rightarrow> bool" where
  "fresh_worker u \<longleftrightarrow> snd u = Waiting"

abbreviation pools_run :: "nat \<Rightarrow> (intake list, nat \<times> worker) tracker \<Rightarrow> bool" where
  "pools_run n \<equiv> tracker_run pools_act pools_env fresh_worker (replicate n new_intake)"

section \<open>No job is lost or run twice\<close>

fun in_hand :: "worker task \<Rightarrow> forward_job multiset" where
  "in_hand (Running (Forwarding j)) = {#j#}"
| "in_hand (Running (ForwardingLast j)) = {#j#}"
| "in_hand _ = {#}"

text \<open>A worker past its outer \<open>select\<close>.\<close>

fun emptying :: "worker task \<Rightarrow> bool" where
  "emptying (Running Waiting) = False"
| "emptying (Running (Forwarding j)) = False"
| "emptying _ = True"

definition pool_inv :: "intake \<Rightarrow> worker task list \<Rightarrow> bool" where
  "pool_inv s us \<longleftrightarrow> sent s = received s @ channel s \<and> length (channel s) \<le> forward_queue \<and>
     mset (received s) = mset (forwarded s) + (\<Sum>u \<leftarrow> us. in_hand u) \<and>
     before_stop s \<le> length (sent s) \<and>
     ((\<exists>u \<in> set us. \<not> running u) \<longrightarrow> before_stop s \<le> length (received s)) \<and>
     (list_ex emptying us \<longrightarrow> stopped s)"

text \<open>A job in a worker's hands is moved by one update of the list of tasks.\<close>

lemma in_hand_update:
  assumes "i < length us"
  shows "(\<Sum>u \<leftarrow> us[i := x]. in_hand u) + in_hand (us ! i) = (\<Sum>u \<leftarrow> us. in_hand u) + in_hand x"
  using assms
proof (induction us arbitrary: i)
  case (Cons y ys)
  then show ?case by (cases i) (simp_all add: ac_simps)
qed simp

lemma set_update_ex: "(\<exists>u \<in> set (us[i := x]). P u) \<Longrightarrow> P x \<or> (\<exists>u \<in> set us. P u)"
  using set_update_subset_insert [of us i x] by auto

text \<open>The rule for one action: what it does to the channel, the ghosts and the task's hands.\<close>

lemma pool_inv_act:
  assumes inv: "pool_inv s us" and i: "i < length us" "us ! i = Running u"
    and flow: "sent s' = sent s" "received s' @ channel s' = received s @ channel s"
    and room: "length (channel s') \<le> length (channel s)"
    and grows: "length (received s) \<le> length (received s')"
    and hand: "mset (received s') + in_hand (Running u) + mset (forwarded s) =
      mset (received s) + in_hand x + mset (forwarded s')"
    and stop: "stopped s' = stopped s" "before_stop s' = before_stop s"
    and ends: "\<not> running x \<Longrightarrow> before_stop s \<le> length (received s')"
    and empty: "emptying x \<Longrightarrow> stopped s"
  shows "pool_inv s' (us[i := x])"
proof -
  have "mset (received s') + in_hand (Running u) + mset (forwarded s) =
      mset (forwarded s') + (\<Sum>u \<leftarrow> us[i := x]. in_hand u) + in_hand (Running u) + mset (forwarded s)"
    using hand in_hand_update [OF i(1), of x] inv i(2) by (simp add: pool_inv_def ac_simps)
  then have "mset (received s') = mset (forwarded s') + (\<Sum>u \<leftarrow> us[i := x]. in_hand u)" by simp
  moreover have "list_ex emptying (us[i := x]) \<Longrightarrow> stopped s"
    using set_update_ex [of us i x emptying] empty inv by (auto simp: pool_inv_def list_ex_iff)
  moreover have "(\<exists>u \<in> set (us[i := x]). \<not> running u) \<Longrightarrow> before_stop s \<le> length (received s')"
    using set_update_ex [of us i x "\<lambda>u. \<not> running u"] ends inv grows by (auto simp: pool_inv_def)
  moreover have "before_stop s \<le> length (sent s)"
    using inv unfolding pool_inv_def by blast
  ultimately show ?thesis
    using inv flow room stop unfolding pool_inv_def by (metis le_trans)
qed

lemma pool_inv_worker:
  assumes "worker_act c s u s' u'" "pool_inv s us" "i < length us" "us ! i = Running u"
  shows "pool_inv s' (us[i := (case u' of None \<Rightarrow> Ended u c | Some v \<Rightarrow> Running v)])"
proof -
  have emptying: "emptying (Running u) \<Longrightarrow> stopped s"
    using assms(2-4) nth_mem [of i us] by (auto simp: pool_inv_def list_ex_iff)
  have total: "before_stop s \<le> length (received s) + length (channel s)"
    using assms(2) by (auto simp: pool_inv_def)
  from assms(1) show ?thesis
    by (cases rule: worker_act.cases)
      (intro pool_inv_act [OF assms(2-4)]; use emptying total in \<open>auto simp: receive_def\<close>)+
qed

lemma pool_inv_send: "length (channel s) < forward_queue \<Longrightarrow> pool_inv s us \<Longrightarrow> pool_inv (send_job j s) us"
  by (auto simp: pool_inv_def send_job_def)

lemma pool_inv_stop:
  assumes "pool_inv s us"
  shows "pool_inv (stop_intake s) us"
proof -
  have "\<not> running u \<Longrightarrow> emptying u" for u by (cases u) auto
  then have "\<not> stopped s \<Longrightarrow> u \<in> set us \<Longrightarrow> running u" for u
    using assms by (auto simp: pool_inv_def list_ex_iff)
  with assms show ?thesis by (auto simp: pool_inv_def stop_intake_def)
qed

lemma pool_inv_go: "pool_inv s us \<Longrightarrow> pool_inv s (us @ [Running Waiting])"
  by (auto simp: pool_inv_def)

section \<open>All pools\<close>

definition own :: "nat \<Rightarrow> (nat \<times> worker) task \<Rightarrow> bool" where
  "own i x = (case x of Running u \<Rightarrow> fst u = i | Ended u c \<Rightarrow> fst u = i)"

lemma own_simps [simp]: "own i (Running u) \<longleftrightarrow> fst u = i" "own i (Ended u c) \<longleftrightarrow> fst u = i"
  by (simp_all add: own_def)

text \<open>The tasks of one pool.\<close>

definition tasks_of :: "nat \<Rightarrow> (nat \<times> worker) task list \<Rightarrow> worker task list" where
  "tasks_of i us = map (map_task snd) (filter (own i) us)"

lemma running_map [simp]: "running (map_task f x) = running x"
  by (cases x) simp_all

lemma tasks_of_append [simp]: "tasks_of i (us @ vs) = tasks_of i us @ tasks_of i vs"
  by (simp add: tasks_of_def)

text \<open>An update of a task is an update among the tasks of its pool and no change to the others.\<close>

lemma tasks_of_other:
  "\<not> own i (us ! k) \<Longrightarrow> \<not> own i x \<Longrightarrow> tasks_of i (us[k := x]) = tasks_of i us"
proof (induction us arbitrary: k)
  case (Cons y ys)
  then show ?case by (cases k) (auto simp: tasks_of_def)
qed simp

lemma tasks_of_update:
  assumes "k < length us" "own i (us ! k)" "own i x"
  shows "\<exists>m < length (tasks_of i us). tasks_of i us ! m = map_task snd (us ! k) \<and>
    tasks_of i (us[k := x]) = (tasks_of i us)[m := map_task snd x]"
  using assms
proof (induction us arbitrary: k)
  case (Cons y ys)
  show ?case
  proof (cases k)
    case 0
    with Cons.prems show ?thesis by (intro exI [of _ 0]) (simp add: tasks_of_def)
  next
    case (Suc n)
    with Cons obtain m where "m < length (tasks_of i ys)" "tasks_of i ys ! m = map_task snd (ys ! n)"
      "tasks_of i (ys[n := x]) = (tasks_of i ys)[m := map_task snd x]" by auto
    then show ?thesis
      unfolding Suc by (intro exI [of _ "if own i y then Suc m else m"]) (simp add: tasks_of_def)
  qed
qed simp

definition pools_inv :: "nat \<Rightarrow> intake list \<Rightarrow> (nat \<times> worker) task list \<Rightarrow> bool" where
  "pools_inv n S us \<longleftrightarrow> length S = n \<and> (\<forall>i < n. pool_inv (S ! i) (tasks_of i us))"

lemma pools_inv_act:
  assumes "pools_act c S u S' u'" "pools_inv n S us" "k < length us" "us ! k = Running u"
  shows "pools_inv n S' (us[k := (case u' of None \<Rightarrow> Ended u c | Some v \<Rightarrow> Running v)])"
  using assms(1)
proof (cases rule: pools_act.cases)
  case (1 i v s v')
  let ?x = "case u' of None \<Rightarrow> Ended u c | Some v \<Rightarrow> Running v"
  let ?y = "case v' of None \<Rightarrow> Ended v c | Some v \<Rightarrow> Running v"
  have x: "own i ?x" "map_task snd ?x = ?y" "own j ?x \<longleftrightarrow> j = i" for j
    using 1 by (auto split: option.splits)
  have k: "own i (us ! k)" using 1 assms(4) by simp
  obtain m where m: "m < length (tasks_of i us)" "tasks_of i us ! m = Running v"
    "tasks_of i (us[k := ?x]) = (tasks_of i us)[m := ?y]"
    using tasks_of_update [OF assms(3) k x(1)] unfolding x(2) assms(4) by (auto simp: 1)
  have "i < n" using 1 assms(2) by (simp add: pools_inv_def)
  then have "pool_inv s (tasks_of i (us[k := ?x]))"
    unfolding m(3) using assms(2) m 1
    by (intro pool_inv_worker [of c "S ! i" v s v']) (simp_all add: pools_inv_def)
  moreover have "tasks_of j (us[k := ?x]) = tasks_of j us" if "j \<noteq> i" for j
    by (rule tasks_of_other) (use that x(3) 1 assms(4) in auto)
  ultimately show ?thesis
    using assms(2) 1 unfolding pools_inv_def by (metis length_list_update nth_list_update_eq nth_list_update_neq)
qed

lemma pools_inv_env:
  assumes "pools_env S S'" "pools_inv n S us"
  shows "pools_inv n S' us"
  using assms(1) unfolding pools_env_def
proof (elim disjE exE)
  fix i
  assume "pools_send i S S'"
  then show ?thesis
  proof (cases rule: pools_send.cases)
    case (1 j)
    with assms(2) pool_inv_send [of "S ! i" _ j] show ?thesis
      unfolding pools_inv_def by (auto simp: nth_list_update)
  qed
next
  assume "S' = map stop_intake S"
  with assms(2) show ?thesis unfolding pools_inv_def by (auto intro: pool_inv_stop)
qed

interpretation wk: tracked_invariant pools_act pools_env fresh_worker "replicate n new_intake" "pools_inv n" for n
proof unfold_locales
  show "pools_inv n (replicate n new_intake) []"
    by (simp add: pools_inv_def tasks_of_def pool_inv_def new_intake_def)
next
  fix S us u
  assume "pools_inv n S us" "fresh_worker u"
  then show "pools_inv n S (us @ [Running u])"
    by (cases u) (auto simp: pools_inv_def fresh_worker_def tasks_of_def intro: pool_inv_go)
next
  fix S us i u c S' u'
  assume "pools_inv n S us" "i < length us" "us ! i = Running u" "pools_act c S u S' (Some u')"
  then show "pools_inv n S' (us[i := Running u'])" using pools_inv_act by fastforce
next
  fix S us i u c S'
  assume "pools_inv n S us" "i < length us" "us ! i = Running u" "pools_act c S u S' None"
  then show "pools_inv n S' (us[i := Ended u c])" using pools_inv_act by fastforce
next
  fix S us S'
  assume "pools_inv n S us" "pools_env S S'"
  then show "pools_inv n S' us" by (rule pools_inv_env [rotated])
qed

text \<open>
  No job is lost or run twice: a channel holds the jobs sent and not yet received, in order and within
  its capacity, and a job received has been forwarded or is in a worker's hands.
\<close>

lemma pools_conserve:
  assumes "pools_run n t" "i < n"
  shows "sent (shared t ! i) = received (shared t ! i) @ channel (shared t ! i)"
    and "length (channel (shared t ! i)) \<le> forward_queue"
    and "mset (forwarded (shared t ! i)) \<subseteq># mset (received (shared t ! i))"
  using wk.holds [OF assms(1)] assms(2) by (simp_all add: pools_inv_def pool_inv_def)

text \<open>When the workers of a pool have returned, every job sent before intake stopped has been forwarded.\<close>

lemma pool_forwarded:
  assumes "pools_run n t" "i < n" "tasks_of i (tasks t) \<noteq> []" "\<forall>x \<in> set (tasks t). own i x \<longrightarrow> \<not> running x"
  shows "mset (take (before_stop (shared t ! i)) (sent (shared t ! i))) \<subseteq># mset (forwarded (shared t ! i))"
proof -
  let ?s = "shared t ! i" and ?us = "tasks_of i (tasks t)"
  have inv: "pool_inv ?s ?us" using wk.holds [OF assms(1)] assms(2) by (simp add: pools_inv_def)
  have none: "x \<in> set ?us \<Longrightarrow> \<not> running x" for x using assms(4) by (auto simp: tasks_of_def)
  have "(\<Sum>u \<leftarrow> us. in_hand u) = {#}" if "\<forall>x \<in> set us. \<not> running x" for us
    using that by (induction us) (auto simp: not_running)
  then have "mset (received ?s) = mset (forwarded ?s)" using inv none by (simp add: pool_inv_def)
  moreover have "before_stop ?s \<le> length (received ?s)"
    using inv none assms(3) unfolding pool_inv_def by (meson list.set_sel(1))
  then have "take (before_stop ?s) (sent ?s) = take (before_stop ?s) (received ?s)"
    using inv by (simp add: pool_inv_def)
  moreover have "mset (take (before_stop ?s) (received ?s)) \<subseteq># mset (received ?s)"
    by (metis append_take_drop_id mset_append mset_subset_eq_add_left)
  ultimately show ?thesis by simp
qed

section \<open>The workers end\<close>

text \<open>One action of one worker, and the work that is left once intake has stopped.\<close>

inductive worker_step :: "(intake list, nat \<times> worker) tracker \<Rightarrow> (intake list, nat \<times> worker) tracker \<Rightarrow> bool" where
  "i < length (tasks t) \<Longrightarrow> tasks t ! i = Running u \<Longrightarrow> pools_act (cancelled t) (shared t) u S u' \<Longrightarrow>
    worker_step t (t\<lparr>shared := S,
      tasks := (tasks t)[i := (case u' of None \<Rightarrow> Ended u (cancelled t) | Some v \<Rightarrow> Running v)]\<rparr>)"

fun worker_work :: "worker \<Rightarrow> nat" where
  "worker_work Waiting = 2"
| "worker_work (Forwarding j) = 3"
| "worker_work Emptying = 1"
| "worker_work (ForwardingLast j) = 2"

fun task_work :: "(nat \<times> worker) task \<Rightarrow> nat" where
  "task_work (Running u) = worker_work (snd u)"
| "task_work (Ended u c) = 0"

definition queue_work :: "intake \<Rightarrow> nat" where
  "queue_work s = 2 * length (channel s)"

definition work_left :: "(intake list, nat \<times> worker) tracker \<Rightarrow> nat" where
  "work_left t = (\<Sum>s \<leftarrow> shared t. queue_work s) + (\<Sum>u \<leftarrow> tasks t. task_work u)"

lemma sum_update:
  assumes "i < length xs"
  shows "(\<Sum>x \<leftarrow> xs[i := y]. f x) + f (xs ! i) = (\<Sum>x \<leftarrow> xs. f x) + (f y :: nat)"
  using assms
proof (induction xs arbitrary: i)
  case (Cons z zs)
  then show ?case by (cases i) simp_all
qed simp

lemma worker_act_work:
  assumes "worker_act c s u s' u'"
  shows "queue_work s' + (case u' of None \<Rightarrow> 0 | Some v \<Rightarrow> worker_work v) < queue_work s + worker_work u"
  using assms by (cases rule: worker_act.cases) (simp_all add: receive_def queue_work_def)

lemma worker_act_total:
  assumes "stopped s"
  shows "\<exists>s' u'. worker_act c s u s' u'"
proof (cases u)
  case Emptying
  then show ?thesis by (cases "channel s") (blast intro: worker_act.intros)+
qed (use assms in \<open>blast intro: worker_act.intros\<close>)+

lemma worker_step_work: "worker_step t t' \<Longrightarrow> work_left t' < work_left t"
proof (induction rule: worker_step.induct)
  case (1 k t u S u')
  from 1(3) show ?case
  proof (cases rule: pools_act.cases)
    case (1 i v s v')
    let ?x = "case u' of None \<Rightarrow> Ended u (cancelled t) | Some v \<Rightarrow> Running v"
    have "task_work ?x = (case v' of None \<Rightarrow> 0 | Some v \<Rightarrow> worker_work v)"
      using 1 by (auto split: option.splits)
    with sum_update [OF \<open>k < length (tasks t)\<close>, of task_work ?x] sum_update [OF 1(4), of queue_work s]
      worker_act_work [OF 1(5)] 1 \<open>tasks t ! k = Running u\<close>
    show ?thesis by (simp add: work_left_def)
  qed
qed

text \<open>
  C21: the workers end. Every action of a worker leaves less work than before, so watchers that send
  nothing more perform finitely many; and once intake has stopped, as long as a worker
  runs, one of them can act. So after the last send they all return.
\<close>

theorem workers_wind_down:
  assumes "pools_run n t" "list_all stopped (shared t)"
    and "\<forall>x \<in> set (tasks t). running x \<longrightarrow> (\<exists>i < n. own i x)"
  shows "(\<forall>t'. worker_step t t' \<longrightarrow> work_left t' < work_left t \<and> list_all stopped (shared t')) \<and>
    ((\<exists>u \<in> set (tasks t). running u) \<longleftrightarrow> (\<exists>t'. worker_step t t'))"
proof -
  have len: "length (shared t) = n" using wk.holds [OF assms(1)] by (simp add: pools_inv_def)
  have kept: "stopped s' = stopped s" if "worker_act c s u s' u'" for c s u s' u'
    using that by (cases rule: worker_act.cases) (simp_all add: receive_def)
  have "list_all stopped (shared t')" if "worker_step t t'" for t'
    using that assms(2)
    by (cases rule: worker_step.cases)
      (auto elim!: pools_act.cases dest: kept simp: list_all_length nth_list_update)
  moreover have "\<exists>t'. worker_step t t'" if "x \<in> set (tasks t)" "running x" for x
  proof -
    from that obtain k i v where k: "k < length (tasks t)" "tasks t ! k = Running (i, v)"
      by (metis in_set_conv_nth not_running old.prod.exhaust task.exhaust)
    have "i < n" using assms(3) that(1) k nth_mem [OF k(1)] by fastforce
    then have "stopped (shared t ! i)" using assms(2) len by (simp add: list_all_length)
    then obtain s u' where "worker_act (cancelled t) (shared t ! i) v s u'" using worker_act_total by blast
    then have "pools_act (cancelled t) (shared t) (i, v) ((shared t)[i := s]) (map_option (Pair i) u')"
      using \<open>i < n\<close> len by (intro pools_act.intros) simp_all
    with k show ?thesis by (blast intro: worker_step.intros)
  qed
  moreover have "\<exists>u \<in> set (tasks t). running u" if "worker_step t t'" for t'
    using that by (cases rule: worker_step.cases) (metis nth_mem running_simps(1))
  ultimately show ?thesis using worker_step_work by blast
qed

text \<open>One pool, one worker that has started, and intake stopped.\<close>

definition demo_stopped :: "(intake list, nat \<times> worker) tracker" where
  "demo_stopped = (tracker_go (0, Waiting) (new_tracker [new_intake]))\<lparr>shared := [stop_intake new_intake]\<rparr>"

theorem workers_wind_down_witness: "\<exists>t'. worker_step demo_stopped t'"
proof -
  have "pools_run 1 (tracker_go (0, Waiting) (new_tracker (replicate 1 new_intake)))"
    by (rule tracker_run.go [OF tracker_run.new]) (simp add: fresh_worker_def)
  then have run: "pools_run 1 demo_stopped"
    unfolding demo_stopped_def
    by (rule tracker_run.step)
      (use tracker_step.env [of pools_env "tracker_go (0, Waiting) (new_tracker [new_intake])"
          "[stop_intake new_intake]" pools_act] in
        \<open>simp add: pools_env_def tracker_go_def new_tracker_def\<close>)
  show ?thesis
    using workers_wind_down [OF run]
    by (simp add: demo_stopped_def tracker_go_def new_tracker_def stop_intake_def new_intake_def)
qed

end
