(* ===== verification/Watcher_Laws.thy ===== *)
theory Watcher_Laws
  imports Watcher_Run
begin

text \<open>
  What the watcher promises about the payments of its pool: distinct payments have distinct deposit
  keys, the asset it records is read back by the forwarder, and no deposit is skipped: the saved
  cursor never moves past a payment that is not in the table \<open>forwards\<close>, however many instances poll
  the pool and whatever fails, and a poll that is answered records the whole backlog. What Horizon
  promises is a predicate on its answers (\<open>honest_pager\<close>).
\<close>

section \<open>Deposit keys\<close>

lemma show_nat_colon: "CHR '':'' \<notin> set (show_nat n)"
  using show_nat_digits [of n] by (auto simp: list_all_iff is_digit_def)

lemma show_int_nat: "0 \<le> n \<Longrightarrow> show_int n = show_nat (nat n)"
  by (simp add: show_int_def)

lemma parse_int64_show_int:
  assumes "0 \<le> n" "n < 2 ^ 63"
  shows "parse_int64 (show_int n) = Some n"
proof -
  obtain c cs where s: "show_nat (nat n) = c # cs"
    using show_nat_nonempty by (cases "show_nat (nat n)") auto
  then have "is_digit c" using show_nat_digits [of "nat n"] by simp
  then have c: "c \<noteq> CHR ''-''" "c \<noteq> CHR ''+''" by (auto simp: is_digit_def)
  have "parse_digits (c # cs) = Some (nat n)" using parse_digits_show_nat [of "nat n"] s by simp
  moreover have "nat n < 2 ^ 63" using assms by (simp add: nat_less_iff)
  ultimately show ?thesis
    using assms c by (simp add: parse_int64_def show_int_nat s)
qed

lemma append_colon_inject:
  assumes "CHR '':'' \<notin> set h1" "CHR '':'' \<notin> set h2"
    and "h1 @ CHR '':'' # s1 = h2 @ CHR '':'' # s2"
  shows "h1 = h2"
proof -
  have "cut CHR '':'' (h1 @ CHR '':'' # s1) = cut CHR '':'' (h2 @ CHR '':'' # s2)" using assms(3) by simp
  then show ?thesis unfolding cut_append [OF assms(1)] cut_append [OF assms(2)] by simp
qed

text \<open>
  C22: a deposit key names one payment. Transaction hashes are hexadecimal, so have no colon; a
  payment is an operation of one transaction, its Horizon id is a 63-bit number, the ids of one
  transaction's operations agree above the low twelve bits, and a transaction has one operation
  count, with one operation when the count is 1. Then two different payments have different deposit
  keys, so neither is dropped as a replay of the other.
\<close>

theorem deposit_keys_distinct:
  assumes "CHR '':'' \<notin> set h1" "CHR '':'' \<notin> set h2"
    and "0 \<le> id1" "id1 < 2 ^ 63" "0 \<le> id2" "id2 < 2 ^ 63"
    and "h1 = h2 \<Longrightarrow> n1 = n2 \<and> id1 div 4096 = id2 div 4096 \<and> (n1 = 1 \<longrightarrow> id1 = id2)"
    and "(h1, id1) \<noteq> (h2, id2)"
  shows "deposit_key h1 (show_int id1) n1 \<noteq> deposit_key h2 (show_int id2) n2"
proof -
  have key: "deposit_key h (show_int i) n = (if n = 1 then h else h @ CHR '':'' # show_nat (nat (i mod 4096)))"
    if "0 \<le> i" "i < 2 ^ 63" for h i n
    using show_int_nat [of "i mod 4096"] by (simp add: deposit_key_def parse_int64_show_int [OF that])
  show ?thesis
  proof (cases "h1 = h2")
    case True
    with assms(7,8) have n: "n1 = n2" "n1 \<noteq> 1" and ids: "id1 div 4096 = id2 div 4096" "id1 \<noteq> id2" by auto
    have "id1 mod 4096 \<noteq> id2 mod 4096" using ids by (metis div_mult_mod_eq)
    then have "nat (id1 mod 4096) \<noteq> nat (id2 mod 4096)" by (simp add: eq_nat_nat_iff)
    then show ?thesis using assms(3-6) n True by (simp add: key show_nat_inject)
  next
    case False
    have "h1 \<noteq> h2 @ CHR '':'' # s" "h1 @ CHR '':'' # s \<noteq> h2" for s using assms(1,2) by auto
    moreover have "h1 @ CHR '':'' # s \<noteq> h2 @ CHR '':'' # s'" for s s'
      using append_colon_inject [OF assms(1,2)] False by blast
    ultimately show ?thesis
      using False unfolding key [OF assms(3,4)] key [OF assms(5,6)] by (simp split: if_split)
  qed
qed

theorem deposit_keys_distinct_witness:
  "deposit_key ''ab'' (show_int 4097) 2 \<noteq> deposit_key ''ab'' (show_int 4098) 2"
  by (rule deposit_keys_distinct) simp_all

section \<open>Assets\<close>

text \<open>
  The asset that is recorded for a deposit is the asset the forwarder sends: the text of a
  payment's asset parses back to it.
\<close>

lemma recorded_asset_parses_back:
  assumes "pay_asset_type p \<noteq> ''native'' \<Longrightarrow>
    pay_asset_code p \<noteq> [] \<and> CHR '':'' \<notin> set (pay_asset_code p) \<and> pay_asset_issuer p \<noteq> []"
  shows "parse_asset (asset_id p) =
    Inr (if pay_asset_type p = ''native'' then NativeAsset
         else CreditAsset (pay_asset_code p) (pay_asset_issuer p))"
proof (cases "pay_asset_type p = ''native''")
  case False
  with assms have parts: "pay_asset_code p \<noteq> []" "CHR '':'' \<notin> set (pay_asset_code p)" "pay_asset_issuer p \<noteq> []"
    by auto
  have "CHR '':'' \<in> set (asset_id p)" using False by (simp add: asset_id_def)
  then have "asset_id p \<noteq> ''native''" by auto
  with False parts cut_append [OF parts(2), of "pay_asset_issuer p"] show ?thesis
    by (simp add: parse_asset_def asset_id_def)
qed (simp add: parse_asset_def asset_id_def)

section \<open>The tables around a record\<close>

definition saved :: "string \<Rightarrow> bridge_world \<Rightarrow> string" where
  "saved pool w = get_cursor_stmt pool (dep w)"

text \<open>A record is accounted for: it is no payment into the pool with its transaction, or it has a row.\<close>

definition noted :: "string \<Rightarrow> hz_operation \<Rightarrow> bridge_world \<Rightarrow> bool" where
  "noted pool op w \<longleftrightarrow>
     (case payment_to (op_body op) pool of
        None \<Rightarrow> True
      | Some p \<Rightarrow>
          (case pay_transaction p of
             None \<Rightarrow> True
           | Some tx \<Rightarrow> fwd_row (dep w) (job_tx_hash (job_of p tx)) \<noteq> None))"

definition rows_kept :: "bridge_world \<Rightarrow> bridge_world \<Rightarrow> bool" where
  "rows_kept w w' \<longleftrightarrow> (\<forall>h. fwd_row (dep w) h \<noteq> None \<longrightarrow> fwd_row (dep w') h \<noteq> None)"

lemma rows_kept_refl [simp]: "rows_kept w w"
  by (simp add: rows_kept_def)

lemma rows_kept_trans: "rows_kept u v \<Longrightarrow> rows_kept v w \<Longrightarrow> rows_kept u w"
  by (simp add: rows_kept_def)

lemma rows_kept_same: "forwards (dep w') = forwards (dep w) \<Longrightarrow> rows_kept w w'"
  by (simp add: rows_kept_def fwd_row_def)

lemma noted_kept: "rows_kept w w' \<Longrightarrow> noted pool op w \<Longrightarrow> noted pool op w'"
  by (auto simp: rows_kept_def noted_def split: option.splits)

lemma saved_upsert:
  "get_cursor_stmt pool' (snd (upsert_cursor_stmt now pool tok db)) =
    (if pool' = pool then tok else get_cursor_stmt pool' db)"
proof -
  let ?row = "\<lparr>cursor_pool = pool, cursor_token = tok, cursor_updated_at = now\<rparr>"
  have upd: "List.find (\<lambda>c. cursor_pool c = pool') (map (\<lambda>c. if cursor_pool c = pool then ?row else c) cs) =
      (if pool' = pool then map_option (\<lambda>_. ?row) (List.find (\<lambda>c. cursor_pool c = pool') cs)
       else List.find (\<lambda>c. cursor_pool c = pool') cs)" for cs
    by (induction cs) auto
  show ?thesis
  proof (cases "list_ex (\<lambda>c. cursor_pool c = pool) (cursors db)")
    case True
    then have "List.find (\<lambda>c. cursor_pool c = pool) (cursors db) \<noteq> None" by (simp add: find_None_list_ex)
    with True show ?thesis
      by (auto simp: get_cursor_stmt_def upsert_cursor_stmt_def Let_def select_one_def update_where_def upd)
  next
    case False
    then have "List.find (\<lambda>c. cursor_pool c = pool) (cursors db) = None" by (simp add: find_None_list_ex)
    with False show ?thesis
      by (auto simp: get_cursor_stmt_def upsert_cursor_stmt_def Let_def select_one_def find_append
          split: option.splits)
  qed
qed

lemma insert_forward_cursors [simp]:
  "cursors (snd (insert_forward_stmt now h m pool fa amt ass landed db)) = cursors db"
  by (simp add: insert_forward_stmt_def case_prod_beta)

lemma saved_same: "cursors (dep w') = cursors (dep w) \<Longrightarrow> saved pool w' = saved pool w"
  by (simp add: saved_def get_cursor_stmt_def)

section \<open>One record\<close>

text \<open>What a call of \<open>handle\<close> does to the tables, whatever it is answered.\<close>

definition handled_ok :: "string \<Rightarrow> hz_operation \<Rightarrow> bridge_world \<Rightarrow> bridge_world \<Rightarrow> bool" where
  "handled_ok pool op w w' \<longleftrightarrow> rows_kept w w' \<and>
     (saved pool w' = saved pool w \<or> saved pool w' = paging_token op \<and> noted pool op w')"

lemma wp_save:
  assumes "rows_kept w v" "saved pool v = saved pool w" "noted pool op v"
  shows "wp (save_cursor e pool (paging_token op)) (\<lambda>_ w'. handled_ok pool op w w' \<and> noted pool op w') v"
proof -
  have "handled_ok pool op w w' \<and> noted pool op w'"
    if "dep w' = dep v \<or> dep w' = snd (upsert_cursor_stmt now pool (paging_token op) (dep v))" for w' now
  proof -
    from that have "rows_kept v w'" by (auto intro: rows_kept_same)
    then have kept: "rows_kept w w'" "noted pool op w'"
      using assms rows_kept_trans noted_kept by blast+
    from that have "saved pool w' = saved pool v \<or> saved pool w' = paging_token op"
      by (auto simp: saved_def saved_upsert)
    with kept assms(2) show ?thesis by (auto simp: handled_ok_def)
  qed
  then show ?thesis
    unfolding save_cursor_def upsert_cursor_def wp_bind by (intro wp_exec) simp_all
qed

lemma wp_record_deposit:
  fixes w :: bridge_world
  assumes "payment_to (op_body op) pool = Some p" "pay_transaction p = Some tx"
    and "job = job_of p tx"
  shows "wp (insert_forward e (job_tx_hash job) m pool fa amt ass landed)
    (\<lambda>r w'. rows_kept w w' \<and> saved pool w' = saved pool w \<and> (\<forall>b. r = Inr b \<longrightarrow> noted pool op w')) w"
proof -
  let ?stmt = "\<lambda>now. insert_forward_stmt now (job_tx_hash job) m pool fa amt ass landed"
  have kept: "rows_kept w w' \<and> saved pool w' = saved pool w"
    if "dep w' = dep w \<or> dep w' = snd (?stmt now (dep w))" for w' now
    using that by (auto simp: rows_kept_def insert_forward_row intro: saved_same split: option.splits)
  have new: "noted pool op w'" if "dep w' = snd (?stmt now (dep w))" for w' now
    using assms by (auto simp: noted_def that insert_forward_row split: option.splits)
  show ?thesis
    unfolding insert_forward_def wp_bind wp_return
  proof (rule wp_dep_stmt, goal_cases)
    case (1 w')
    then show ?case using kept [of w' "db_now e (tick w)"] new [of w' "db_now e (tick w)"] by simp
  next
    case (2 msg w')
    then show ?case using kept [of w' "db_now e (tick w)"] by (simp add: wrap_err_def)
  qed
qed

lemma wp_handle:
  "wp (handle e pool op) (\<lambda>r w'. handled_ok pool op w w' \<and> (h_error r = None \<longrightarrow> noted pool op w')) w"
proof -
  let ?Q = "\<lambda>r w'. handled_ok pool op w w' \<and> (h_error r = None \<longrightarrow> noted pool op w')"
  have saving: "wp (save_cursor e pool (paging_token op)) (\<lambda>_. ?Q x) v"
    if "rows_kept w v" "saved pool v = saved pool w" "noted pool op v" for v x
    by (rule wp_mono [OF wp_save [OF that]]) blast
  show ?thesis
  proof (cases "payment_to (op_body op) pool")
    case None
    then have "noted pool op w" by (simp add: noted_def)
    then show ?thesis
      unfolding handle_def None option.case wp_bind wp_return by (intro saving) simp_all
  next
    case (Some p)
    show ?thesis
    proof (cases "pay_transaction p")
      case None
      with Some have "noted pool op w" by (simp add: noted_def)
      then show ?thesis
        unfolding handle_def Some None option.case wp_bind wp_return by (intro saving) simp_all
    next
      case tx: (Some tx)
      show ?thesis
        unfolding handle_def Some option.case tx Let_def
      proof (rule wp_bindI [OF wp_record_deposit [OF Some tx refl]], goal_cases)
        case (1 r v)
        show ?case
        proof (cases r)
          case (Inl m)
          with 1 show ?thesis by (simp add: handled_ok_def)
        next
          case (Inr b)
          let ?v = "v\<lparr>tick := Suc (tick v)\<rparr>"
          from 1 Inr have v: "rows_kept w v" "saved pool v = saved pool w" "noted pool op v" by auto
          then have v': "rows_kept w ?v" "saved pool ?v = saved pool w" "noted pool op ?v"
            by (simp_all add: rows_kept_def saved_def noted_def split: option.splits)
          show ?thesis
          proof (cases b)
            case b: True
            then have b: "b = True" by simp
            have "?Q \<lparr>h_error = None, h_job = None, h_alert = []\<rparr> ?v" using v' by (simp add: handled_ok_def)
            with saving [OF v', of "\<lparr>h_error = None, h_job = Some (job_of p tx), h_alert = []\<rparr>"] show ?thesis
              unfolding Inr b sum.case bool.case dispatch_def wp_bind wp_ask wp_return by simp
          next
            case False
            then have b: "b = False" by simp
            show ?thesis
              unfolding Inr b sum.case bool.case wp_bind wp_return by (rule saving [OF v])
          qed
        qed
      qed
    qed
  qed
qed

section \<open>Pages\<close>

text \<open>
  The pool's whole history in Horizon's order, oldest first: every record has its own paging token,
  and none is the text \<open>0\<close>, the position before the first record, or empty. \<open>position\<close> counts the
  records up to a cursor.
\<close>

definition good_history :: "hz_operation list \<Rightarrow> bool" where
  "good_history hist \<longleftrightarrow> distinct (map paging_token hist) \<and>
     ''0'' \<notin> paging_token ` set hist \<and> [] \<notin> paging_token ` set hist"

definition position :: "hz_operation list \<Rightarrow> string \<Rightarrow> nat" where
  "position hist c =
     (if c = ''0'' then 0 else Suc (length (takeWhile (\<lambda>op. paging_token op \<noteq> c) hist)))"

definition known :: "hz_operation list \<Rightarrow> string \<Rightarrow> bool" where
  "known hist c \<longleftrightarrow> c = ''0'' \<or> c \<in> paging_token ` set hist"

text \<open>Horizon's paging: a page after a cursor is the records that follow it, as many as it returns.\<close>

definition honest_pager ::
  "hz_operation list \<Rightarrow> (nat \<Rightarrow> string \<Rightarrow> string \<Rightarrow> string + hz_operation list) \<Rightarrow> string \<Rightarrow> bool"
where
  "honest_pager hist payments pool \<longleftrightarrow>
     (\<forall>n c ops. payments n pool c = Inr ops \<longrightarrow> known hist c \<longrightarrow>
        ops = take (length ops) (drop (position hist c) hist))"

lemma position_token:
  assumes "good_history hist" "i < length hist"
  shows "position hist (paging_token (hist ! i)) = Suc i"
proof -
  have "takeWhile (\<lambda>op. paging_token op \<noteq> paging_token (hist ! i)) hist = take i hist"
    using assms by (intro takeWhile_eq_take_P_nth) (auto simp: good_history_def distinct_map inj_on_eq_iff nth_eq_iff_index_eq)
  moreover have "paging_token (hist ! i) \<in> paging_token ` set hist" using assms(2) by simp
  then have "paging_token (hist ! i) \<noteq> ''0''"
    using assms(1) by (metis good_history_def)
  ultimately show ?thesis using assms(2) by (simp add: position_def)
qed

lemma position_le: "known hist c \<Longrightarrow> position hist c \<le> length hist"
proof (unfold known_def position_def, elim disjE imageE, goal_cases)
  case (2 op)
  then have "length (takeWhile (\<lambda>op. paging_token op \<noteq> c) hist) < length hist"
    by (metis (mono_tags, lifting) length_takeWhile_le order_le_less set_takeWhileD takeWhile_eq_all_conv
        takeWhile_eq_take take_all_iff)
  then show ?case by simp
qed simp

text \<open>The next record of a page is the one its cursor stands before.\<close>

lemma page_step:
  assumes hist: "good_history hist" "known hist c"
    and page: "op # ops = take (Suc n) (drop (position hist c) hist)"
  shows "position hist c < length hist" "op = hist ! position hist c"
    "known hist (paging_token op)" "position hist (paging_token op) = Suc (position hist c)"
    "ops = take n (drop (position hist (paging_token op)) hist)"
proof -
  show lt: "position hist c < length hist"
  proof (rule ccontr)
    assume "\<not> position hist c < length hist"
    with page show False by simp
  qed
  then have drop: "drop (position hist c) hist = hist ! position hist c # drop (Suc (position hist c)) hist"
    by (rule Cons_nth_drop_Suc [symmetric])
  with page show op: "op = hist ! position hist c" by simp
  show nxt: "position hist (paging_token op) = Suc (position hist c)"
    unfolding op by (rule position_token [OF hist(1) lt])
  show "known hist (paging_token op)" using lt by (simp add: known_def op)
  show "ops = take n (drop (position hist (paging_token op)) hist)" using page drop nxt by simp
qed

section \<open>Several instances\<close>

text \<open>
  A fleet: the shared tables, and for every instance what its watcher of the pool is doing. Between
  two calls of \<open>Run\<close>'s loop it is idle; while it polls, it has a cursor and the rest of a page.
\<close>

datatype poller = Idle | At string "hz_operation list"

record fleet =
  tables :: bridge_world
  pollers :: "nat \<Rightarrow> poller"

text \<open>What everything else in the program does: no row goes away and the pool's cursor is as it was.\<close>

definition steady :: "string \<Rightarrow> bridge_world \<Rightarrow> bridge_world \<Rightarrow> bool" where
  "steady pool w w' \<longleftrightarrow> rows_kept w w' \<and> saved pool w' = saved pool w"

text \<open>
  One call of some instance. A poll is given up on an error, on a cancelled context, in a crash and
  in a restart.
\<close>

inductive fleet_step ::
  "runtime \<Rightarrow> (nat \<Rightarrow> string \<Rightarrow> string \<Rightarrow> string + hz_operation list) \<Rightarrow>
   (nat \<Rightarrow> string \<Rightarrow> string + hz_operation list) \<Rightarrow> string \<Rightarrow> fleet \<Rightarrow> fleet \<Rightarrow> bool"
  for e payments newest pool
where
  begin_poll: "pollers f i = Idle \<Longrightarrow> run_state (poll_start e newest pool) (tables f) = (Inr c, w) \<Longrightarrow>
    fleet_step e payments newest pool f \<lparr>tables = w, pollers = (pollers f)(i := At c [])\<rparr>"
| read_page: "pollers f i = At c [] \<Longrightarrow> payments (tick (tables f)) pool c = Inr ops \<Longrightarrow>
    fleet_step e payments newest pool f
      \<lparr>tables = (tables f)\<lparr>tick := Suc (tick (tables f))\<rparr>, pollers = (pollers f)(i := At c ops)\<rparr>"
| handle_next: "pollers f i = At c (op # ops) \<Longrightarrow> run_state (handle e pool op) (tables f) = (r, w) \<Longrightarrow>
    p = (if h_error r = None then At (paging_token op) ops else Idle) \<Longrightarrow>
    fleet_step e payments newest pool f \<lparr>tables = w, pollers = (pollers f)(i := p)\<rparr>"
| give_up: "fleet_step e payments newest pool f (f\<lparr>pollers := (pollers f)(i := Idle)\<rparr>)"
| others: "steady pool (tables f) w \<Longrightarrow> fleet_step e payments newest pool f (f\<lparr>tables := w\<rparr>)"

text \<open>Everything after \<open>start\<close> and up to \<open>c\<close> is accounted for.\<close>

definition covered :: "hz_operation list \<Rightarrow> string \<Rightarrow> string \<Rightarrow> bridge_world \<Rightarrow> string \<Rightarrow> bool" where
  "covered hist pool start w c \<longleftrightarrow> known hist c \<and> position hist start \<le> position hist c \<and>
     (\<forall>i. position hist start \<le> i \<longrightarrow> i < position hist c \<longrightarrow> noted pool (hist ! i) w)"

definition fleet_inv :: "hz_operation list \<Rightarrow> string \<Rightarrow> string \<Rightarrow> fleet \<Rightarrow> bool" where
  "fleet_inv hist pool start f \<longleftrightarrow> covered hist pool start (tables f) (saved pool (tables f)) \<and>
     (\<forall>i c ops. pollers f i = At c ops \<longrightarrow> covered hist pool start (tables f) c \<and>
        ops = take (length ops) (drop (position hist c) hist))"

lemma covered_kept: "rows_kept w w' \<Longrightarrow> covered hist pool start w c \<Longrightarrow> covered hist pool start w' c"
  by (auto simp: covered_def intro: noted_kept)

lemma covered_next:
  assumes "good_history hist" "covered hist pool start w c"
    and "op # ops = take (Suc n) (drop (position hist c) hist)" "noted pool op w"
  shows "covered hist pool start w (paging_token op)"
  using page_step [OF assms(1) _ assms(3)] assms(2,4) by (auto simp: covered_def less_Suc_eq)

lemma fleet_inv_kept:
  assumes "fleet_inv hist pool start f" "rows_kept (tables f) w" "saved pool w = saved pool (tables f)"
    and "p = Idle \<or> (\<exists>c ops. p = At c ops \<and> covered hist pool start w c \<and>
      ops = take (length ops) (drop (position hist c) hist))"
  shows "fleet_inv hist pool start \<lparr>tables = w, pollers = (pollers f)(i := p)\<rparr>"
  using assms covered_kept [OF assms(2)] unfolding fleet_inv_def by auto

lemma poll_start_saved:
  fixes w :: bridge_world
  assumes "saved pool w \<noteq> []"
  shows "wp (poll_start e newest pool)
    (\<lambda>r w'. dep w' = dep w \<and> (\<forall>c. r = Inr c \<longrightarrow> c = saved pool w)) w"
proof -
  have "wp (get_cursor e pool) (\<lambda>r w'. dep w' = dep w \<and> (\<forall>c. r = Inr c \<longrightarrow> c = saved pool w)) w"
    unfolding get_cursor_def dep_query_def wp_bind wp_return
    by (rule wp_dep_stmt) (auto simp: saved_def wrap_err_def)
  then show ?thesis
    unfolding poll_start_def by (rule wp_bindI) (use assms in \<open>auto split: sum.split\<close>)
qed

lemma fleet_step_inv:
  assumes "fleet_step e payments newest pool f f'" "fleet_inv hist pool start f"
    and "good_history hist" "honest_pager hist payments pool"
  shows "fleet_inv hist pool start f'"
  using assms(1,2)
proof (induction rule: fleet_step.induct)
  case (begin_poll f i c w)
  then have cov: "covered hist pool start (tables f) (saved pool (tables f))" by (simp add: fleet_inv_def)
  then have "saved pool (tables f) \<noteq> []"
    using assms(3) unfolding covered_def known_def good_history_def by (metis list.distinct(1))
  from wp_run [OF begin_poll(2) poll_start_saved [OF this]]
  have same: "dep w = dep (tables f)" "c = saved pool (tables f)" by auto
  then have "rows_kept (tables f) w" "saved pool w = saved pool (tables f)"
    by (simp_all add: rows_kept_same saved_def)
  with begin_poll.prems cov same covered_kept show ?case by (intro fleet_inv_kept) auto
next
  case (read_page f i c ops)
  let ?w = "(tables f)\<lparr>tick := Suc (tick (tables f))\<rparr>"
  have kept: "rows_kept (tables f) ?w" "saved pool ?w = saved pool (tables f)"
    by (simp_all add: rows_kept_same saved_def)
  have cov: "covered hist pool start (tables f) c" using read_page by (auto simp: fleet_inv_def)
  then have "ops = take (length ops) (drop (position hist c) hist)"
    using assms(4) read_page(2) unfolding honest_pager_def covered_def by blast
  with kept cov read_page.prems covered_kept show ?case by (intro fleet_inv_kept) auto
next
  case (handle_next f i c op ops r w p)
  from wp_run [OF handle_next(2) wp_handle]
  have w: "handled_ok pool op (tables f) w" "h_error r = None \<Longrightarrow> noted pool op w" by auto
  then have kept: "rows_kept (tables f) w" by (simp add: handled_ok_def)
  have at: "covered hist pool start (tables f) c \<and>
      op # ops = take (length (op # ops)) (drop (position hist c) hist)"
    using handle_next(1) handle_next.prems unfolding fleet_inv_def by blast
  then have cov: "covered hist pool start w c" using covered_kept [OF kept] by blast
  from at have page: "op # ops = take (Suc (length ops)) (drop (position hist c) hist)" by simp
  have known: "known hist c" using cov by (simp add: covered_def)
  note adv = covered_next [OF assms(3) cov page]
  have "covered hist pool start w (saved pool w)"
    using w(1) adv handle_next.prems covered_kept [OF kept] by (auto simp: handled_ok_def fleet_inv_def)
  moreover have "p = Idle \<or> p = At (paging_token op) ops \<and> covered hist pool start w (paging_token op) \<and>
      ops = take (length ops) (drop (position hist (paging_token op)) hist)"
    using handle_next(3) adv w(2) page_step(5) [OF assms(3) known page] by (auto split: if_splits)
  ultimately show ?case
    using handle_next.prems covered_kept [OF kept] unfolding fleet_inv_def by auto
next
  case (give_up f i)
  then show ?case by (simp add: fleet_inv_def)
next
  case (others f w)
  then show ?case using covered_kept by (auto simp: fleet_inv_def steady_def)
qed

lemma fleet_steps_covered:
  assumes "good_history hist" "honest_pager hist payments pool"
    and "saved pool w = start" "known hist start"
    and "(fleet_step e payments newest pool)\<^sup>*\<^sup>* \<lparr>tables = w, pollers = (\<lambda>i. Idle)\<rparr> f"
  shows "covered hist pool start (tables f) (saved pool (tables f))"
proof -
  have "fleet_inv hist pool start f"
    using assms(5)
  proof (induction rule: rtranclp_induct)
    case base
    then show ?case using assms(3,4) by (simp add: fleet_inv_def covered_def)
  next
    case (step f' f'')
    then show ?case using fleet_step_inv [OF step(2) step(3) assms(1,2)] by blast
  qed
  then show ?thesis by (simp add: fleet_inv_def)
qed


section \<open>The code's loop is a run of the fleet\<close>

text \<open>
  \<open>watcher_run\<close> takes the steps of one instance, and leaves that instance idle: what holds for every
  run of the fleet holds for \<open>Run\<close> as it is written.
\<close>

abbreviation fleet_steps ::
  "runtime \<Rightarrow> (nat \<Rightarrow> string \<Rightarrow> string \<Rightarrow> string + hz_operation list) \<Rightarrow>
   (nat \<Rightarrow> string \<Rightarrow> string + hz_operation list) \<Rightarrow> string \<Rightarrow> fleet \<Rightarrow> fleet \<Rightarrow> bool"
where
  "fleet_steps e payments newest pool \<equiv> (fleet_step e payments newest pool)\<^sup>*\<^sup>*"

definition alone :: "bridge_world \<Rightarrow> poller \<Rightarrow> fleet" where
  "alone w p = \<lparr>tables = w, pollers = (\<lambda>i. Idle)(0 := p)\<rparr>"

lemma idle_alone: "alone w Idle = \<lparr>tables = w, pollers = \<lambda>i. Idle\<rparr>"
  by (auto simp: alone_def)

lemma alone_give_up: "fleet_step e payments newest pool (alone w p) (alone w Idle)"
  using fleet_step.give_up [of e payments newest pool "alone w p" 0] by (simp add: alone_def)

lemma alone_tick: "fleet_step e payments newest pool (alone w p) (alone (w\<lparr>tick := Suc (tick w)\<rparr>) p)"
  using fleet_step.others [of pool "alone w p" "w\<lparr>tick := Suc (tick w)\<rparr>" e payments newest]
  by (simp add: alone_def steady_def rows_kept_same saved_def)

lemma alone_record:
  assumes "run_state (handle e pool op) w = (r, w')"
  shows "fleet_step e payments newest pool (alone w (At c (op # ops)))
    (alone w' (if h_error r = None then At (paging_token op) ops else Idle))"
  using fleet_step.handle_next [of "alone w (At c (op # ops))" 0 c op ops e pool r w', OF _ _ refl] assms
  by (simp add: alone_def)

lemma alone_page:
  assumes "payments (tick w) pool c = Inr ops"
  shows "fleet_step e payments newest pool (alone w (At c [])) (alone (w\<lparr>tick := Suc (tick w)\<rparr>) (At c ops))"
  using fleet_step.read_page [of "alone w (At c [])" 0 c payments pool ops e newest] assms
  by (simp add: alone_def)

lemma alone_begin:
  assumes "run_state (poll_start e newest pool) w = (Inr c, w')"
  shows "fleet_step e payments newest pool (alone w Idle) (alone w' (At c []))"
  using fleet_step.begin_poll [of "alone w Idle" 0 e newest pool c w' payments] assms
  by (simp add: alone_def)

lemma alone_steady:
  assumes "steady pool w w'"
  shows "fleet_step e payments newest pool (alone w p) (alone w' p)"
  using fleet_step.others [of pool "alone w p" w' e payments newest] assms by (simp add: alone_def)

lemma poll_records_steps:
  "run_state (poll_records e pool c ops) w = (r, w') \<Longrightarrow>
    \<exists>p. fleet_steps e payments newest pool (alone w (At c ops)) (alone w' p) \<and>
      (\<forall>c'. fst r = PollNext c' \<longrightarrow> p = At c' [])"
proof (induction ops arbitrary: c w r w')
  case Nil
  then show ?case by auto
next
  case (Cons op ops)
  obtain h v where h: "run_state (handle e pool op) w = (h, v)" by (cases "run_state (handle e pool op) w")
  let ?v = "v\<lparr>tick := Suc (tick v)\<rparr>"
  note first = alone_record [OF h, of payments newest c ops]
  show ?case
  proof (cases "h_error h")
    case (Some m)
    with Cons.prems h have "w' = v" "fst r = PollError m" by (auto simp: Let_def)
    with first Some show ?thesis by auto
  next
    case None
    with first have "fleet_steps e payments newest pool (alone w (At c (op # ops))) (alone v (At (paging_token op) ops))"
      by auto
    then have both: "fleet_steps e payments newest pool (alone w (At c (op # ops))) (alone ?v (At (paging_token op) ops))"
      using alone_tick by (rule rtranclp.rtrancl_into_rtrancl)
    show ?thesis
    proof (cases "ctx_done e (tick v)")
      case True
      with Cons.prems h None both show ?thesis by (auto simp: Let_def ask_def)
    next
      case False
      obtain rest u where rest: "run_state (poll_records e pool (paging_token op) ops) ?v = (rest, u)"
        by (cases "run_state (poll_records e pool (paging_token op) ops) ?v")
      with Cons.prems h None False have "w' = u" "fst r = fst rest"
        by (auto simp: Let_def ask_def)
      with Cons.IH [OF rest] both show ?thesis by (metis rtranclp_trans)
    qed
  qed
qed

lemma poll_page_steps:
  assumes "run_state (poll_page e payments pool c) w = (r, w')"
  shows "\<exists>p. fleet_steps e payments newest pool (alone w (At c [])) (alone w' p) \<and>
    (\<forall>c'. fst r = PollNext c' \<longrightarrow> p = At c' [])"
proof -
  let ?v = "w\<lparr>tick := Suc (tick w)\<rparr>"
  note tick = alone_tick [of e payments newest pool]
  show ?thesis
  proof (cases "payments (tick w) pool c")
    case (Inl m)
    with assms have "w' = ?v" "fst r = PollError m" by (auto simp: poll_page_def ask_def)
    moreover have "fleet_steps e payments newest pool (alone w (At c [])) (alone ?v (At c []))"
      using tick by (rule r_into_rtranclp)
    ultimately show ?thesis by (intro exI [of _ "At c []"]) simp
  next
    case (Inr ops)
    obtain s u where s: "run_state (poll_records e pool c ops) ?v = (s, u)"
      by (cases "run_state (poll_records e pool c ops) ?v")
    from poll_records_steps [OF s] obtain p where p:
      "fleet_steps e payments newest pool (alone ?v (At c ops)) (alone u p)"
      "\<forall>c'. fst s = PollNext c' \<longrightarrow> p = At c' []" by blast
    have run: "fleet_steps e payments newest pool (alone w (At c [])) (alone u p)"
      using alone_page [of payments w pool c ops, OF Inr] p(1) by (rule converse_rtranclp_into_rtranclp)
    show ?thesis
    proof (cases "\<exists>c'. fst s = PollNext c' \<and> length ops \<noteq> page_size")
      case True
      then obtain c' where c': "fst s = PollNext c'" "length ops \<noteq> page_size" by blast
      with assms Inr s have "w' = u\<lparr>tick := Suc (tick u)\<rparr>"
        "fst r = PollStopped \<or> fst r = PollNext c'"
        by (auto simp: poll_page_def ask_def split: if_splits)
      moreover have "p = At c' []" using p(2) c'(1) by simp
      moreover have "fleet_steps e payments newest pool (alone w (At c [])) (alone (u\<lparr>tick := Suc (tick u)\<rparr>) p)"
        using run tick by (rule rtranclp.rtrancl_into_rtrancl)
      ultimately show ?thesis by (intro exI [of _ p]) auto
    next
      case False
      with assms Inr s have "w' = u" "r = s"
        by (auto simp: poll_page_def ask_def split: poll_outcome.splits if_splits)
      with run p(2) show ?thesis by blast
    qed
  qed
qed

lemma poll_loop_steps:
  "run_state (poll_loop e payments pool n c) w = (r, w') \<Longrightarrow>
    fleet_steps e payments newest pool (alone w (At c [])) (alone w' Idle)"
proof (induction n arbitrary: c w r w')
  case 0
  then show ?case using alone_give_up by (auto intro: r_into_rtranclp)
next
  case (Suc n)
  obtain s u where s: "run_state (poll_page e payments pool c) w = (s, u)"
    by (cases "run_state (poll_page e payments pool c) w")
  from poll_page_steps [OF s] obtain p where p:
    "fleet_steps e payments newest pool (alone w (At c [])) (alone u p)"
    "\<forall>c'. fst s = PollNext c' \<longrightarrow> p = At c' []" by blast
  show ?case
  proof (cases "\<exists>c'. fst s = PollNext c'")
    case True
    then obtain c' where c': "fst s = PollNext c'" by blast
    obtain q v where q: "run_state (poll_loop e payments pool n c') u = (q, v)"
      by (cases "run_state (poll_loop e payments pool n c') u")
    with Suc.prems s c' have "w' = v" by auto
    with Suc.IH [OF q] p c' show ?thesis by (metis rtranclp_trans)
  next
    case False
    with Suc.prems s have "w' = u" by (auto split: poll_outcome.splits)
    with p(1) alone_give_up show ?thesis by (metis rtranclp.rtrancl_into_rtrancl)
  qed
qed

lemma poll_steps:
  assumes "run_state (poll e payments newest pool n) w = (r, w')"
  shows "fleet_steps e payments newest pool (alone w Idle) (alone w' Idle)"
proof -
  obtain s u where s: "run_state (poll_start e newest pool) w = (s, u)"
    by (cases "run_state (poll_start e newest pool) w")
  show ?thesis
  proof (cases s)
    case (Inl m)
    have "wp (poll_start e newest pool) (\<lambda>_ w'. dep w' = dep w) w"
      unfolding poll_start_def get_cursor_def latest_cursor_def wp_bind wp_return dep_query_def
      by (rule wp_dep_stmt) (auto split: sum.split)
    from wp_run [OF s this] have "steady pool w u" by (simp add: steady_def rows_kept_same saved_def)
    moreover from assms s Inl have "w' = u" by (auto simp: poll_def)
    ultimately show ?thesis using alone_steady by (metis r_into_rtranclp)
  next
    case (Inr c)
    obtain q v where q: "run_state (poll_loop e payments pool n c) u = (q, v)"
      by (cases "run_state (poll_loop e payments pool n c) u")
    with assms s Inr have "w' = v" by (auto simp: poll_def)
    with alone_begin s Inr poll_loop_steps [OF q] show ?thesis
      by (metis converse_rtranclp_into_rtranclp)
  qed
qed

lemma watcher_run_steps:
  "run_state (watcher_run e payments newest pool pages n) w = (r, w') \<Longrightarrow>
    fleet_steps e payments newest pool (alone w Idle) (alone w' Idle)"
proof (induction n arbitrary: w r w')
  case (Suc n)
  obtain s u where s: "run_state (poll e payments newest pool pages) w = (s, u)"
    by (cases "run_state (poll e payments newest pool pages) w")
  note run = poll_steps [OF s]
  let ?u = "u\<lparr>tick := Suc (tick u)\<rparr>"
  have ticked: "fleet_steps e payments newest pool (alone w Idle) (alone ?u Idle)"
    using run alone_tick by (rule rtranclp.rtrancl_into_rtrancl)
  obtain q v where q: "run_state (watcher_run e payments newest pool pages n) ?u = (q, v)"
    by (cases "run_state (watcher_run e payments newest pool pages n) ?u")
  from Suc.prems s q have "w' = u \<or> w' = ?u \<or> w' = v"
    by (auto simp: ask_def split: option.splits if_splits)
  then show ?case
  proof (elim disjE)
    assume "w' = v"
    then show ?case using rtranclp_trans [OF ticked Suc.IH [OF q]] by simp
  qed (use run ticked in simp_all)
qed simp

section \<open>The rest of the bridge is steady\<close>

lemma steady_cursors:
  "forwards (dep w') = forwards (dep w) \<Longrightarrow> cursors (dep w') = cursors (dep w) \<Longrightarrow> steady pool w w'"
  unfolding steady_def by (intro conjI rows_kept_same saved_same)

lemma steady_trans: "steady pool u v \<Longrightarrow> steady pool v w \<Longrightarrow> steady pool u w"
  by (auto simp: steady_def intro: rows_kept_trans)

interpretation sd: bridge_rel e h "steady pool" for e h pool
proof unfold_locales
  fix w :: bridge_world and f cond
  assume "row_op (db_now e (tick w)) f"
  then have "forward_op f" by (rule row_op_forward_op)
  then show "steady pool w (w\<lparr>tick := Suc (tick w), dep := snd (update_forward h cond f (dep w))\<rparr>)"
    by (auto simp: steady_def rows_kept_def forward_op.row_after intro: saved_same)
next
  fix u v w
  assume "steady pool u v" "steady pool v w"
  then show "steady pool u w" by (rule steady_trans)
next
  show "steady pool w (w\<lparr>tick := Suc (tick w),
      dep := snd (update_forward h cond (submission_row (db_now e (tick w)) x until) (dep w))\<rparr>)"
    and "steady pool w (w\<lparr>tick := Suc (tick w),
      dep := snd (update_forward h cond (clear_row (db_now e (tick w))) (dep w))\<rparr>)" for w cond x until
    by (auto simp: steady_def rows_kept_def submission.row_after clear.row_after intro: saved_same)
qed (simp_all add: steady_cursors)

lemma sd_stmt:
  assumes "\<And>now db. forwards (snd (stmt now db)) = forwards db" "\<And>now db. cursors (snd (stmt now db)) = cursors db"
  shows "sd.keeps pool (dep_stmt e stmt)"
  by (rule sd.keeps_dep_stmt) (simp add: assms steady_cursors)

lemma other_stmts_cursors [simp]:
  "cursors (snd (insert_intent now uuid m ca pool ea ex ext db)) = cursors db"
  "cursors (snd (set_external_id_update now m x db)) = cursors db"
  "cursors (snd (expire_stale_intents_stmt now db)) = cursors db"
  by (simp_all add: insert_intent_def set_external_id_update_def expire_stale_intents_stmt_def
      Let_def case_prod_beta)

lemma sd_create_intent: "sd.keeps pool (create_intent e ca p ea ex ext)"
proof -
  have "sd.keeps pool (create_intent_tries e n ca p ea ex ext)" for n
  proof (induction n)
    case (Suc n)
    then show ?case
      unfolding create_intent_tries.simps
      by (intro sd.keeps_bind sd.keeps_ask sd.keeps_sum sd.keeps_option sd.keeps_ret sd_stmt) simp_all
  qed simp
  then show ?thesis unfolding create_intent_def .
qed

lemma sd_bind_order: "sd.keeps pool (set_intent_external_id e m ext)"
  unfolding set_intent_external_id_def
  by (auto intro!: sd_stmt split: sum.split option.split)

lemma sd_retry_tick: "sd.keeps pool (retry_tick e)"
  unfolding retry_tick_def expire_stale_intents_def get_pending_retries_def
  by (intro sd.keeps_bind sd.keeps_ret sd.keeps_query sd_stmt) simp_all

text \<open>A step of the bridge is a record of this pool, or steady for it.\<close>

lemma sd_handle_other:
  assumes "pool' \<noteq> pool"
  shows "sd.keeps pool (handle e pool' op)"
proof -
  have save: "sd.keeps pool (save_cursor e pool' tok)" for tok
    unfolding save_cursor_def upsert_cursor_def
    by (intro sd.keeps_bind sd.keeps_exec sd.keeps_ret)
      (use assms in \<open>simp add: steady_def rows_kept_same saved_def saved_upsert\<close>)
  have insert: "sd.keeps pool (insert_forward e h m pool' fa amt ass la)" for h m fa amt ass la
    unfolding insert_forward_def
    by (intro sd.keeps_bind sd.keeps_dep_stmt sd.keeps_ret)
      (auto simp: steady_def rows_kept_def insert_forward_row intro: saved_same split: option.split)
  show ?thesis
    unfolding handle_def dispatch_def Let_def
    by (intro sd.keeps_option sd.keeps_bind sd.keeps_sum save insert sd.keeps_ret sd.keeps_ask sd.keeps_if)
      (auto intro!: save split: bool.split)
qed

lemma bridge_step_steady:
  assumes "bridge_step e k cfg s s'"
  shows "steady pool (world s) (world s') \<or>
    (\<exists>op r. run_state (handle e pool op) (world s) = (r, world s'))"
  using assms
proof (induction rule: bridge_step.induct)
  case (watch p op s r w)
  then show ?case using sd.keepsD [OF sd_handle_other [of p pool e op]] by (cases "p = pool") auto
next
  case (work s p j js u w)
  then show ?case
    using sd.keepsD [OF sd.keeps_forward_recorded [OF refl]] unfolding forward_job_run_def by auto
next
  case (fetch s fwds w)
  then show ?case using sd.keepsD [OF sd_retry_tick] by auto
next
  case (retry s fwd fwds u w)
  then show ?case using sd.keepsD [OF sd.keeps_retry [OF refl]] by auto
next
  case (mint c_addr p expected expires ext s r w)
  then show ?case using sd.keepsD [OF sd_create_intent] by auto
next
  case (bind_order m ext s r w)
  then show ?case using sd.keepsD [OF sd_bind_order] by auto
qed (simp_all add: steady_cursors)

section \<open>A backlog drains\<close>

text \<open>From now on every statement is acknowledged and the context is live.\<close>

definition answering :: "runtime \<Rightarrow> bridge_world \<Rightarrow> bool" where
  "answering e w \<longleftrightarrow> (\<forall>n \<ge> tick w. db_reply e n = DbOk \<and> \<not> ctx_done e n)"

lemma answering_now: "answering e w \<Longrightarrow> db_reply e (tick w) = DbOk \<and> \<not> ctx_done e (tick w)"
  by (simp add: answering_def)

lemma answering_tick [simp]: "answering e w \<Longrightarrow> answering e (w\<lparr>tick := Suc (tick w)\<rparr>)"
  by (simp add: answering_def)

lemma wp_stmt_ok:
  assumes "answering e w"
  shows "wp (dep_stmt e stmt) (\<lambda>r w'. r = Inr (fst (stmt (db_now e (tick w)) (dep w))) \<and>
    dep w' = snd (stmt (db_now e (tick w)) (dep w)) \<and> answering e w') w"
  using assms answering_now [OF assms]
  by (simp add: wp_def dep_stmt_def db_stmt_def Let_def case_prod_beta answering_def)

lemma wp_save_ok:
  assumes "answering e w"
  shows "wp (save_cursor e pool tok) (\<lambda>_ w'. saved pool w' = tok \<and> answering e w') w"
  unfolding save_cursor_def upsert_cursor_def exec_def wp_bind wp_return
  by (rule wp_mono [OF wp_stmt_ok [OF assms]]) (auto simp: saved_def saved_upsert)

lemma wp_handle_ok:
  assumes "answering e w"
  shows "wp (handle e pool op) (\<lambda>r w'. h_error r = None \<and> saved pool w' = paging_token op \<and> answering e w') w"
proof -
  have save: "wp (save_cursor e pool (paging_token op))
      (\<lambda>_ w'. h_error x = None \<and> saved pool w' = paging_token op \<and> answering e w') v"
    if "answering e v" "h_error x = None" for v x
    by (rule wp_mono [OF wp_save_ok [OF that(1)]]) (simp add: that(2))
  have insert: "wp (insert_forward e h m pool fa amt ass la) (\<lambda>r w'. (\<exists>b. r = Inr b) \<and> answering e w') w"
    for h m fa amt ass la
    unfolding insert_forward_def wp_bind wp_return
    by (rule wp_mono [OF wp_stmt_ok [OF assms]]) (auto simp: wrap_err_def)
  show ?thesis
  proof (cases "payment_to (op_body op) pool")
    case None
    show ?thesis
      unfolding handle_def None option.case wp_bind wp_return by (rule save [OF assms]) simp
  next
    case (Some p)
    show ?thesis
    proof (cases "pay_transaction p")
      case None
      show ?thesis
        unfolding handle_def Some None option.case wp_bind wp_return by (rule save [OF assms]) simp
    next
      case tx: (Some tx)
      show ?thesis
        unfolding handle_def Some tx option.case Let_def
      proof (rule wp_bindI [OF insert], goal_cases)
        case (1 r v)
        then obtain b where r: "r = Inr b" and v: "answering e v" by blast
        show ?case
        proof (cases b)
          case True
          then have b: "b = True" by simp
          show ?thesis
            unfolding r b sum.case bool.case dispatch_def wp_bind wp_ask wp_return
            using save [OF answering_tick [OF v], of "\<lparr>h_error = None, h_job = Some (job_of p tx), h_alert = []\<rparr>"]
              answering_now [OF v] by simp
        next
          case False
          then have b: "b = False" by simp
          show ?thesis
            unfolding r b sum.case bool.case wp_bind wp_return by (rule save [OF v]) simp
        qed
      qed
    qed
  qed
qed

definition page_end :: "string \<Rightarrow> hz_operation list \<Rightarrow> string" where
  "page_end c ops = (if ops = [] then c else paging_token (last ops))"

lemma wp_records_ok:
  "answering e w \<Longrightarrow> saved pool w = c \<Longrightarrow>
    wp (poll_records e pool c ops) (\<lambda>r w'. fst r = PollNext (page_end c ops) \<and>
      saved pool w' = page_end c ops \<and> answering e w') w"
proof (induction ops arbitrary: c w)
  case Nil
  then show ?case by (simp add: page_end_def)
next
  case (Cons op ops)
  show ?case
    unfolding poll_records.simps
  proof (rule wp_bindI [OF wp_handle_ok [OF Cons.prems(1)]], goal_cases)
    case (1 r v)
    let ?v = "v\<lparr>tick := Suc (tick v)\<rparr>"
    from 1 have v: "answering e ?v" "saved pool ?v = paging_token op" "\<not> ctx_done e (tick v)"
      using answering_now by (auto simp: saved_def)
    have "page_end c (op # ops) = page_end (paging_token op) ops" by (simp add: page_end_def)
    with 1 v(3) show ?case
      unfolding Let_def by (simp add: wp_mono [OF Cons.IH [OF v(1,2)]])
  qed
qed

text \<open>A page of Horizon's that is never shorter than it has to be.\<close>

definition full_pager ::
  "hz_operation list \<Rightarrow> (nat \<Rightarrow> string \<Rightarrow> string \<Rightarrow> string + hz_operation list) \<Rightarrow> string \<Rightarrow> bool"
where
  "full_pager hist payments pool \<longleftrightarrow>
     (\<forall>n c. known hist c \<longrightarrow> payments n pool c = Inr (take page_size (drop (position hist c) hist)))"

lemma full_pager_honest: "full_pager hist payments pool \<Longrightarrow> honest_pager hist payments pool"
proof -
  have "take n xs = take (length (take n xs)) xs" for n and xs :: "hz_operation list" by (simp add: min_def)
  then show "full_pager hist payments pool \<Longrightarrow> honest_pager hist payments pool"
    unfolding full_pager_def honest_pager_def by (metis sum.inject(2))
qed

lemma page_end_position:
  assumes "good_history hist" "known hist c" "ops = take n (drop (position hist c) hist)"
  shows "known hist (page_end c ops) \<and> position hist (page_end c ops) = min (position hist c + n) (length hist)"
proof (cases "ops = []")
  case True
  with assms(3) have "n = 0 \<or> length hist \<le> position hist c" by auto
  with True assms(2) position_le [OF assms(2)] show ?thesis by (auto simp: page_end_def)
next
  case False
  let ?m = "length ops"
  have m: "?m = min n (length hist - position hist c)" using assms(3) by simp
  have pos: "0 < ?m" using False by simp
  with m have lt: "position hist c + (?m - 1) < length hist" "?m - 1 < n" by linarith+
  have "last ops = ops ! (?m - 1)" using False by (rule last_conv_nth)
  then have op: "last ops = hist ! (position hist c + (?m - 1))" using lt by (simp add: assms(3))
  then have "position hist (page_end c ops) = position hist c + ?m"
    using position_token [OF assms(1) lt(1)] False pos by (simp add: page_end_def)
  moreover have "known hist (page_end c ops)" using False op lt(1) by (simp add: page_end_def known_def)
  ultimately show ?thesis using m position_le [OF assms(2)] by auto
qed

lemma wp_page_ok:
  assumes "good_history hist" "full_pager hist payments pool" "known hist c"
    and "answering e w" "saved pool w = c"
  shows "wp (poll_page e payments pool c) (\<lambda>r w'. \<exists>c'. fst r = PollNext c' \<and> saved pool w' = c' \<and>
    known hist c' \<and> position hist c' = min (position hist c + page_size) (length hist) \<and> answering e w') w"
proof -
  let ?ops = "take page_size (drop (position hist c) hist)"
  let ?w = "w\<lparr>tick := Suc (tick w)\<rparr>"
  have page: "payments (tick w) pool c = Inr ?ops" using assms(2,3) by (simp add: full_pager_def)
  have w: "answering e ?w" "saved pool ?w = c" using assms(4,5) by (simp_all add: saved_def)
  note ends = page_end_position [OF assms(1,3) refl, of page_size]
  have last: "answering e v \<Longrightarrow> \<not> ctx_done e (tick v)" "answering e v \<Longrightarrow> saved pool (v\<lparr>tick := Suc (tick v)\<rparr>) = saved pool v" for v
    by (simp_all add: answering_def saved_def)
  show ?thesis
    unfolding poll_page_def wp_bind wp_ask page sum.case
    by (rule wp_mono [OF wp_records_ok [OF w]]) (use ends last in auto)
qed

lemma wp_loop_ok:
  "good_history hist \<Longrightarrow> full_pager hist payments pool \<Longrightarrow> known hist c \<Longrightarrow> answering e w \<Longrightarrow>
    saved pool w = c \<Longrightarrow>
    wp (poll_loop e payments pool k c) (\<lambda>r w'. fst r = None \<and>
      position hist (saved pool w') = min (position hist c + k * page_size) (length hist)) w"
proof (induction k arbitrary: c w)
  case 0
  then show ?case using position_le [of hist c] by simp
next
  case (Suc k)
  show ?case
    unfolding poll_loop.simps
  proof (rule wp_bindI [OF wp_page_ok [OF Suc.prems]], goal_cases)
    case (1 r v)
    then obtain c' where r: "fst r = PollNext c'" and v: "saved pool v = c'" "known hist c'" "answering e v"
      and pos: "position hist c' = min (position hist c + page_size) (length hist)" by blast
    have "min (position hist c' + k * page_size) (length hist) =
      min (position hist c + Suc k * page_size) (length hist)"
      by (simp add: pos min_def)
    with Suc.IH [OF Suc.prems(1,2) v(2,3,1)] show ?case
      unfolding r poll_outcome.case wp_bind wp_return by (auto elim: wp_mono)
  qed
qed

text \<open>
  C11: a backlog drains. When the statements are acknowledged, the context is live and Horizon serves
  full pages, a poll of \<open>k\<close> pages from the saved cursor reaches the end of a history that is at most
  \<open>k\<close> pages of two hundred records ahead, with every payment on the way in the table; and it goes on
  polling.
\<close>

theorem backlog_drains:
  assumes "good_history hist" "full_pager hist payments pool"
    and "known hist (saved pool w)" "answering e w"
    and "length hist \<le> position hist (saved pool w) + k * page_size"
    and "run_state (poll e payments newest pool k) w = (r, w')"
  shows "fst r = None \<and> position hist (saved pool w') = length hist \<and>
    (\<forall>i p tx. position hist (saved pool w) \<le> i \<longrightarrow> i < length hist \<longrightarrow>
      payment_to (op_body (hist ! i)) pool = Some p \<longrightarrow> pay_transaction p = Some tx \<longrightarrow>
      fwd_row (dep w') (job_tx_hash (job_of p tx)) \<noteq> None)"
proof -
  let ?c = "saved pool w"
  have c: "?c \<noteq> []" using assms(1,3) unfolding known_def good_history_def by (metis list.distinct(1))
  have "wp (get_cursor e pool) (\<lambda>r w'. r = Inr ?c \<and> saved pool w' = ?c \<and> answering e w') w"
    unfolding get_cursor_def dep_query_def wp_bind wp_return
    by (rule wp_mono [OF wp_stmt_ok [OF assms(4)]]) (auto simp: saved_def wrap_err_def)
  then have "wp (poll_start e newest pool) (\<lambda>r w'. r = Inr ?c \<and> saved pool w' = ?c \<and> answering e w') w"
    unfolding poll_start_def by (rule wp_bindI) (simp add: c)
  then have "wp (poll e payments newest pool k) (\<lambda>r w'. fst r = None \<and>
      position hist (saved pool w') = min (position hist ?c + k * page_size) (length hist)) w"
    unfolding poll_def by (rule wp_bindI) (simp add: wp_loop_ok [OF assms(1-3)])
  from wp_run [OF assms(6) this] assms(5)
  have "fst r = None" and pos: "position hist (saved pool w') = length hist" by simp_all
  moreover have "covered hist pool ?c w' (saved pool w')"
    using fleet_steps_covered [OF assms(1) full_pager_honest [OF assms(2)] refl assms(3)
        poll_steps [OF assms(6), unfolded idle_alone]] by simp
  ultimately show ?thesis by (auto simp: covered_def noted_def)
qed

section \<open>A concrete pool\<close>

text \<open>A pager that serves full pages of a history, and a world whose saved cursor is the first position.\<close>

definition demo_pager :: "hz_operation list \<Rightarrow> nat \<Rightarrow> string \<Rightarrow> string \<Rightarrow> string + hz_operation list" where
  "demo_pager hist n pool c = Inr (take page_size (drop (position hist c) hist))"

definition demo_world :: bridge_world where
  "demo_world = (world demo_start)\<lparr>dep := (dep (world demo_start))\<lparr>cursors :=
     [\<lparr>cursor_pool = ''POOL'', cursor_token = ''0'', cursor_updated_at = 0\<rparr>]\<rparr>\<rparr>"

definition demo_poll :: "(poll_outcome option \<times> forward_job list) \<times> bridge_world" where
  "demo_poll = run_state (poll demo_runtime (demo_pager [demo_deposit]) (\<lambda>n p. Inr []) ''POOL'' 1) demo_world"

lemma demo_pager_full: "full_pager hist (demo_pager hist) pool"
  by (simp add: full_pager_def demo_pager_def)

lemma demo_history: "good_history [demo_deposit]" "known [demo_deposit] (saved ''POOL'' demo_world)"
  "position [demo_deposit] (saved ''POOL'' demo_world) = 0"
  by (simp_all add: good_history_def demo_deposit_def known_def position_def saved_def demo_world_def
      demo_start_def get_cursor_stmt_def select_one_def)

lemma demo_polled: "saved ''POOL'' (snd demo_poll) = ''77''"
  by code_simp


theorem backlog_drains_witness:
  "fst (fst demo_poll) = None \<and> position [demo_deposit] (saved ''POOL'' (snd demo_poll)) = 1"
proof -
  have "answering demo_runtime demo_world" by (simp add: answering_def demo_runtime_def Let_def)
  moreover have "length [demo_deposit] \<le> position [demo_deposit] (saved ''POOL'' demo_world) + 1 * page_size"
    by (simp add: page_size_def)
  moreover have "run_state (poll demo_runtime (demo_pager [demo_deposit]) (\<lambda>n p. Inr []) ''POOL'' 1) demo_world =
      (fst demo_poll, snd demo_poll)"
    by (simp add: demo_poll_def)
  ultimately have "fst (fst demo_poll) = None \<and>
      position [demo_deposit] (saved ''POOL'' (snd demo_poll)) = length [demo_deposit]"
    using backlog_drains [OF demo_history(1) demo_pager_full demo_history(2)] by blast
  then show ?thesis by simp
qed

section \<open>A pool with no saved cursor\<close>

text \<open>
  The start of the first poll is not saved. When that poll fails before it has handled a record, the
  next one starts from the newest payment again, and a deposit that arrived in between is skipped: in
  this run the pool has one payment, the first page request fails, a second payment arrives before
  the restart, and a third one after it. The saved cursor is past the second payment, which has no
  row.
\<close>

definition demo_op :: "string \<Rightarrow> string \<Rightarrow> hz_operation" where
  "demo_op h tok = \<lparr>op_body = OpPayment
     \<lparr>pay_id = tok, pay_tx_hash = h, pay_from = ''G'', pay_to = ''POOL'', pay_to_muxed = [],
      pay_to_muxed_id = 0, pay_amount = ''5'', pay_asset_type = ''native'', pay_asset_code = [],
      pay_asset_issuer = [], pay_close_time = 0,
      pay_transaction = Some \<lparr>memo_type = ''none'', memo_text = [], operation_count = 1\<rparr>\<rparr>,
     paging_token = tok\<rparr>"

definition fresh_run :: "(bool \<times> forward_job list) \<times> bridge_world" where
  "fresh_run =
     (let hist = [demo_op ''A'' ''1'', demo_op ''B'' ''2'', demo_op ''C'' ''3''] in
      run_state (watcher_run demo_runtime
        (\<lambda>n pool c. if n = 2 then Inl ''timeout'' else demo_pager hist n pool c)
        (\<lambda>n pool. Inr [if n < 4 then demo_op ''A'' ''1'' else demo_op ''B'' ''2'']) ''POOL'' 1 2)
        (world demo_start))"

lemma fresh_pool_skips_deposit:
  "saved ''POOL'' (snd fresh_run) = ''3'' \<and> fwd_row (dep (snd fresh_run)) ''B'' = None"
  by code_simp

end
