(* ===== verification/Loops.thy ===== *)
theory Loops
  imports Watcher_Laws Gasless_Service
begin

text \<open>
  The background loops of the two services: \<open>Worker.Run\<close> (\<open>internal/service/retry/retry.go\<close>),
  \<open>Resolver.Run\<close> (\<open>internal/gasless/sponsor/resolver.go\<close>) and \<open>Monitor.Run\<close>
  (\<open>internal/gasless/balance/monitor.go\<close>). Each is a \<open>select\<close> between the context and a ticker. The lemmas
  lift what one round keeps to the whole loop, and show that a loop ends at the first \<open>select\<close> that
  sees its context done.
\<close>

section \<open>A ticker\<close>

text \<open>The fuel counts the rounds; \<open>False\<close> is a loop that is still running when it is used up.\<close>

fun ticker_loop ::
  "runtime \<Rightarrow> ('w base_world_scheme, unit) state \<Rightarrow> nat \<Rightarrow> ('w base_world_scheme, bool) state"
where
  "ticker_loop e body 0 = ret False"
| "ticker_loop e body (Suc n) = do {
     stopped \<leftarrow> ask (ctx_done e);
     if stopped then ret True
     else do { body; ticker_loop e body n }
   }"

lemma ticker_stops:
  "ctx_done e (tick w) \<Longrightarrow> run_state (ticker_loop e body (Suc n)) w = (True, w\<lparr>tick := Suc (tick w)\<rparr>)"
  by (simp add: ask_def)

text \<open>The interface: a condition on the state that a round and a question to the outside keep.\<close>

locale ticked =
  fixes e :: runtime and body :: "('w base_world_scheme, unit) state" and I :: "'w base_world_scheme \<Rightarrow> bool"
  assumes round: "I w \<Longrightarrow> wp body (\<lambda>_. I) w"
    and asking: "I w \<Longrightarrow> I (w\<lparr>tick := Suc (tick w)\<rparr>)"
begin

lemma loop_keeps: "I w \<Longrightarrow> wp (ticker_loop e body n) (\<lambda>_. I) w"
proof (induction n arbitrary: w)
  case (Suc n)
  then show ?case by (simp add: asking wp_mono [OF round])
qed simp

end

section \<open>The retry worker\<close>

definition retry_round :: "runtime \<Rightarrow> sdk \<Rightarrow> bridge_config \<Rightarrow> unit bridge" where
  "retry_round e k cfg = do { fwds \<leftarrow> retry_tick e; retry_all e k cfg fwds }"

definition retry_run :: "runtime \<Rightarrow> sdk \<Rightarrow> bridge_config \<Rightarrow> nat \<Rightarrow> bool bridge" where
  "retry_run e k cfg n = ticker_loop e (retry_round e k cfg) n"

lemma sd_retry_all: "sd.keeps pool (retry_all e k cfg fwds)"
proof (induction fwds)
  case Nil
  show ?case unfolding retry_all.simps by (rule sd.keeps_ret)
next
  case (Cons fwd fwds)
  have "sd.keeps pool (retry e k cfg fwd)" by (rule sd.keeps_retry) (rule refl)
  then show ?case unfolding retry_all.simps by (rule sd.keeps_bind) (rule Cons)
qed

interpretation rt_loop: ticked e "retry_round e k cfg" "steady pool w0" for e k cfg pool w0
proof unfold_locales
  fix w
  assume w: "steady pool w0 w"
  have keeps: "sd.keeps pool (retry_round e k cfg)"
    unfolding retry_round_def by (rule sd.keeps_bind) (rule sd_retry_tick, rule sd_retry_all)
  show "wp (retry_round e k cfg) (\<lambda>_. steady pool w0) w"
    by (rule wp_runI) (rule steady_trans [OF w sd.keepsD [OF keeps]])
next
  fix w
  assume "steady pool w0 w"
  then show "steady pool w0 (w\<lparr>tick := Suc (tick w)\<rparr>)"
    by (simp add: steady_def rows_kept_def saved_def)
qed

text \<open>The retry worker never removes a deposit and never moves a cursor, however long it runs.\<close>

lemma retry_run_steady: "wp (retry_run e k cfg n) (\<lambda>_. steady pool w) w"
  unfolding retry_run_def by (rule rt_loop.loop_keeps) (simp add: steady_def)

section \<open>The resolver and the balance monitor\<close>

definition resolver_run :: "gasless_runtime \<Rightarrow> gasless_sdk \<Rightarrow> int \<Rightarrow> nat \<Rightarrow> bool gasless" where
  "resolver_run e k threshold n = ticker_loop (rt e) (resolver_tick e k threshold) n"

text \<open>\<open>Monitor.Run\<close> checks once before its loop.\<close>

definition monitor_run :: "gasless_runtime \<Rightarrow> gasless_sdk \<Rightarrow> monitor_config \<Rightarrow> nat \<Rightarrow> bool gasless" where
  "monitor_run e k mc n = do { monitor_check e k mc; ticker_loop (rt e) (monitor_check e k mc) n }"

interpretation rs_loop: ticked "rt e" "resolver_tick e k threshold" "settles w0" for e k threshold w0
proof unfold_locales
  fix w
  assume "settles w0 w"
  then show "wp (resolver_tick e k threshold) (\<lambda>_. settles w0) w"
    by (intro wp_mono [OF wp_resolver_tick_settles]) (rule settles_trans)
next
  fix w
  assume "settles w0 w"
  then show "settles w0 (w\<lparr>tick := Suc (tick w)\<rparr>)" by (simp add: settles_def)
qed

text \<open>The resolver sends nothing and adds or drops no record.\<close>

lemma resolver_run_settles: "wp (resolver_run e k threshold n) (\<lambda>_. settles w) w"
  unfolding resolver_run_def by (rule rs_loop.loop_keeps) (simp add: settles_def)

definition records_same :: "gasless_world \<Rightarrow> gasless_world \<Rightarrow> bool" where
  "records_same w0 w \<longleftrightarrow> sponsored w = sponsored w0 \<and> accepted w = accepted w0"

interpretation mn_loop: ticked "rt e" "monitor_check e k mc" "records_same w0" for e k mc w0
proof unfold_locales
  fix w
  assume "records_same w0 w"
  then show "wp (monitor_check e k mc) (\<lambda>_. records_same w0) w"
    by (intro wp_mono [OF wp_monitor_check]) (simp add: records_same_def)
next
  fix w
  assume "records_same w0 w"
  then show "records_same w0 (w\<lparr>tick := Suc (tick w)\<rparr>)" by (simp add: records_same_def)
qed

text \<open>The monitor leaves every record of a sponsored request as it is.\<close>

lemma monitor_run_records: "wp (monitor_run e k mc n) (\<lambda>_. records_same w) w"
  unfolding monitor_run_def
  by (rule wp_bindI [OF mn_loop.round]) (simp add: records_same_def, rule mn_loop.loop_keeps)

end
