(* ===== verification/Shutdown.thy ===== *)
theory Shutdown
  imports Watcher_Run Http
begin

text \<open>
  The life of a process: \<open>main\<close> of \<open>cmd/serve\<close> and of \<open>cmd/gasless\<close> from the start of the background
  goroutines to the exit, with the HTTP server, the loops and the tracked work that run beside it. Each
  rule is one action of a goroutine. What the two services put on the tracker is a parameter; it is
  instantiated with the watchers' workers of the deposit bridge and with the submissions of the
  gasless service. The theorems say what is finished when the process exits.
\<close>

section \<open>State\<close>

text \<open>
  Where \<open>main\<close> is: at the \<open>select\<close> on signal and context; before \<open>draining.Set\<close>; before \<open>cancel\<close>; in
  \<open>srv.Shutdown\<close>; before \<open>work.Drain\<close>; in it; waiting for the loops; gone.
\<close>

datatype main_phase = Serving | Stopping | Refusing | Shutting | Closed | Draining | Awaiting | Exited

text \<open>A background goroutine: not scheduled yet, in its loop, returned.\<close>

datatype loop_state = Starting | Looping | Over

text \<open>
  \<open>handlers\<close> are the paths of the requests past the concurrency cap, \<open>context_done\<close> is \<open>ctx\<close>, \<open>clean\<close>
  that \<open>srv.Shutdown\<close> returned without an error.
\<close>

record ('s, 'u) process =
  phase :: main_phase
  front :: inflight
  handlers :: "string list"
  context_done :: bool
  clean :: bool
  work :: "('s, 'u) tracker"
  loops :: "loop_state list"

text \<open>
  A service: the cap on requests, what its tasks do, what loop \<open>i\<close> starts on the tracker and does to the
  state the tasks share, what the end of the context does to it, and the tasks requests may start.
\<close>

record ('s, 'u) service_parts =
  max_slots :: nat
  loop_count :: nat
  shared_start :: 's
  task_act :: "bool \<Rightarrow> 's \<Rightarrow> 'u \<Rightarrow> 's \<Rightarrow> 'u option \<Rightarrow> bool"
  loop_tasks :: "nat \<Rightarrow> 'u list"
  loop_feeds :: "nat \<Rightarrow> 's \<Rightarrow> 's \<Rightarrow> bool"
  on_cancel :: "'s \<Rightarrow> 's"
  request_task :: "'u \<Rightarrow> bool"

definition process_start :: "('s, 'u) service_parts \<Rightarrow> ('s, 'u) process" where
  "process_start g =
     \<lparr>phase = Serving, front = \<lparr>slots_used = 0, draining = False\<rparr>, handlers = [], context_done = False,
      clean = False, work = new_tracker (shared_start g), loops = replicate (loop_count g) Starting\<rparr>"

text \<open>\<open>cancel()\<close>; a second call has no effect on the context.\<close>

definition cancel_context :: "('s, 'u) service_parts \<Rightarrow> ('s, 'u) process \<Rightarrow> ('s, 'u) process" where
  "cancel_context g p =
     p\<lparr>context_done := True, work := (work p)\<lparr>shared := on_cancel g (shared (work p))\<rparr>\<rparr>"

section \<open>Steps\<close>

text \<open>
  \<open>main\<close>. \<open>srv.Shutdown\<close> returns without an error when no request is running, and with one at the
  deadline; the last wait ends when every loop has returned, or at the deadline.
\<close>

inductive main_step :: "('s, 'u) service_parts \<Rightarrow> ('s, 'u) process \<Rightarrow> ('s, 'u) process \<Rightarrow> bool" for g where
  signalled: "phase p = Serving \<Longrightarrow> main_step g p (p\<lparr>phase := Stopping\<rparr>)"
| refuse: "phase p = Stopping \<Longrightarrow> main_step g p (p\<lparr>phase := Refusing, front := Http.drain (front p)\<rparr>)"
| stop: "phase p = Refusing \<Longrightarrow> main_step g p ((cancel_context g p)\<lparr>phase := Shutting\<rparr>)"
| shut: "phase p = Shutting \<Longrightarrow> handlers p = [] \<Longrightarrow> main_step g p (p\<lparr>phase := Closed, clean := True\<rparr>)"
| shut_late: "phase p = Shutting \<Longrightarrow> main_step g p (p\<lparr>phase := Closed\<rparr>)"
| drain_work: "phase p = Closed \<Longrightarrow> main_step g p (p\<lparr>phase := Draining, work := drain_call (work p)\<rparr>)"
| drained: "phase p = Draining \<Longrightarrow> drain_at (work p) = Returned b \<Longrightarrow> main_step g p (p\<lparr>phase := Awaiting\<rparr>)"
| loops_over: "phase p = Awaiting \<Longrightarrow> list_all (\<lambda>l. l = Over) (loops p) \<Longrightarrow> main_step g p (p\<lparr>phase := Exited\<rparr>)"
| loops_late: "phase p = Awaiting \<Longrightarrow> main_step g p (p\<lparr>phase := Exited\<rparr>)"

text \<open>
  The other goroutines. A request that passes the cap stays until its handler returns, and may start
  tasks meanwhile unless it is a probe; after a clean \<open>Shutdown\<close> none arrives. A server that fails
  cancels the context. A loop returns only when the context is done.
\<close>

inductive side_step :: "('s, 'u) service_parts \<Rightarrow> ('s, 'u) process \<Rightarrow> ('s, 'u) process \<Rightarrow> bool" for g where
  arrive: "\<not> clean p \<Longrightarrow> limit_inflight (max_slots g) path (front p) = (Pass, f) \<Longrightarrow>
    side_step g p (p\<lparr>front := f, handlers := path # handlers p\<rparr>)"
| submit: "path \<in> set (handlers p) \<Longrightarrow> \<not> exempt path \<Longrightarrow> request_task g u \<Longrightarrow>
    side_step g p (p\<lparr>work := tracker_go u (work p)\<rparr>)"
| answer: "path \<in> set (handlers p) \<Longrightarrow>
    side_step g p (p\<lparr>front := (if exempt path then front p else inflight_done (front p)),
      handlers := remove1 path (handlers p)\<rparr>)"
| crash: "side_step g p (cancel_context g p)"
| begin_loop: "i < length (loops p) \<Longrightarrow> loops p ! i = Starting \<Longrightarrow>
    side_step g p (p\<lparr>loops := (loops p)[i := Looping], work := fold tracker_go (loop_tasks g i) (work p)\<rparr>)"
| feed: "i < length (loops p) \<Longrightarrow> loops p ! i = Looping \<Longrightarrow> loop_feeds g i (shared (work p)) s \<Longrightarrow>
    side_step g p (p\<lparr>work := (work p)\<lparr>shared := s\<rparr>\<rparr>)"
| end_loop: "i < length (loops p) \<Longrightarrow> loops p ! i = Looping \<Longrightarrow> context_done p \<Longrightarrow>
    side_step g p (p\<lparr>loops := (loops p)[i := Over]\<rparr>)"
| task: "tracker_step (task_act g) (\<lambda>s s'. False) (work p) t \<Longrightarrow> side_step g p (p\<lparr>work := t\<rparr>)"

text \<open>After \<open>main\<close> has returned nothing runs.\<close>

inductive process_run :: "('s, 'u) service_parts \<Rightarrow> ('s, 'u) process \<Rightarrow> bool" for g where
  start: "process_run g (process_start g)"
| main: "process_run g p \<Longrightarrow> main_step g p p' \<Longrightarrow> process_run g p'"
| side: "process_run g p \<Longrightarrow> phase p \<noteq> Exited \<Longrightarrow> side_step g p p' \<Longrightarrow> process_run g p'"

section \<open>The tracker of a process\<close>

definition parts_env :: "('s, 'u) service_parts \<Rightarrow> 's \<Rightarrow> 's \<Rightarrow> bool" where
  "parts_env g s s' \<longleftrightarrow> (\<exists>i. loop_feeds g i s s') \<or> s' = on_cancel g s"

definition parts_entry :: "('s, 'u) service_parts \<Rightarrow> 'u \<Rightarrow> bool" where
  "parts_entry g u \<longleftrightarrow> request_task g u \<or> (\<exists>i. u \<in> set (loop_tasks g i))"

abbreviation work_run :: "('s, 'u) service_parts \<Rightarrow> ('s, 'u) tracker \<Rightarrow> bool" where
  "work_run g \<equiv> tracker_run (task_act g) (parts_env g) (parts_entry g) (shared_start g)"

lemma tracker_step_mono: "tracker_step act (\<lambda>s s'. False) t t' \<Longrightarrow> tracker_step act env t t'"
  by (induction rule: tracker_step.induct) (auto intro: tracker_step.intros simp del: One_nat_def)

lemma go_all:
  "tracker_run act env entry s0 t \<Longrightarrow> \<forall>u \<in> set us. entry u \<Longrightarrow> tracker_run act env entry s0 (fold tracker_go us t)"
  by (induction us arbitrary: t) (auto intro: tracker_run.go)

lemma go_all_parts [simp]:
  "tasks (fold tracker_go us t) = tasks t @ map Running us"
  "shared (fold tracker_go us t) = shared t" "drain_at (fold tracker_go us t) = drain_at t"
  "asked (fold tracker_go us t) = asked t"
  by (induction us arbitrary: t) (simp_all add: tracker_go_def)

text \<open>Before \<open>main\<close> calls \<open>Drain\<close>; the phases that come after \<open>draining.Set\<close> and after \<open>cancel\<close>.\<close>

definition undrained :: "main_phase \<Rightarrow> bool" where
  "undrained ph \<longleftrightarrow> ph \<in> {Serving, Stopping, Refusing, Shutting, Closed}"

definition process_inv :: "('s, 'u) service_parts \<Rightarrow> ('s, 'u) process \<Rightarrow> bool" where
  "process_inv g p \<longleftrightarrow> work_run g (work p) \<and>
     slots_used (front p) = length (filter (\<lambda>path. \<not> exempt path) (handlers p)) \<and>
     slots_used (front p) \<le> max_slots g \<and> length (loops p) = loop_count g \<and>
     (phase p \<notin> {Serving, Stopping} \<longrightarrow> draining (front p)) \<and>
     (phase p \<notin> {Serving, Stopping, Refusing} \<longrightarrow> context_done p) \<and>
     (undrained (phase p) \<longleftrightarrow> drain_at (work p) = NotCalled) \<and>
     (phase p \<in> {Awaiting, Exited} \<longrightarrow> returned (drain_at (work p))) \<and>
     (clean p \<longrightarrow> handlers p = [] \<and> context_done p)"

lemma returned_iff: "returned d \<longleftrightarrow> (\<exists>b. d = Returned b)"
  by (cases d) simp_all

lemma main_step_inv: "main_step g p p' \<Longrightarrow> process_inv g p \<Longrightarrow> process_inv g p'"
proof (induction rule: main_step.induct)
  case (stop p)
  have "work_run g ((work p)\<lparr>shared := on_cancel g (shared (work p))\<rparr>)"
    using stop(2) by (intro tracker_run.step [OF _ tracker_step.env]) (auto simp: process_inv_def parts_env_def)
  with stop show ?case by (simp add: process_inv_def cancel_context_def undrained_def)
next
  case (drain_work p)
  then have "work_run g (drain_call (work p))"
    by (intro tracker_run.call) (auto simp: process_inv_def undrained_def)
  with drain_work show ?case by (simp add: process_inv_def undrained_def drain_call_def)
qed (auto simp: process_inv_def undrained_def drain_def returned_iff)

lemma tracker_step_drain:
  "tracker_step act env t t' \<Longrightarrow> (drain_at t' = NotCalled \<longleftrightarrow> drain_at t = NotCalled) \<and>
    (returned (drain_at t) \<longrightarrow> returned (drain_at t')) \<and> asked t' = asked t \<and> length (tasks t') = length (tasks t)"
  by (induction rule: tracker_step.induct) simp_all

lemma arrive_slots:
  "limit_inflight n path f = (Pass, f') \<Longrightarrow>
    slots_used f' = slots_used f + (if exempt path then 0 else 1) \<and> draining f' = draining f \<and>
    (exempt path \<or> \<not> draining f \<and> slots_used f < n)"
  by (auto simp: limit_inflight_def reject_def split: if_splits)

lemma remove_slots:
  "path \<in> set hs \<Longrightarrow> length (filter P (remove1 path hs)) = length (filter P hs) - (if P path then 1 else 0) \<and>
    (P path \<longrightarrow> 0 < length (filter P hs))"
  by (induction hs) auto

lemma side_step_inv: "side_step g p p' \<Longrightarrow> process_inv g p \<Longrightarrow> process_inv g p'"
proof (induction rule: side_step.induct)
  case (arrive p path f)
  with arrive_slots [OF arrive(2)] show ?case by (auto simp: process_inv_def)
next
  case (submit path p u)
  then have "work_run g (tracker_go u (work p))"
    by (intro tracker_run.go) (simp_all add: process_inv_def parts_entry_def)
  with submit show ?case by (auto simp: process_inv_def tracker_go_def)
next
  case (answer path p)
  with remove_slots [OF answer(1), of "\<lambda>path. \<not> exempt path"] show ?case
    by (auto simp: process_inv_def inflight_done_def)
next
  case (crash p)
  then have "work_run g ((work p)\<lparr>shared := on_cancel g (shared (work p))\<rparr>)"
    by (intro tracker_run.step [OF _ tracker_step.env]) (auto simp: process_inv_def parts_env_def)
  with crash show ?case by (simp add: process_inv_def cancel_context_def)
next
  case (begin_loop i p)
  then have "work_run g (fold tracker_go (loop_tasks g i) (work p))"
    by (intro go_all) (auto simp: process_inv_def parts_entry_def)
  with begin_loop show ?case by (simp add: process_inv_def)
next
  case (feed i p s)
  then have "work_run g ((work p)\<lparr>shared := s\<rparr>)"
    by (intro tracker_run.step [OF _ tracker_step.env]) (auto simp: process_inv_def parts_env_def)
  with feed show ?case by (simp add: process_inv_def)
next
  case (end_loop i p)
  then show ?case by (simp add: process_inv_def)
next
  case (task p t)
  then have "work_run g t"
    by (intro tracker_run.step [OF _ tracker_step_mono [OF task(1)]]) (simp add: process_inv_def)
  moreover have "drain_at t = NotCalled \<longleftrightarrow> drain_at (work p) = NotCalled"
    "returned (drain_at (work p)) \<longrightarrow> returned (drain_at t)"
    using tracker_step_drain [OF task(1)] by blast+
  ultimately show ?case using task(2) by (simp add: process_inv_def)
qed

lemma process_run_inv: "process_run g p \<Longrightarrow> process_inv g p"
proof (induction rule: process_run.induct)
  case start
  show ?case
    by (simp add: process_inv_def process_start_def tracker_run.new undrained_def) (simp add: new_tracker_def)
qed (auto intro: main_step_inv side_step_inv)

text \<open>
  Once \<open>draining\<close> is set, no request but a probe gets past the cap: the others only go away. That is
  what lets \<open>srv.Shutdown\<close> end.
\<close>

lemma draining_admits_none:
  assumes "process_run g p" "phase p \<notin> {Serving, Stopping}" "main_step g p p' \<or> side_step g p p'"
  shows "mset (filter (\<lambda>path. \<not> exempt path) (handlers p')) \<subseteq># mset (filter (\<lambda>path. \<not> exempt path) (handlers p))"
proof -
  have "draining (front p)" using process_run_inv [OF assms(1)] assms(2) by (simp add: process_inv_def)
  note on = this
  from assms(3) show ?thesis
  proof
    assume "main_step g p p'"
    then show ?thesis by (cases rule: main_step.cases) (auto simp: cancel_context_def)
  next
    assume "side_step g p p'"
    then show ?thesis
      by (cases rule: side_step.cases)
        (use on in \<open>auto simp: cancel_context_def dest!: arrive_slots intro: multiset_filter_mono\<close>)
  qed
qed

section \<open>The gasless service\<close>

text \<open>
  Its loops, the balance monitor and the resolver, put nothing on the tracker; requests put submissions
  on it. What a submission does is a parameter.
\<close>

definition gasless_parts ::
  "nat \<Rightarrow> 's \<Rightarrow> (bool \<Rightarrow> 's \<Rightarrow> 'u \<Rightarrow> 's \<Rightarrow> 'u option \<Rightarrow> bool) \<Rightarrow> ('u \<Rightarrow> bool) \<Rightarrow> ('s, 'u) service_parts"
where
  "gasless_parts cap s0 act submission =
     \<lparr>max_slots = cap, loop_count = 2, shared_start = s0, task_act = act, loop_tasks = (\<lambda>i. []),
      loop_feeds = (\<lambda>i s s'. False), on_cancel = (\<lambda>s. s), request_task = submission\<rparr>"

text \<open>After a clean shutdown of the server nothing is put on the tracker any more.\<close>

lemma clean_asked:
  assumes "process_run g p" "\<And>i. loop_tasks g i = []"
  shows "clean p \<longrightarrow> \<not> undrained (phase p) \<longrightarrow> asked (work p) = length (tasks (work p))"
  using assms(1)
proof (induction rule: process_run.induct)
  case start
  show ?case by (simp add: process_start_def)
next
  case (main p p')
  from main(2) show ?case
    by (cases rule: main_step.cases)
      (use main(3) in \<open>auto simp: cancel_context_def undrained_def drain_call_def\<close>)
next
  case (side p p')
  have none: "clean p \<longrightarrow> handlers p = []" using process_run_inv [OF side(1)] by (simp add: process_inv_def)
  from side(3) show ?case
  proof (cases rule: side_step.cases)
    case (task t)
    then have "asked t = asked (work p) \<and> length (tasks t) = length (tasks (work p))"
      using tracker_step_drain by blast
    with task side(4) show ?thesis by simp
  qed (use side(4) none in \<open>auto simp: cancel_context_def assms(2)\<close>)
qed

text \<open>
  C9: a gasless service that shuts down leaves no submission behind. In every run of the process,
  however requests, submissions, the loops and the shutdown interleave: when \<open>main\<close> returns after a
  clean shutdown of its server, no request is running, every submission that a request has ever started has
  returned, and, when \<open>Drain\<close> reported true, under a context that was not cancelled.
\<close>

theorem gasless_exit_ends_submissions:
  assumes "process_run (gasless_parts cap s0 act submission) p" "phase p = Exited" "clean p"
  shows "handlers p = [] \<and> (\<exists>b. drain_at (work p) = Returned b \<and>
    list_all (\<lambda>x. \<not> running x \<and> (b \<longrightarrow> \<not> cut_off x)) (tasks (work p)))"
proof -
  note inv = process_run_inv [OF assms(1), unfolded process_inv_def]
  obtain b where b: "drain_at (work p) = Returned b"
    using inv assms(2) by (cases "drain_at (work p)") auto
  have "asked (work p) = length (tasks (work p))"
    using clean_asked [OF assms(1)] assms(2,3) by (simp add: gasless_parts_def undrained_def)
  with drain_waits(2) [of _ _ _ _ "work p", OF _ b] inv assms(3) b show ?thesis
    by (auto simp: list_all_length)
qed

section \<open>The deposit bridge\<close>

text \<open>
  Loop 0 is the retry worker, loop \<open>m + 1\<close> the watcher of pool \<open>m\<close>: it starts its workers when it is
  scheduled and then sends jobs on its channel. Requests start no tasks.
\<close>

definition bridge_parts :: "nat \<Rightarrow> int \<Rightarrow> nat \<Rightarrow> (intake list, nat \<times> worker) service_parts" where
  "bridge_parts cap workers n =
     \<lparr>max_slots = cap, loop_count = Suc n, shared_start = replicate n new_intake, task_act = pools_act,
      loop_tasks = (\<lambda>i. case i of 0 \<Rightarrow> [] | Suc m \<Rightarrow> watcher_workers m workers),
      loop_feeds = (\<lambda>i S S'. case i of 0 \<Rightarrow> False | Suc m \<Rightarrow> pools_send m S S'),
      on_cancel = map stop_intake, request_task = (\<lambda>u. False)\<rparr>"

lemma bridge_parts_sel [simp]:
  "loop_count (bridge_parts cap workers n) = Suc n" "task_act (bridge_parts cap workers n) = pools_act"
  "shared_start (bridge_parts cap workers n) = replicate n new_intake"
  "loop_tasks (bridge_parts cap workers n) 0 = []"
  "loop_tasks (bridge_parts cap workers n) (Suc m) = watcher_workers m workers"
  "\<not> loop_feeds (bridge_parts cap workers n) 0 S S'"
  "loop_feeds (bridge_parts cap workers n) (Suc m) S S' \<longleftrightarrow> pools_send m S S'"
  "on_cancel (bridge_parts cap workers n) = map stop_intake" "\<not> request_task (bridge_parts cap workers n) u"
  by (simp_all add: bridge_parts_def)

lemma bridge_env: "parts_env (bridge_parts cap workers n) = pools_env"
proof (intro ext iffI)
  fix S S'
  assume "parts_env (bridge_parts cap workers n) S S'"
  then consider i where "loop_feeds (bridge_parts cap workers n) i S S'" | "S' = map stop_intake S"
    by (auto simp: parts_env_def)
  then show "pools_env S S'"
  proof cases
    case (1 i)
    then show ?thesis unfolding pools_env_def by (cases i) auto
  qed (simp add: pools_env_def)
next
  fix S S'
  assume "pools_env S S'"
  then show "parts_env (bridge_parts cap workers n) S S'"
    unfolding parts_env_def pools_env_def by (metis bridge_parts_sel(7,8))
qed

lemma bridge_entry: "parts_entry (bridge_parts cap workers n) u \<Longrightarrow> fresh_worker u"
  unfolding parts_entry_def
  by (auto simp: bridge_parts_def watcher_workers_def start_workers_def fresh_worker_def split: nat.splits)

lemma tracker_run_entry:
  "tracker_run act env entry s0 t \<Longrightarrow> (\<And>u. entry u \<Longrightarrow> entry' u) \<Longrightarrow> tracker_run act env entry' s0 t"
  by (induction rule: tracker_run.induct) (auto intro: tracker_run.intros)

lemma bridge_work:
  assumes "process_run (bridge_parts cap workers n) p"
  shows "pools_run n (work p)"
  using process_run_inv [OF assms] bridge_entry
  by (auto simp: process_inv_def bridge_env intro: tracker_run_entry)

text \<open>
  What orders the workers of a pool and its jobs: a watcher sends only once its workers are on the
  tracker, so a pool with jobs from before the end of intake has all its workers among those \<open>Drain\<close>
  waits for.
\<close>

definition started_inv :: "nat \<Rightarrow> (intake list, nat \<times> worker) process \<Rightarrow> bool" where
  "started_inv m p \<longleftrightarrow>
     (let s = shared (work p) ! m; us = tasks (work p) in
      (loops p ! Suc m = Starting \<longrightarrow> sent s = []) \<and>
      (loops p ! Suc m \<noteq> Starting \<longrightarrow> (\<exists>k < length us. own m (us ! k))) \<and>
      (stopped s \<longleftrightarrow> context_done p) \<and>
      (\<not> undrained (phase p) \<longrightarrow> 0 < before_stop s \<longrightarrow> (\<forall>k < length us. own m (us ! k) \<longrightarrow> k < asked (work p))))"

text \<open>What a step of a worker leaves alone.\<close>

lemma worker_act_same:
  "worker_act c s u s' u' \<Longrightarrow> sent s' = sent s \<and> stopped s' = stopped s \<and> before_stop s' = before_stop s"
  by (induction rule: worker_act.induct) (simp_all add: receive_def)

lemma pools_act_same:
  assumes "pools_act c S u S' u'"
  shows "sent (S' ! m) = sent (S ! m) \<and> stopped (S' ! m) = stopped (S ! m) \<and> before_stop (S' ! m) = before_stop (S ! m)"
  using assms by (cases rule: pools_act.cases) (auto simp: nth_list_update dest: worker_act_same)

lemma pools_act_owner: "pools_act c S u S' (Some u') \<Longrightarrow> fst u' = fst u"
  by (auto elim!: pools_act.cases dest!: sym [of "Some u'"])

lemma work_step_same:
  "tracker_step pools_act (\<lambda>s s'. False) t t' \<Longrightarrow>
    sent (shared t' ! m) = sent (shared t ! m) \<and> stopped (shared t' ! m) = stopped (shared t ! m) \<and>
    before_stop (shared t' ! m) = before_stop (shared t ! m) \<and> asked t' = asked t \<and>
    length (tasks t') = length (tasks t) \<and> (\<forall>k < length (tasks t). own m (tasks t' ! k) = own m (tasks t ! k))"
proof (induction rule: tracker_step.induct)
  case (run i t u S u')
  with pools_act_same [OF run(3)] pools_act_owner [OF run(3)] show ?case by (simp add: nth_list_update)
next
  case (finish i t u S)
  with pools_act_same [OF finish(3)] show ?case by (simp add: nth_list_update)
qed simp_all

lemma started_kept:
  assumes "started_inv m p" "work p' = t" "loops p' ! Suc m = loops p ! Suc m \<or> loops p ! Suc m \<noteq> Starting \<and> loops p' ! Suc m \<noteq> Starting"
    and "sent (shared t ! m) = sent (shared (work p) ! m)" "stopped (shared t ! m) = stopped (shared (work p) ! m)"
    and "before_stop (shared t ! m) = before_stop (shared (work p) ! m)" "asked t = asked (work p)"
    and "length (tasks t) = length (tasks (work p))"
    and "\<forall>k < length (tasks t). own m (tasks t ! k) = own m (tasks (work p) ! k)"
    and "context_done p' = context_done p" "undrained (phase p') = undrained (phase p)"
  shows "started_inv m p'"
  using assms unfolding started_inv_def Let_def by auto

lemma stop_stopped: "stopped s \<Longrightarrow> stop_intake s = s"
  by (simp add: stop_intake_def)

lemma stop_parts [simp]: "stopped (stop_intake s)" "sent (stop_intake s) = sent s"
  by (simp_all add: stop_intake_def)

lemma started_cancel:
  assumes "started_inv m p" "m < length (shared (work p))" "process_inv g p" "on_cancel g = map stop_intake"
  shows "started_inv m (cancel_context g p)"
proof (cases "context_done p")
  case True
  then have "stopped (shared (work p) ! m)" using assms(1) by (simp add: started_inv_def Let_def)
  with True assms(1,2,4) stop_stopped show ?thesis
    by (simp add: started_inv_def cancel_context_def Let_def)
next
  case False
  then have "undrained (phase p)"
    using assms(3) by (cases "phase p") (simp_all add: process_inv_def undrained_def)
  with assms(1,2,4) show ?thesis by (simp add: started_inv_def cancel_context_def Let_def)
qed

lemma started_main:
  assumes "main_step (bridge_parts cap workers n) p p'" "started_inv m p" "m < length (shared (work p))"
    and "process_inv (bridge_parts cap workers n) p"
  shows "started_inv m p'"
  using assms(1)
proof (cases rule: main_step.cases)
  case stop
  have "started_inv m (cancel_context (bridge_parts cap workers n) p)"
    by (rule started_cancel [OF assms(2-4)]) simp
  with stop show ?thesis by (simp add: started_inv_def undrained_def Let_def cancel_context_def)
qed (use assms(2) in \<open>simp_all add: started_inv_def undrained_def Let_def drain_call_def\<close>)

lemma started_begin:
  assumes "i < length (loops p)" "loops p ! i = Starting" "started_inv m p" "Suc m < length (loops p)"
    and "before_stop (shared (work p) ! m) \<le> length (sent (shared (work p) ! m))"
  shows "started_inv m (p\<lparr>loops := (loops p)[i := Looping],
    work := fold tracker_go (loop_tasks (bridge_parts cap workers n) i) (work p)\<rparr>)"
proof (cases "i = Suc m")
  case True
  have "own m ((tasks (work p) @ map Running (watcher_workers m workers)) ! length (tasks (work p)))"
    by (simp add: nth_append watcher_workers_def start_workers_def)
  moreover have "0 < length (watcher_workers m workers)" by (simp add: watcher_workers_def start_workers_def)
  ultimately show ?thesis
    using True assms by (auto simp: started_inv_def Let_def intro: exI [of _ "length (tasks (work p))"])
next
  case False
  have new: "\<not> own m (Running u)" if "u \<in> set (loop_tasks (bridge_parts cap workers n) i)" for u
    using that False by (cases i) (auto simp: watcher_workers_def start_workers_def)
  let ?us = "tasks (work p)" and ?vs = "map Running (loop_tasks (bridge_parts cap workers n) i)"
  have old: "own m ((?us @ ?vs) ! k) \<longleftrightarrow> k < length ?us \<and> own m (?us ! k)" if "k < length (?us @ ?vs)" for k
    using that new by (auto simp: nth_append)
  show ?thesis
    using assms(3) False old unfolding started_inv_def Let_def
    by (simp add: nth_append) (metis nth_append trans_less_add1)
qed

lemma started_side:
  assumes "side_step (bridge_parts cap workers n) p p'" "started_inv m p" "m < n"
    and "process_run (bridge_parts cap workers n) p"
  shows "started_inv m p'"
proof -
  note inv = process_run_inv [OF assms(4)]
  have pools: "pools_inv n (shared (work p)) (tasks (work p))" using wk.holds [OF bridge_work [OF assms(4)]] .
  then have len: "length (shared (work p)) = n" "length (loops p) = Suc n"
    using inv by (simp_all add: pools_inv_def process_inv_def)
  have sent: "before_stop (shared (work p) ! m) \<le> length (sent (shared (work p) ! m))"
    using pools assms(3) unfolding pools_inv_def pool_inv_def by blast
  from assms(1) show ?thesis
  proof (cases rule: side_step.cases)
    case crash
    with started_cancel [OF assms(2) _ inv] assms(3) len show ?thesis by simp
  next
    case (begin_loop i)
    with started_begin [OF begin_loop(2,3) assms(2) _ sent] assms(3) len show ?thesis by simp
  next
    case (feed i S)
    show ?thesis
    proof (cases i)
      case (Suc q)
      with feed(4) obtain j where S: "S = (shared (work p))[q := send_job j (shared (work p) ! q)]" "q < n"
        using len by (auto elim!: pools_send.cases)
      show ?thesis
        using assms(2,3) feed Suc S len
        by (cases "m = q") (simp_all add: started_inv_def Let_def send_job_def)
    qed (use feed in simp)
  next
    case (end_loop i)
    show ?thesis
      by (rule started_kept [OF assms(2)]) (use end_loop in \<open>auto simp: nth_list_update\<close>)
  next
    case (task t)
    then have t: "tracker_step pools_act (\<lambda>s s'. False) (work p) t" by simp
    show ?thesis
      by (rule started_kept [OF assms(2), of p' t]) (use work_step_same [OF t, of m] task in simp_all)
  qed (use assms(2) in \<open>simp_all add: started_inv_def Let_def\<close>)
qed

lemma bridge_started:
  assumes "process_run (bridge_parts cap workers n) p" "m < n"
  shows "started_inv m p"
  using assms(1)
proof (induction rule: process_run.induct)
  case start
  show ?case
    using assms(2)
    by (simp add: started_inv_def process_start_def new_tracker_def new_intake_def undrained_def)
next
  case (main p p')
  have "length (shared (work p)) = n" using wk.holds [OF bridge_work [OF main(1)]] by (simp add: pools_inv_def)
  with assms(2) show ?case by (intro started_main [OF main(2,3) _ process_run_inv [OF main(1)]]) simp
next
  case (side p p')
  show ?case by (rule started_side [OF side(3,4) assms(2) side(1)])
qed


section \<open>Two concrete shutdowns\<close>

text \<open>
  A gasless service with one request and its submission, and a bridge with one pool, one worker and
  one job, which the worker takes in its inner loop after intake has stopped.
\<close>

definition demo_process ::
  "main_phase \<Rightarrow> bool \<Rightarrow> bool \<Rightarrow> bool \<Rightarrow> ('s, 'u) tracker \<Rightarrow> loop_state list \<Rightarrow> ('s, 'u) process"
where
  "demo_process ph dr cd cl t ls =
     \<lparr>phase = ph, front = \<lparr>slots_used = 0, draining = dr\<rparr>, handlers = [], context_done = cd, clean = cl,
      work = t, loops = ls\<rparr>"

definition demo_tracker :: "bool \<Rightarrow> nat \<Rightarrow> 'u task list \<Rightarrow> 's \<Rightarrow> drain_phase \<Rightarrow> bool \<Rightarrow> nat \<Rightarrow> ('s, 'u) tracker" where
  "demo_tracker c n us s d dc k =
     \<lparr>cancelled = c, wg = n, tasks = us, shared = s, drain_at = d, done_closed = dc, asked = k\<rparr>"

lemmas demo_defs = demo_process_def demo_tracker_def

text \<open>From a served process to its exit, over the steps of \<open>main\<close>, for any service.\<close>

lemma demo_until_drain:
  assumes "process_run g (demo_process Serving False False False (demo_tracker False n us s NotCalled False 0) ls)"
  shows "process_run g (demo_process Draining True True True
    (demo_tracker False n us (on_cancel g s) Selecting False (length us)) ls)"
proof -
  let ?t = "demo_tracker False n us s NotCalled False 0"
  let ?u = "demo_tracker False n us (on_cancel g s) NotCalled False 0"
  let ?p0 = "demo_process Serving False False False ?t ls" and ?p1 = "demo_process Stopping False False False ?t ls"
    and ?p2 = "demo_process Refusing True False False ?t ls" and ?p3 = "demo_process Shutting True True False ?u ls"
    and ?p4 = "demo_process Closed True True True ?u ls"
  note simps = demo_defs Http.drain_def cancel_context_def drain_call_def
  have "process_run g ?p1"
    by (rule process_run.main [OF assms]) (use main_step.signalled [of ?p0 g] in \<open>simp add: simps\<close>)
  then have "process_run g ?p2"
    by (rule process_run.main) (use main_step.refuse [of ?p1 g] in \<open>simp add: simps\<close>)
  then have "process_run g ?p3"
    by (rule process_run.main) (use main_step.stop [of ?p2 g] in \<open>simp add: simps\<close>)
  then have "process_run g ?p4"
    by (rule process_run.main) (use main_step.shut [of ?p3 g] in \<open>simp add: simps\<close>)
  then show ?thesis
    by (rule process_run.main) (use main_step.drain_work [of ?p4 g] in \<open>simp add: simps\<close>)
qed

text \<open>From the end of the work to the exit.\<close>

lemma demo_until_exit:
  assumes "process_run g (demo_process Draining True True True (demo_tracker False 0 us s Selecting False k) ls)"
  shows "process_run g (demo_process Exited True True True (demo_tracker True 0 us s (Returned True) True k) ls)"
proof -
  let ?t0 = "demo_tracker False 0 us s Selecting False k" and ?t1 = "demo_tracker False 0 us s Selecting True k"
    and ?t2 = "demo_tracker True 0 us s (Returned True) True k"
  let ?p0 = "demo_process Draining True True True ?t0 ls" and ?p1 = "demo_process Draining True True True ?t1 ls"
    and ?p2 = "demo_process Draining True True True ?t2 ls" and ?p3 = "demo_process Awaiting True True True ?t2 ls"
  have "process_run g ?p1"
    by (rule process_run.side [OF assms])
      (use side_step.task [of g ?p0 ?t1] tracker_step.close [of ?t0] in \<open>simp_all add: demo_defs\<close>)
  then have "process_run g ?p2"
    by (rule process_run.side)
      (use side_step.task [of g ?p1 ?t2] tracker_step.in_time [of ?t1] in \<open>simp_all add: demo_defs\<close>)
  then have "process_run g ?p3"
    by (rule process_run.main) (use main_step.drained [of ?p2 True g] in \<open>simp add: demo_defs\<close>)
  then show ?thesis
    by (rule process_run.main) (use main_step.loops_late [of ?p3 g] in \<open>simp add: demo_defs\<close>)
qed

text \<open>A step of the only task, before or while \<open>main\<close> waits for it.\<close>

lemma demo_run:
  assumes "process_run g (demo_process ph dr cd cl (demo_tracker False n [Running u] s d False k) ls)"
    and "ph \<noteq> Exited" "task_act g False s u s' (Some u')"
  shows "process_run g (demo_process ph dr cd cl (demo_tracker False n [Running u'] s' d False k) ls)"
proof -
  let ?t = "demo_tracker False n [Running u] s d False k"
  have "tracker_step (task_act g) (\<lambda>s s'. False) ?t (demo_tracker False n [Running u'] s' d False k)"
    using tracker_step.run [of 0 ?t u "task_act g" s' u'] assms(3) by (simp add: demo_defs)
  from side_step.task [of g "demo_process ph dr cd cl ?t ls", simplified demo_process_def, simplified, OF this]
  show ?thesis
    by (intro process_run.side [OF assms(1)]) (use assms(2) in \<open>simp_all add: demo_process_def\<close>)
qed

lemma demo_finish:
  assumes "process_run g (demo_process ph dr cd cl (demo_tracker False (Suc 0) [Running u] s d False k) ls)"
    and "ph \<noteq> Exited" "task_act g False s u s' None"
  shows "process_run g (demo_process ph dr cd cl (demo_tracker False 0 [Ended u False] s' d False k) ls)"
proof -
  let ?t = "demo_tracker False (Suc 0) [Running u] s d False k"
  have "tracker_step (task_act g) (\<lambda>s s'. False) ?t (demo_tracker False 0 [Ended u False] s' d False k)"
    using tracker_step.finish [of 0 ?t u "task_act g" s'] assms(3) by (simp add: demo_defs)
  from side_step.task [of g "demo_process ph dr cd cl ?t ls", simplified demo_process_def, simplified, OF this]
  show ?thesis
    by (intro process_run.side [OF assms(1)]) (use assms(2) in \<open>simp_all add: demo_process_def\<close>)
qed

definition demo_gasless :: "(unit, unit) service_parts" where
  "demo_gasless = gasless_parts 1 () (\<lambda>c s u s' u'. u' = None) (\<lambda>u. True)"

definition demo_gasless_exit :: "(unit, unit) process" where
  "demo_gasless_exit = demo_process Exited True True True
     (demo_tracker True 0 [Ended () False] () (Returned True) True 1) [Starting, Starting]"

lemma demo_gasless_run: "process_run demo_gasless demo_gasless_exit"
proof -
  let ?t0 = "demo_tracker False 0 [] () NotCalled False 0" and ?t1 = "demo_tracker False (Suc 0) [Running ()] () NotCalled False 0"
  let ?ls = "[Starting, Starting]"
  let ?p0 = "demo_process Serving False False False ?t0 ?ls"
  let ?p1 = "?p0\<lparr>front := \<lparr>slots_used = 1, draining = False\<rparr>, handlers := [''/gasless/submit'']\<rparr>"
  let ?p2 = "?p1\<lparr>work := ?t1\<rparr>"
  have "process_run demo_gasless ?p0"
    using process_run.start [of demo_gasless]
    by (simp add: process_start_def demo_gasless_def gasless_parts_def demo_defs new_tracker_def numeral_2_eq_2)
  then have "process_run demo_gasless ?p1"
    by (rule process_run.side)
      (use side_step.arrive [of ?p0 demo_gasless "''/gasless/submit''" "\<lparr>slots_used = 1, draining = False\<rparr>"] in
        \<open>simp_all add: demo_gasless_def gasless_parts_def demo_defs limit_inflight_def exempt_def\<close>)
  then have "process_run demo_gasless ?p2"
    by (rule process_run.side)
      (use side_step.submit [of "''/gasless/submit''" ?p1 demo_gasless "()"] in
        \<open>simp_all add: demo_gasless_def gasless_parts_def demo_defs tracker_go_def exempt_def\<close>)
  then have "process_run demo_gasless (demo_process Serving False False False ?t1 ?ls)"
    by (rule process_run.side)
      (use side_step.answer [of "''/gasless/submit''" ?p2 demo_gasless] in
        \<open>simp_all add: demo_defs exempt_def inflight_done_def\<close>)
  from demo_finish [OF demo_until_drain [OF this]]
  have "process_run demo_gasless (demo_process Draining True True True
      (demo_tracker False 0 [Ended () False] () Selecting False 1) ?ls)"
    by (simp add: demo_gasless_def gasless_parts_def)
  from demo_until_exit [OF this] show ?thesis by (simp add: demo_gasless_exit_def)
qed

theorem gasless_exit_ends_submissions_witness:
  "handlers demo_gasless_exit = [] \<and> list_all (\<lambda>x. \<not> running x) (tasks (work demo_gasless_exit))"
proof -
  have "phase demo_gasless_exit = Exited" "clean demo_gasless_exit" by (simp_all add: demo_gasless_exit_def demo_defs)
  from gasless_exit_ends_submissions [OF demo_gasless_run [unfolded demo_gasless_def] this]
  show ?thesis by (auto simp: list_all_iff)
qed

definition shutdown_job :: forward_job where
  "shutdown_job = \<lparr>job_tx_hash = ''h'', job_landed_at = 0, job_memo_id = 0, job_from = ''A'',
     job_amount = ''1'', job_asset = ''native''\<rparr>"

lemma pools_act_one:
  "worker_act c s u s' (Some v) \<Longrightarrow> pools_act c [s] (0, u) [s'] (Some (0, v))"
  "worker_act c s u s' None \<Longrightarrow> pools_act c [s] (0, u) [s'] None"
  using pools_act.intros [of 0 "[s]" c u s' "Some v"] pools_act.intros [of 0 "[s]" c u s' None] by simp_all

definition demo_bridge_exit :: "(intake list, nat \<times> worker) process" where
  "demo_bridge_exit = demo_process Exited True True True
     (demo_tracker True 0 [Ended (0, Emptying) False]
       [\<lparr>channel = [], stopped = True, sent = [shutdown_job], received = [shutdown_job],
         forwarded = [shutdown_job], before_stop = 1\<rparr>] (Returned True) True 1) [Starting, Looping]"

abbreviation demo_bridge_parts :: "(intake list, nat \<times> worker) service_parts" where
  "demo_bridge_parts \<equiv> bridge_parts 1 1 1"

lemma demo_bridge_run: "process_run demo_bridge_parts demo_bridge_exit"
proof -
  let ?g = demo_bridge_parts and ?j = shutdown_job
  let ?t0 = "demo_tracker False 0 [] [new_intake] NotCalled False 0"
  let ?t1 = "demo_tracker False (Suc 0) [Running (0, Waiting)] [new_intake] NotCalled False 0"
  let ?s = "stop_intake (send_job ?j new_intake)"
  let ?r = "receive ?j [] ?s" and ?us = "\<lambda>u. demo_tracker False (Suc 0) [Running (0 :: nat, u)]"
  let ?f = "?r\<lparr>forwarded := [?j]\<rparr>"
  let ?p0 = "demo_process Serving False False False ?t0 [Starting, Starting]"
    and ?p1 = "demo_process Serving False False False ?t1 [Starting, Looping]"
    and ?d = "\<lambda>t. demo_process Draining True True True t [Starting, Looping]"
  have "process_run ?g ?p0"
    using process_run.start [of ?g] by (simp add: process_start_def bridge_parts_def demo_defs new_tracker_def)
  then have "process_run ?g ?p1"
    by (rule process_run.side)
      (use side_step.begin_loop [of "Suc 0" ?p0 ?g] in
        \<open>simp_all add: demo_defs watcher_workers_def start_workers_def tracker_go_def\<close>)
  then have "process_run ?g (demo_process Serving False False False
      (?us Waiting [send_job ?j new_intake] NotCalled False 0) [Starting, Looping])"
    by (rule process_run.side)
      (use side_step.feed [of "Suc 0" ?p1 ?g "[send_job ?j new_intake]"] pools_send.intros [of 0 "[new_intake]" ?j] in
        \<open>simp_all add: demo_defs new_intake_def forward_queue_def\<close>)
  from demo_until_drain [OF this]
  have "process_run ?g (?d (?us Waiting [?s] Selecting False 1))" by simp
  from demo_run [OF this, of "[?s]" "(0, Emptying)"]
  have "process_run ?g (?d (?us Emptying [?s] Selecting False 1))"
    using pools_act_one(1) [OF worker_act.intake_done [of ?s False]] by simp
  from demo_run [OF this, of "[?r]" "(0, ForwardingLast ?j)"]
  have "process_run ?g (?d (?us (ForwardingLast ?j) [?r] Selecting False 1))"
    using pools_act_one(1) [OF worker_act.take_last [of ?s ?j "[]" False]]
    by (simp add: send_job_def new_intake_def stop_intake_def)
  from demo_run [OF this, of "[?f]" "(0, Emptying)"]
  have "process_run ?g (?d (?us Emptying [?f] Selecting False 1))"
    using pools_act_one(1) [OF worker_act.last_done [of False ?r ?j]]
    by (simp add: receive_def send_job_def new_intake_def stop_intake_def)
  from demo_finish [OF this, of "[?f]"]
  have "process_run ?g (?d (demo_tracker False 0 [Ended (0, Emptying) False] [?f] Selecting False 1))"
    using pools_act_one(2) [OF worker_act.leave [of ?f False]] by (simp add: receive_def)
  from demo_until_exit [OF this] show ?thesis
    by (simp add: demo_bridge_exit_def receive_def send_job_def new_intake_def stop_intake_def)
qed


end
