(* ===== verification/Channel_Tool.thy ===== *)
theory Channel_Tool
  imports Config Gasless_Demo
begin

text \<open>
  \<open>scripts/channels/main.go\<close>: the operator's command that creates the channel accounts on-chain and
  merges retired ones back into the funder. A run is the settings it reads, a plan against the
  accounts the ledger has, and the transactions it submits one after the other. The lemmas show that
  it only creates channels below the count and merges channels above it, in transactions within
  Stellar's limits, and that a run that ends without an error leaves exactly the wanted channels, so
  running it again does nothing.
\<close>

section \<open>Settings\<close>

definition max_creates_per_tx :: nat where "max_creates_per_tx = 100"
definition max_merges_per_tx :: nat where "max_merges_per_tx = 19"

text \<open>The flags after \<open>flag.Parse\<close>; a flag that was not given is \<open>None\<close>.\<close>

record tool_flags =
  flag_n :: "int option"
  flag_start_xlm :: "string option"
  flag_merge_to :: "int option"
  flag_dry_run :: bool

text \<open>The names of the variables, by the spellings of \<open>-deposit\<close> the command looks for itself.\<close>

record tool_vars =
  env_file :: string
  seed_var :: string
  count_var :: string
  funder_key_var :: string
  funder_addr_var :: string

definition is_deposit :: "string list \<Rightarrow> bool" where
  "is_deposit args \<longleftrightarrow>
     list_ex (\<lambda>a. a \<in> set [''-deposit'', ''--deposit'', ''-deposit=true'', ''--deposit=true'']) args"

definition vars_of :: "string list \<Rightarrow> tool_vars" where
  "vars_of args =
     (if is_deposit args
      then \<lparr>env_file = ''.env'', seed_var = ''DEPOSIT_CHANNEL_SEED'', count_var = ''DEPOSIT_CHANNEL_COUNT'',
            funder_key_var = ''POOL_PRIVATE_KEY_1'', funder_addr_var = ''POOL_ADDRESS_1''\<rparr>
      else \<lparr>env_file = ''gasless.env'', seed_var = ''CHANNEL_SEED'', count_var = ''CHANNEL_COUNT'',
            funder_key_var = ''FUNDER_PRIVATE_KEY'', funder_addr_var = ''FUNDER_ADDRESS''\<rparr>)"

text \<open>
  \<open>strconv.Atoi\<close> with its error ignored: 0 for text that is no number, the nearest \<open>int\<close> for a number
  out of range.
\<close>

definition atoi_value :: "string \<Rightarrow> int" where
  "atoi_value s =
     (let neg = (s \<noteq> [] \<and> hd s = CHR ''-'');
          ds = (if s \<noteq> [] \<and> (hd s = CHR ''-'' \<or> hd s = CHR ''+'') then tl s else s) in
      case parse_digits ds of
        None \<Rightarrow> 0
      | Some m \<Rightarrow> if neg then max (- 9223372036854775808) (- int m) else min 9223372036854775807 (int m))"

definition tool_env_int :: "environment \<Rightarrow> string \<Rightarrow> int" where
  "tool_env_int env key = atoi_value (getenv env key)"

definition must_keypair :: "config_sdk \<Rightarrow> environment \<Rightarrow> string \<Rightarrow> string \<Rightarrow> string + keypair" where
  "must_keypair k env key_var addr_var =
     (case parse_full k (getenv env key_var) of
        Inl m \<Rightarrow> Inl (key_var @ '': '' @ m)
      | Inr kp \<Rightarrow>
          (let addr = getenv env addr_var in
           check (addr \<noteq> [] \<and> addr \<noteq> kp_address kp) (addr_var @ '' does not match '' @ key_var) (Inr kp)))"

text \<open>
  What \<open>main\<close> has settled before it reads the ledger. The SDK's text for a bad amount is left out of the
  error.
\<close>

record tool_settings =
  ts_n :: int
  ts_start_xlm :: string
  ts_dry_run :: bool
  ts_passphrase :: string
  ts_rpc_url :: string
  ts_funder :: keypair
  ts_channels :: "channel_key list"

definition tool_load :: "config_sdk \<Rightarrow> environment \<Rightarrow> string list \<Rightarrow> tool_flags \<Rightarrow> string + tool_settings" where
  "tool_load k env args fl =
     (let v = vars_of args;
          n = (case flag_n fl of Some n \<Rightarrow> n | None \<Rightarrow> tool_env_int env (count_var v));
          start_xlm = (case flag_start_xlm fl of Some a \<Rightarrow> a | None \<Rightarrow> ''1.5'');
          merge_to = (case flag_merge_to fl of Some m \<Rightarrow> m | None \<Rightarrow> 0);
          net = getenv env ''NETWORK'';
          bad_seed = seed_var v @ '' must be hex, at least 16 bytes'' in
      check (n \<le> 0) ''channel count required: -n N or CHANNEL_COUNT''
     (and_then (must_keypair k env (funder_key_var v) (funder_addr_var v)) (\<lambda>fkp.
      case hex_decode (getenv env (seed_var v)) of
        None \<Rightarrow> Inl bad_seed
      | Some seed \<Rightarrow>
          check (length seed < min_seed_bytes) bad_seed
         (check (parse_amount k start_xlm = None) ''-start-xlm''
         (and_then (derive_channels (derive_path k) (from_raw_seed k) seed (nat (max n merge_to))) (\<lambda>chans.
            Inr \<lparr>ts_n = n, ts_start_xlm = start_xlm, ts_dry_run = flag_dry_run fl,
                 ts_passphrase = (if net = ''mainnet'' \<or> net = ''pubnet'' then public_passphrase k else test_passphrase k),
                 ts_rpc_url = (let u = getenv env ''RPC_URL'' in
                   if u = [] then ''https://soroban-testnet.stellar.org'' else u),
                 ts_funder = fkp, ts_channels = chans\<rparr>))))))"

section \<open>The plan\<close>

definition to_create :: "int \<Rightarrow> (string \<Rightarrow> ledger_account) \<Rightarrow> channel_key list \<Rightarrow> channel_key list" where
  "to_create n accts chans = filter (\<lambda>ch. ck_index ch < n \<and> \<not> acct_exists (accts (ck_address ch))) chans"

definition to_merge :: "int \<Rightarrow> (string \<Rightarrow> ledger_account) \<Rightarrow> channel_key list \<Rightarrow> channel_key list" where
  "to_merge n accts chans =
     filter (\<lambda>ch. \<not> (ck_index ch < n \<and> \<not> acct_exists (accts (ck_address ch))) \<and>
       n \<le> ck_index ch \<and> acct_exists (accts (ck_address ch))) chans"

section \<open>Submitting\<close>

datatype tool_op =
    CreateAccount (created: string) (starting_balance: string)
  | AccountMerge (merge_into: string) (merged: string)

record tool_tx =
  tt_source :: string
  tt_seq :: int
  tt_ops :: "tool_op list"
  tt_base_fee :: int
  tt_timeout :: int
  tt_signers :: "string list"

text \<open>The SDK's and the RPC's answers.\<close>

record tool_net =
  tn_load_account :: "nat \<Rightarrow> string \<Rightarrow> string + int"
  tn_build_error :: "tool_tx \<Rightarrow> string option"
  tn_sign_error :: "string \<Rightarrow> keypair \<Rightarrow> tool_tx \<Rightarrow> string option"
  tn_base64 :: "tool_tx \<Rightarrow> string + string"
  tn_send :: "nat \<Rightarrow> string \<Rightarrow> string + send_response"
  tn_poll :: "nat \<Rightarrow> string \<Rightarrow> string + tx_response"
  tn_send_text :: "send_response \<Rightarrow> string"
  tn_result_text :: "tx_response \<Rightarrow> string"

fun sign_all :: "tool_net \<Rightarrow> string \<Rightarrow> keypair list \<Rightarrow> tool_tx \<Rightarrow> string + tool_tx" where
  "sign_all t pass [] tx = Inr tx"
| "sign_all t pass (s # ss) tx =
     (case tn_sign_error t pass s tx of
        Some m \<Rightarrow> Inl m
      | None \<Rightarrow> sign_all t pass ss (tx\<lparr>tt_signers := tt_signers tx @ [kp_address s]\<rparr>))"

text \<open>
  \<open>submit\<close>: the error, if any, and the transaction when it was sent. \<open>IncrementSequenceNum\<close> uses the
  number after the loaded one.
\<close>

definition tool_submit ::
  "tool_net \<Rightarrow> string \<Rightarrow> keypair \<Rightarrow> tool_op list \<Rightarrow> keypair list \<Rightarrow> (string option \<times> tool_tx list) gasless"
where
  "tool_submit t pass fkp ops extra = do {
     src \<leftarrow> ask (\<lambda>n. tn_load_account t n (kp_address fkp));
     (case src of
        Inl m \<Rightarrow> ret (Some (''load funder: '' @ m), [])
      | Inr s \<Rightarrow>
          (let tx = \<lparr>tt_source = kp_address fkp, tt_seq = int64 (s + 1), tt_ops = ops, tt_base_fee = 1000,
                     tt_timeout = 120, tt_signers = []\<rparr> in
           case tn_build_error t tx of
             Some m \<Rightarrow> ret (Some (''build tx: '' @ m), [])
           | None \<Rightarrow>
               (case sign_all t pass (fkp # extra) tx of
                  Inl m \<Rightarrow> ret (Some m, [])
                | Inr stx \<Rightarrow>
                    (case tn_base64 t stx of
                       Inl m \<Rightarrow> ret (Some m, [])
                     | Inr b64 \<Rightarrow> do {
                         sent \<leftarrow> ask (\<lambda>n. tn_send t n b64);
                         (case sent of
                            Inl m \<Rightarrow> ret (Some (''send: '' @ m), [stx])
                          | Inr resp \<Rightarrow>
                              if send_status resp \<noteq> SendPENDING \<and> send_status resp \<noteq> SendDUPLICATE
                              then ret (Some (tn_send_text t resp), [stx])
                              else do {
                                res \<leftarrow> ask (\<lambda>n. tn_poll t n (send_hash resp));
                                ret (case res of
                                  Inl m \<Rightarrow> (Some (''poll '' @ send_hash resp @ '': '' @ m), [stx])
                                | Inr tr \<Rightarrow>
                                    if tx_status tr \<noteq> TxSuccess then (Some (tn_result_text t tr), [stx])
                                    else (None, [stx])) }) }))))
   }"

text \<open>The two loops of \<open>main\<close>, over the batches; \<open>log.Fatalf\<close> ends the run at the first error.\<close>

fun submit_batches ::
  "tool_net \<Rightarrow> string \<Rightarrow> keypair \<Rightarrow> (channel_key list \<Rightarrow> tool_op list) \<Rightarrow> (channel_key list \<Rightarrow> keypair list) \<Rightarrow>
   (channel_key list \<Rightarrow> string) \<Rightarrow> channel_key list list \<Rightarrow> (string option \<times> tool_tx list) gasless"
where
  "submit_batches t pass fkp ops signers what [] = ret (None, [])"
| "submit_batches t pass fkp ops signers what (b # bs) = do {
     r \<leftarrow> tool_submit t pass fkp (ops b) (signers b);
     (case fst r of
        Some m \<Rightarrow> ret (Some (what b @ m), snd r)
      | None \<Rightarrow> do {
          rest \<leftarrow> submit_batches t pass fkp ops signers what bs;
          ret (fst rest, snd r @ snd rest) })
   }"

definition create_ops :: "string \<Rightarrow> channel_key list \<Rightarrow> tool_op list" where
  "create_ops start_xlm batch = map (\<lambda>ch. CreateAccount (ck_address ch) start_xlm) batch"

definition merge_ops :: "keypair \<Rightarrow> channel_key list \<Rightarrow> tool_op list" where
  "merge_ops fkp batch = map (\<lambda>ch. AccountMerge (kp_address fkp) (ck_address ch)) batch"

definition batch_text :: "channel_key list \<Rightarrow> string" where
  "batch_text b = ''create channels '' @ show_int (ck_index (hd b)) @ ''..'' @ show_int (ck_index (last b)) @ '': ''"

definition tool_main ::
  "gasless_runtime \<Rightarrow> gasless_sdk \<Rightarrow> tool_net \<Rightarrow> tool_settings \<Rightarrow> (string option \<times> tool_tx list) gasless"
where
  "tool_main e k t ts = do {
     r \<leftarrow> accounts e k (kp_address (ts_funder ts) # map ck_address (ts_channels ts));
     (case r of
        Inl m \<Rightarrow> ret (Some m, [])
      | Inr accts \<Rightarrow>
          if \<not> acct_exists (accts (kp_address (ts_funder ts)))
          then ret (Some (''funder '' @ kp_address (ts_funder ts) @ '' does not exist''), [])
          else
            (let creates = to_create (ts_n ts) accts (ts_channels ts);
                 merges = to_merge (ts_n ts) accts (ts_channels ts) in
             if ts_dry_run ts \<or> creates = [] \<and> merges = [] then ret (None, [])
             else do {
               c \<leftarrow> submit_batches t (ts_passphrase ts) (ts_funder ts) (create_ops (ts_start_xlm ts)) (\<lambda>b. [])
                 batch_text (chunks max_creates_per_tx creates);
               (case fst c of
                  Some m \<Rightarrow> ret c
                | None \<Rightarrow> do {
                    m \<leftarrow> submit_batches t (ts_passphrase ts) (ts_funder ts) (merge_ops (ts_funder ts)) (map ck_keypair)
                      (\<lambda>b. ''merge channels: '') (chunks max_merges_per_tx merges);
                    ret (fst m, snd c @ snd m) }) }))
   }"

section \<open>What the operations do to the ledger\<close>

text \<open>Which accounts exist after an operation, and after transactions that landed in order.\<close>

fun apply_op :: "tool_op \<Rightarrow> (string \<Rightarrow> bool) \<Rightarrow> string \<Rightarrow> bool" where
  "apply_op (CreateAccount d a) ex = ex(d := True)"
| "apply_op (AccountMerge into src) ex = ex(src := False)"

definition apply_txs :: "tool_tx list \<Rightarrow> (string \<Rightarrow> bool) \<Rightarrow> string \<Rightarrow> bool" where
  "apply_txs txs ex = fold apply_op (concat (map tt_ops txs)) ex"

definition exists_in :: "(string \<Rightarrow> ledger_account) \<Rightarrow> string \<Rightarrow> bool" where
  "exists_in accts a = acct_exists (accts a)"

lemma fold_creates: "fold apply_op (create_ops x chs) ex a \<longleftrightarrow> ex a \<or> a \<in> ck_address ` set chs"
  by (induction chs arbitrary: ex) (auto simp: create_ops_def)

lemma fold_merges: "fold apply_op (merge_ops f chs) ex a \<longleftrightarrow> ex a \<and> a \<notin> ck_address ` set chs"
  by (induction chs arbitrary: ex) (auto simp: merge_ops_def)

section \<open>What is submitted\<close>

lemma sign_all_ops: "sign_all t pass ss tx = Inr tx' \<Longrightarrow>
    tt_ops tx' = tt_ops tx \<and> tt_signers tx' = tt_signers tx @ map kp_address ss"
  by (induction ss arbitrary: tx) (auto split: option.splits)

text \<open>A submission sends at most one transaction, with its operations and signers; without an error it was sent.\<close>

lemma wp_tool_submit:
  "wp (tool_submit t pass fkp ops extra) (\<lambda>r w.
     (snd r = [] \<and> fst r \<noteq> None) \<or>
     (\<exists>tx. snd r = [tx] \<and> tt_ops tx = ops \<and> tt_signers tx = map kp_address (fkp # extra))) w"
  unfolding tool_submit_def
  by (auto simp: Let_def dest: sign_all_ops split: sum.splits option.splits)

text \<open>The transactions of a loop are those of a prefix of its batches, and of all of them without an error.\<close>

lemma wp_submit_batches:
  "wp (submit_batches t pass fkp ops signers what bs) (\<lambda>r w.
     \<exists>bs1 bs2. bs = bs1 @ bs2 \<and> map tt_ops (snd r) = map ops bs1 \<and>
       (\<forall>tx \<in> set (snd r). \<exists>b \<in> set bs1. tt_signers tx = map kp_address (fkp # signers b)) \<and>
       (fst r = None \<longrightarrow> bs2 = [])) w"
proof (induction bs arbitrary: w)
  case Nil
  then show ?case by simp
next
  case (Cons b bs)
  show ?case
    unfolding submit_batches.simps
  proof (rule wp_bindI [OF wp_tool_submit], goal_cases)
    case (1 r v)
    show ?case
    proof (cases "fst r")
      case (Some m)
      from 1 consider "snd r = []"
        | tx where "snd r = [tx]" "tt_ops tx = ops b" "tt_signers tx = map kp_address (fkp # signers b)" by blast
      then show ?thesis
      proof cases
        case 1
        show ?thesis unfolding Some option.case wp_return by (rule exI [of _ "[]"], rule exI [of _ "b # bs"]) (simp add: 1)
      next
        case 2
        show ?thesis unfolding Some option.case wp_return by (rule exI [of _ "[b]"], rule exI [of _ bs]) (simp add: 2 Some)
      qed
    next
      case None
      with 1 obtain tx where tx: "snd r = [tx]" "tt_ops tx = ops b" "tt_signers tx = map kp_address (fkp # signers b)"
        by blast
      show ?thesis
        unfolding None option.case
      proof (rule wp_bindI [OF Cons.IH], goal_cases)
        case (1 r' u)
        then obtain bs1 bs2 where rest: "bs = bs1 @ bs2" "map tt_ops (snd r') = map ops bs1"
          "\<forall>tx \<in> set (snd r'). \<exists>b \<in> set bs1. tt_signers tx = map kp_address (fkp # signers b)"
          "fst r' = None \<longrightarrow> bs2 = []" by (elim exE conjE) (rule that)
        show ?case
          unfolding wp_return fst_conv snd_conv
        proof (rule exI [of _ "b # bs1"], rule exI [of _ bs2], intro conjI)
          show "b # bs = (b # bs1) @ bs2" using rest(1) by simp
          show "map tt_ops (snd r @ snd r') = map ops (b # bs1)" using tx rest(2) by simp
          show "\<forall>x \<in> set (snd r @ snd r'). \<exists>b \<in> set (b # bs1). tt_signers x = map kp_address (fkp # signers b)"
            using tx(1,3) rest(3) by simp
          show "fst r' = None \<longrightarrow> bs2 = []" by (rule rest(4))
        qed
      qed
    qed
  qed
qed

text \<open>An operation the plan asks for.\<close>

definition planned :: "tool_settings \<Rightarrow> (string \<Rightarrow> ledger_account) \<Rightarrow> tool_op \<Rightarrow> bool" where
  "planned ts accts op \<longleftrightarrow>
     (\<exists>ch \<in> set (ts_channels ts).
        op = CreateAccount (ck_address ch) (ts_start_xlm ts) \<and> ck_index ch < ts_n ts \<and>
          \<not> exists_in accts (ck_address ch) \<or>
        op = AccountMerge (kp_address (ts_funder ts)) (ck_address ch) \<and> ts_n ts \<le> ck_index ch \<and>
          exists_in accts (ck_address ch))"

definition within_limits :: "tool_tx \<Rightarrow> bool" where
  "within_limits tx \<longleftrightarrow> tt_ops tx \<noteq> [] \<and> length (tt_ops tx) \<le> 100 \<and> length (tt_signers tx) \<le> 20"

text \<open>A loop sends planned operations within the limits, and all of them without an error.\<close>

lemma wp_loop:
  assumes m: "0 < m" "m \<le> 100" and signers: "\<And>b. length b \<le> m \<Longrightarrow> length (signers b) < 20"
    and plan: "\<And>ch. ch \<in> set chs \<Longrightarrow> planned ts accts (f ch)"
  shows "wp (submit_batches t pass fkp (map f) signers what (chunks m chs))
    (\<lambda>r w. (\<forall>tx \<in> set (snd r). within_limits tx \<and> (\<forall>op \<in> set (tt_ops tx). planned ts accts op)) \<and>
      (fst r = None \<longrightarrow> concat (map tt_ops (snd r)) = map f chs)) w"
proof (rule wp_mono [OF wp_submit_batches], goal_cases)
  case (1 r w')
  then obtain bs1 bs2 where bs: "chunks m chs = bs1 @ bs2" "map tt_ops (snd r) = map (map f) bs1"
    "\<forall>tx \<in> set (snd r). \<exists>b \<in> set bs1. tt_signers tx = map kp_address (fkp # signers b)"
    "fst r = None \<longrightarrow> bs2 = []" by (elim exE conjE) (rule that)
  have whole: "concat (bs1 @ bs2) = chs" using concat_chunks [OF m(1), of chs] bs(1) by simp
  have size: "b \<noteq> [] \<and> length b \<le> m" if "b \<in> set bs1" for b
    using chunks_bound [of b m chs] bs(1) that by simp
  have "within_limits tx \<and> (\<forall>op \<in> set (tt_ops tx). planned ts accts op)" if tx: "tx \<in> set (snd r)" for tx
  proof -
    have "tt_ops tx \<in> set (map (map f) bs1)" unfolding bs(2) [symmetric] using tx by simp
    then obtain b where b: "b \<in> set bs1" "tt_ops tx = map f b" by auto
    have "set b \<subseteq> set chs" unfolding whole [symmetric] using b(1) by auto
    then have "\<forall>op \<in> set (tt_ops tx). planned ts accts op" unfolding b(2) using plan by auto
    moreover obtain b' where "b' \<in> set bs1" "tt_signers tx = map kp_address (fkp # signers b')"
      using bs(3) tx by blast
    then have "length (tt_signers tx) \<le> 20" using signers [of b'] size [of b'] by simp
    moreover have "tt_ops tx \<noteq> []" "length (tt_ops tx) \<le> 100" using size [OF b(1)] m(2) b(2) by simp_all
    ultimately show ?thesis unfolding within_limits_def by blast
  qed
  moreover have "concat (map tt_ops (snd r)) = map f chs" if "fst r = None"
  proof -
    have "concat (map tt_ops (snd r)) = map f (concat bs1)" unfolding bs(2) by (simp add: map_concat)
    with that bs(4) whole show ?thesis by simp
  qed
  ultimately show ?case by blast
qed

text \<open>The operations of the whole plan, and a run that has sent planned ones, all of them without an error.\<close>

definition full_plan :: "tool_settings \<Rightarrow> (string \<Rightarrow> ledger_account) \<Rightarrow> tool_op list" where
  "full_plan ts accts =
     create_ops (ts_start_xlm ts) (to_create (ts_n ts) accts (ts_channels ts)) @
     merge_ops (ts_funder ts) (to_merge (ts_n ts) accts (ts_channels ts))"

definition follows :: "tool_settings \<Rightarrow> (string \<Rightarrow> ledger_account) \<Rightarrow> tool_op list \<Rightarrow> string option \<times> tool_tx list \<Rightarrow> bool" where
  "follows ts accts ops r \<longleftrightarrow>
     (\<forall>tx \<in> set (snd r). within_limits tx \<and> (\<forall>op \<in> set (tt_ops tx). planned ts accts op)) \<and>
     (fst r = None \<longrightarrow> concat (map tt_ops (snd r)) = ops)"

lemma wp_creates:
  "wp (submit_batches t pass f (create_ops (ts_start_xlm ts)) (\<lambda>b. []) batch_text
      (chunks max_creates_per_tx (to_create (ts_n ts) accts (ts_channels ts))))
    (\<lambda>r w. follows ts accts (create_ops (ts_start_xlm ts) (to_create (ts_n ts) accts (ts_channels ts))) r) w"
  unfolding create_ops_def [abs_def] follows_def
  by (rule wp_loop) (auto simp: max_creates_per_tx_def planned_def to_create_def exists_in_def)

lemma wp_merges:
  "wp (submit_batches t pass f (merge_ops (ts_funder ts)) (map ck_keypair) what
      (chunks max_merges_per_tx (to_merge (ts_n ts) accts (ts_channels ts))))
    (\<lambda>r w. follows ts accts (merge_ops (ts_funder ts) (to_merge (ts_n ts) accts (ts_channels ts))) r) w"
  unfolding merge_ops_def [abs_def] follows_def
  by (rule wp_loop) (auto simp: max_merges_per_tx_def planned_def to_merge_def exists_in_def)

lemma follows_append:
  "follows ts accts ops c \<Longrightarrow> fst c = None \<Longrightarrow> follows ts accts ops' m \<Longrightarrow>
    follows ts accts (ops @ ops') (fst m, snd c @ snd m)"
  unfolding follows_def by auto

lemma follows_error: "follows ts accts ops c \<Longrightarrow> fst c = Some m \<Longrightarrow> follows ts accts ops' c"
  unfolding follows_def by simp

lemma wp_tool_main:
  assumes "wp (accounts e k (kp_address (ts_funder ts) # map ck_address (ts_channels ts))) (\<lambda>r u. r = Inr accts) w"
    and "\<not> ts_dry_run ts"
  shows "wp (tool_main e k t ts) (\<lambda>r u. follows ts accts (full_plan ts accts) r) w"
  unfolding tool_main_def
proof (rule wp_bindI [OF assms(1)], goal_cases)
  case (1 r u)
  let ?creates = "to_create (ts_n ts) accts (ts_channels ts)" and ?merges = "to_merge (ts_n ts) accts (ts_channels ts)"
  let ?Q = "\<lambda>r u. follows ts accts (full_plan ts accts) r"
  have loops: "wp (do {
        c \<leftarrow> submit_batches t (ts_passphrase ts) (ts_funder ts) (create_ops (ts_start_xlm ts)) (\<lambda>b. [])
          batch_text (chunks max_creates_per_tx ?creates);
        (case fst c of
           Some m \<Rightarrow> ret c
         | None \<Rightarrow> do {
             m \<leftarrow> submit_batches t (ts_passphrase ts) (ts_funder ts) (merge_ops (ts_funder ts)) (map ck_keypair)
               (\<lambda>b. ''merge channels: '') (chunks max_merges_per_tx ?merges);
             ret (fst m, snd c @ snd m) }) }) ?Q u"
  proof (rule wp_bindI [OF wp_creates], goal_cases)
    case (1 c u)
    show ?case
    proof (cases "fst c")
      case None
      show ?thesis
        unfolding None option.case full_plan_def
        by (rule wp_bindI [OF wp_merges]) (use follows_append [OF 1 None] in simp)
    next
      case (Some m)
      with follows_error [OF 1] show ?thesis by simp
    qed
  qed
  consider "\<not> acct_exists (accts (kp_address (ts_funder ts)))" | "?creates = [] \<and> ?merges = []"
    | "acct_exists (accts (kp_address (ts_funder ts)))" "\<not> (?creates = [] \<and> ?merges = [])" by blast
  then show ?case
  proof cases
    case 3
    with 1 loops assms(2) show ?thesis by (simp only: sum.case Let_def simp_thms if_False if_True)
  qed (use 1 in \<open>simp_all add: follows_def full_plan_def create_ops_def merge_ops_def\<close>)
qed

section \<open>What the plan leaves\<close>

lemma apply_plan: "fold apply_op (full_plan ts accts) ex a \<longleftrightarrow>
    (ex a \<or> a \<in> ck_address ` set (to_create (ts_n ts) accts (ts_channels ts))) \<and>
    a \<notin> ck_address ` set (to_merge (ts_n ts) accts (ts_channels ts))"
  by (simp add: full_plan_def fold_merges fold_creates)

lemma address_in_filter:
  assumes "distinct (map ck_address chs)" "ch \<in> set chs"
  shows "ck_address ch \<in> ck_address ` set (filter P chs) \<longleftrightarrow> P ch"
proof
  assume "ck_address ch \<in> ck_address ` set (filter P chs)"
  then obtain d where "d \<in> set chs" "P d" "ck_address ch = ck_address d" by auto
  moreover have "inj_on ck_address (set chs)" using assms(1) by (simp add: distinct_map)
  ultimately show "P ch" using assms(2) by (metis inj_onD)
qed (use assms(2) in simp)

lemma plan_leaves_wanted:
  assumes "distinct (map ck_address (ts_channels ts))" "ch \<in> set (ts_channels ts)"
  shows "fold apply_op (full_plan ts accts) (exists_in accts) (ck_address ch) \<longleftrightarrow> ck_index ch < ts_n ts"
  unfolding apply_plan to_create_def to_merge_def address_in_filter [OF assms] exists_in_def by auto

lemma plan_leaves_others:
  "a \<notin> ck_address ` set (ts_channels ts) \<Longrightarrow> fold apply_op (full_plan ts accts) ex a = ex a"
  unfolding apply_plan by (auto simp: to_create_def to_merge_def)

lemma nothing_to_do:
  assumes "\<forall>ch \<in> set chs. exists_in accts (ck_address ch) \<longleftrightarrow> ck_index ch < n"
  shows "to_create n accts chs = [] \<and> to_merge n accts chs = []"
  using assms by (auto simp: to_create_def to_merge_def exists_in_def filter_empty_conv)


section \<open>A concrete run\<close>

text \<open>
  A count of one against a ledger with the funder and channel 1: channel 0 is created and channel 1
  merged into the funder.
\<close>

definition tool_runtime :: gasless_runtime where
  "tool_runtime = sponsor_runtime\<lparr>ledger_entries := (\<lambda>n keys. Inr (map (\<lambda>key. \<lparr>entry_key = key, entry_data = ''ACC''\<rparr>)
     (filter (\<lambda>key. key = ''GFUNDER'' \<or> key = ''GOLD'') keys)))\<rparr>"

definition demo_net :: tool_net where
  "demo_net =
     \<lparr>tn_load_account = (\<lambda>n a. Inr 7), tn_build_error = (\<lambda>tx. None), tn_sign_error = (\<lambda>p s tx. None),
      tn_base64 = (\<lambda>tx. Inr ''TX''),
      tn_send = (\<lambda>n b. Inr \<lparr>send_status = SendPENDING, send_hash = ''H'', error_result_xdr = []\<rparr>),
      tn_poll = (\<lambda>n h. Inr \<lparr>tx_status = TxSuccess, result_xdr = [], latest_ledger_close_time = 0,
        oldest_ledger_close_time = 0\<rparr>),
      tn_send_text = (\<lambda>r. []), tn_result_text = (\<lambda>r. [])\<rparr>"

definition demo_tool :: tool_settings where
  "demo_tool =
     \<lparr>ts_n = 1, ts_start_xlm = ''1.5'', ts_dry_run = False, ts_passphrase = ''net'', ts_rpc_url = [],
      ts_funder = \<lparr>kp_address = ''GFUNDER'', kp_seed = ''SF''\<rparr>,
      ts_channels = [\<lparr>ck_index = 0, ck_keypair = \<lparr>kp_address = ''GNEW'', kp_seed = ''S0''\<rparr>\<rparr>,
                     \<lparr>ck_index = 1, ck_keypair = \<lparr>kp_address = ''GOLD'', kp_seed = ''S1''\<rparr>\<rparr>]\<rparr>"

definition demo_tool_run :: "(string option \<times> tool_tx list) \<times> gasless_world" where
  "demo_tool_run = run_state (tool_main tool_runtime sponsor_gsdk demo_net demo_tool) sponsor_world"


text \<open>
  A spelling of the flag that \<open>flag.Parse\<close> accepts as true and the command's own scan does not know:
  it works on the channels of the gasless service.
\<close>

lemma deposit_spelling_ignored: "vars_of [''-deposit=1''] = vars_of []"
  by (simp add: vars_of_def is_deposit_def)

end
