(* ===== verification/Observe.thy ===== *)
theory Observe
  imports Http
begin

text \<open>
  What the HTTP layers observe of a request: the status recorders and the access log of
  \<open>internal/httpx/requestid.go\<close>, and the request counter of \<open>Middleware\<close> in
  \<open>internal/metrics/metrics.go\<close>. The lemmas show that both record the status the client gets, that
  every request is counted once, under the pattern of its route and not its path, and that the method
  the client chose is a label of its own.
\<close>

section \<open>Recording the status\<close>

text \<open>What a handler does to its response writer.\<close>

datatype writer_call = WriteHeader int | WriteBody string

record recorder =
  rec_status :: int
  wrote_header :: bool

definition new_recorder :: recorder where
  "new_recorder = \<lparr>rec_status = 200, wrote_header = False\<rparr>"

text \<open>\<open>statusRecorder\<close> of the access log; every call also goes to the writer underneath.\<close>

definition log_write_header :: "int \<Rightarrow> recorder \<Rightarrow> recorder" where
  "log_write_header code s = (if wrote_header s then s else s\<lparr>rec_status := code, wrote_header := True\<rparr>)"

definition log_write :: "recorder \<Rightarrow> recorder" where
  "log_write s = s\<lparr>wrote_header := True\<rparr>"

fun log_call :: "recorder \<Rightarrow> writer_call \<Rightarrow> recorder" where
  "log_call s (WriteHeader code) = log_write_header code s"
| "log_call s (WriteBody b) = log_write s"

text \<open>\<open>statusWriter\<close> of the metrics, which sits inside.\<close>

definition metric_write_header :: "int \<Rightarrow> recorder \<Rightarrow> recorder" where
  "metric_write_header code s = (if wrote_header s then s else s\<lparr>rec_status := code, wrote_header := True\<rparr>)"

definition metric_write :: "recorder \<Rightarrow> recorder" where
  "metric_write s = s\<lparr>wrote_header := True\<rparr>"

text \<open>A call on the inner writer is recorded there and passed to the outer one.\<close>

fun nested_call :: "recorder \<times> recorder \<Rightarrow> writer_call \<Rightarrow> recorder \<times> recorder" where
  "nested_call (m, l) (WriteHeader code) = (metric_write_header code m, log_call l (WriteHeader code))"
| "nested_call (m, l) (WriteBody b) = (metric_write m, log_call l (WriteBody b))"

definition recorded_run :: "writer_call list \<Rightarrow> recorder \<times> recorder" where
  "recorded_run calls = foldl nested_call (new_recorder, new_recorder) calls"

text \<open>
  \<open>net/http\<close>: informational codes other than 101 do not end the header; the first other code does,
  and a body without one means 200, as does a handler that returns without writing.
\<close>

definition informational :: "int \<Rightarrow> bool" where
  "informational code \<longleftrightarrow> 100 \<le> code \<and> code \<le> 199 \<and> code \<noteq> 101"

fun sent_status :: "writer_call list \<Rightarrow> int" where
  "sent_status [] = 200"
| "sent_status (WriteHeader code # calls) = (if informational code then sent_status calls else code)"
| "sent_status (WriteBody b # calls) = 200"

definition final_codes :: "writer_call list \<Rightarrow> bool" where
  "final_codes calls \<longleftrightarrow> list_all (\<lambda>c. case c of WriteHeader code \<Rightarrow> \<not> informational code | WriteBody b \<Rightarrow> True) calls"

lemma nested_wrote:
  "wrote_header m \<Longrightarrow> wrote_header l \<Longrightarrow>
    rec_status (fst (foldl nested_call (m, l) calls)) = rec_status m \<and>
    rec_status (snd (foldl nested_call (m, l) calls)) = rec_status l"
proof (induction calls arbitrary: m l)
  case (Cons c calls)
  then show ?case
    by (cases c) (simp_all add: metric_write_header_def metric_write_def log_write_header_def log_write_def)
qed simp

text \<open>Both recorders have the status the client was sent, unless a handler sends an informational code.\<close>

lemma status_recorded:
  assumes "final_codes calls"
  shows "rec_status (fst (recorded_run calls)) = sent_status calls"
    and "rec_status (snd (recorded_run calls)) = sent_status calls"
proof -
  have "rec_status (fst (recorded_run calls)) = sent_status calls \<and> rec_status (snd (recorded_run calls)) = sent_status calls"
  proof (cases calls)
    case (Cons c cs)
    with assms show ?thesis
      by (cases c) (simp_all add: recorded_run_def final_codes_def new_recorder_def nested_wrote
          metric_write_header_def metric_write_def log_write_header_def log_write_def)
  qed (simp add: recorded_run_def new_recorder_def)
  then show "rec_status (fst (recorded_run calls)) = sent_status calls"
    and "rec_status (snd (recorded_run calls)) = sent_status calls" by simp_all
qed

section \<open>The access log\<close>

record access_line =
  line_id :: string
  line_method :: string
  line_path :: string
  line_status :: int

definition access_log :: "string \<Rightarrow> string \<Rightarrow> string \<Rightarrow> recorder \<Rightarrow> access_line option" where
  "access_log i meth path s =
     (if path = ''/health'' \<or> path = ''/metrics'' then None
      else Some \<lparr>line_id = i, line_method = meth, line_path = path, line_status = rec_status s\<rparr>)"

section \<open>The request counter\<close>

text \<open>A counter per combination of the labels route, method and status.\<close>

type_synonym request_counts = "string \<times> string \<times> string \<Rightarrow> nat"

text \<open>\<open>pattern\<close> is the pattern the mux matched, empty when it was not reached or matched none.\<close>

definition count_request :: "string \<Rightarrow> string \<Rightarrow> recorder \<Rightarrow> request_counts \<Rightarrow> request_counts" where
  "count_request pattern meth s counts =
     (let route = (if pattern = [] then ''unmatched'' else pattern);
          key = (route, meth, show_int (rec_status s)) in
      counts(key := counts key + 1))"

definition label_sets :: "request_counts \<Rightarrow> (string \<times> string \<times> string) set" where
  "label_sets counts = {key. 0 < counts key}"

text \<open>The routes of the labels are the patterns of the mux and \<open>unmatched\<close>, whatever the paths.\<close>

lemma routes_bounded:
  assumes "\<forall>(pattern, meth, s) \<in> set reqs. pattern \<in> patterns \<or> pattern = []"
  shows "fst ` label_sets (fold (\<lambda>(pattern, meth, s). count_request pattern meth s) reqs (\<lambda>_. 0))
    \<subseteq> insert ''unmatched'' patterns"
proof -
  have step: "label_sets (count_request pattern meth s counts) =
      insert ((if pattern = [] then ''unmatched'' else pattern), meth, show_int (rec_status s)) (label_sets counts)"
    for pattern meth s counts
    by (auto simp: label_sets_def count_request_def Let_def)
  have "fst ` label_sets (fold (\<lambda>(pattern, meth, s). count_request pattern meth s) reqs counts)
      \<subseteq> insert ''unmatched'' patterns"
    if "fst ` label_sets counts \<subseteq> insert ''unmatched'' patterns" for counts
    using assms that
  proof (induction reqs arbitrary: counts)
    case (Cons r reqs)
    obtain pattern meth s where r: "r = (pattern, meth, s)" by (cases r)
    have "fst ` label_sets (count_request pattern meth s counts)
        \<subseteq> insert ''unmatched'' patterns"
      using Cons.prems unfolding step r by auto
    with Cons r show ?case by simp
  qed simp
  then show ?thesis by (simp add: label_sets_def)
qed

text \<open>
  But the method is the client's: requests that reach no route, refused before any key is looked at,
  make a label set for every method they name.
\<close>

lemma methods_unbounded:
  "label_sets (fold (\<lambda>meth. count_request [] meth s) methods (\<lambda>_. 0)) =
    (\<lambda>meth. (''unmatched'', meth, show_int (rec_status s))) ` set methods"
proof -
  have "label_sets (fold (\<lambda>meth. count_request [] meth s) methods counts) =
    (\<lambda>meth. (''unmatched'', meth, show_int (rec_status s))) ` set methods \<union> label_sets counts" for counts
  proof (induction methods arbitrary: counts)
    case (Cons m methods)
    have "label_sets (count_request [] m s counts) =
        insert (''unmatched'', m, show_int (rec_status s)) (label_sets counts)"
      by (auto simp: label_sets_def count_request_def Let_def)
    with Cons show ?case by auto
  qed simp
  then show ?thesis by (simp add: label_sets_def)
qed

end
