(* ===== verification/Spec2Isabelle.thy ===== *)
theory Spec2Isabelle
  imports Bridge_Api Http_Laws Boot Loops Shutdown Channel_Tool Observe
begin

text \<open>
  A verification of latch-relayer.

  \<^bold>\<open>The program.\<close> Two services over PostgreSQL and the Stellar network. The \<^emph>\<open>deposit bridge\<close> (\<open>cmd/serve\<close>) mints
  intents (a memo tied to a C-address), watches its pool accounts for payments, forwards each payment to the
  C-address of its memo or sweeps it to a recovery address, and retries what did not settle. The \<^emph>\<open>gasless service\<close>
  (\<open>cmd/gasless\<close>) pays for users' transactions: it validates a request, reserves a fee under caps, sends the call
  from a leased channel account inside a fee-bump, and a resolver settles what stayed open. Both share the
  HTTP middleware, the channel pool, the fee-bump and the configuration loader. A command (\<open>scripts/channels\<close>) creates the
  channel accounts on-chain.

  \<^bold>\<open>How it is modelled.\<close> A Go function with effects is a \<open>State_Monad\<close> computation over the state of its service
  (\<open>Prelude\<close>: \<open>wp\<close>, tables as lists of rows, Go's strings and numbers; \<open>Encoding\<close>: SHA-256, hex and JSON). Every call that
  leaves the process (statement, RPC, Horizon, clock, random numbers, \<open>select\<close>) is answered by a \<open>runtime\<close> indexed
  by the number of the call (\<open>Runtime\<close>), so a theorem covers every answer, lost answers and, as a runtime whose later
  calls all fail, crashes. The Stellar SDK is a record of functions (\<open>sdk\<close>, \<open>gasless_sdk\<close>, \<open>config_sdk\<close>, \<open>wiring\<close>); what
  a theorem needs of it is a named hypothesis with a concrete instance in its witness. Errors are values
  of sum and option types with the source's texts; \<open>int64\<close>, \<open>uint32\<close> and \<open>uint64\<close> keep their width where a value can
  reach it.

  \<^bold>\<open>Deposit bridge.\<close>
  \<^item> \<open>Store\<close> (\<open>internal/store\<close>): the three tables and every SQL statement; \<open>Bridge_World\<close>: the Go methods around them
    and the sequencer (\<open>forwarder/sequence.go\<close>). \<open>Store_Laws\<close>: claims exclude each other, an intent's life cycle, fresh
    memos, the retry queue.
  \<^item> \<open>Memo\<close>, \<open>Feebump\<close>, \<open>Channels\<close> (\<open>internal/memo\<close>, \<open>internal/feebump\<close>, \<open>gasless/channels/pool.go\<close>): parsing, the
    fee-bump's bid, leases with their exclusivity.
  \<^item> \<open>Forwarder_Submit\<close>, \<open>Forwarder\<close> (\<open>forwarder/forwarder.go\<close>): the submit pipeline and the life of a deposit;
    \<open>Payment_Safety\<close> and \<open>Bridge_Frame\<close>: what each operation keeps.
  \<^item> \<open>Watcher\<close> (\<open>service/watcher\<close>) and \<open>Bridge\<close> (\<open>service/retry\<close>, the step relation of the whole bridge): under any
    interleaving of whole calls, restarts and lost answers a deposit is paid at most once, a settled row names
    a transfer that landed, and a transfer that landed is on record.
  \<^item> \<open>Lifecycle\<close> (\<open>internal/lifecycle\<close>): the tracker as steps of goroutines; \<open>Drain\<close> waits for the work. \<open>Watcher_Run\<close>
    (\<open>Run\<close>, \<open>startWorkers\<close>): the workers of all pools as its tasks, each around its pool's channel of jobs.
  \<^item> \<open>Watcher_Laws\<close>: several instances polling a pool, with restarts and failures, of which the code's loop is one run:
    the saved cursor never passes a deposit that has no row, an answered poll records the backlog, and deposit keys
    are distinct. \<open>fresh_pool_skips_deposit\<close> is a run in which a pool without a saved cursor loses a deposit.
  \<^item> \<open>Bridge_Api\<close> (\<open>internal/handler\<close>): the handlers; replies agree with the tables.

  \<^bold>\<open>Gasless service.\<close>
  \<^item> \<open>Soroban\<close>, \<open>Stellar\<close>: the SDK's data. \<open>Sponsor_Request\<close> (\<open>sponsor/request.go\<close>): requests and policy, equivalent to a
    declarative condition. \<open>Sponsor_Store\<close>, \<open>Sponsor_Laws\<close> (\<open>sponsor/store.go\<close>): the table, the caps and the finality of
    a record. \<open>Gasless_World\<close>: the service's state and the store's methods.
  \<^item> \<open>Sponsor_Fees\<close>, \<open>Sponsor_Pricing\<close> (\<open>sponsor/forward.go\<close>, \<open>price.go\<close>): prices and fees, with bounds. \<open>Chain\<close>
    (\<open>gasless/chain\<close>): account, balance and role reads.
  \<^item> \<open>Sponsor_Submit\<close> (\<open>submitter.go\<close>, \<open>resolver.go\<close>, \<open>signer\<close>), \<open>Sponsor_Safety\<close>, \<open>Sponsor_Outcomes\<close>: an attempt, a run and the
    resolver, and what they keep of a request's record.
  \<^item> \<open>Gasless_Ops\<close> (\<open>keys\<close>, \<open>startup\<close>, \<open>balance\<close>), \<open>Gasless_Api\<close> (\<open>gasless/api\<close>) and \<open>Gasless_Service\<close> (the step relation of the
    service): at most one transaction the network may include per request, a rejected request costs nothing, the record
    names what was sent, and the resolver settles what is stale. \<open>Gasless_Demo\<close>: a concrete service for the witnesses.

  \<^bold>\<open>Shared.\<close>
  \<^item> \<open>Loops\<close>: the ticker loops of the retry worker, the resolver and the balance monitor; what a round keeps, the loop keeps.
  \<^item> \<open>Http\<close>, \<open>Http_Laws\<close> (\<open>internal/httpx\<close>, the order of the layers in both \<open>main\<close>s): authentication, the concurrency cap,
    the rate limiter as an instance of a metering contract and as a refinement of a limiter that never drops a
    bucket, request ids. \<open>Observe\<close> (\<open>httpx/requestid.go\<close>, \<open>metrics.Middleware\<close>): the recorded status, the access log and the
    labels of the request counter.
  \<^item> \<open>Config\<close> (\<open>internal/config\<close>), \<open>Startup\<close> and \<open>Boot\<close> (\<open>cmd\<close>, \<open>internal/db\<close>): what an accepted configuration satisfies, and that
    a service which comes up runs with settings the other theorems assume.
  \<^item> \<open>Shutdown\<close> (both \<open>main\<close>s from the workers to the exit): handlers, loops, tracked work and \<open>main\<close> as steps of one process;
    what is finished when it exits.
  \<^item> \<open>Migrations\<close> (\<open>migrations/migrations.go\<close>): upgrades by steps and fresh installs agree.
  \<^item> \<open>Channel_Tool\<close> (\<open>scripts/channels/main.go\<close>): the command sends only what its plan says, and a second run does nothing.

  \<^bold>\<open>Interfaces.\<close> \<open>keyed_update\<close> and \<open>forward_op\<close> (a statement that updates rows by key; one interpretation per statement),
  \<open>quiet_op\<close> (one that leaves a deposit unpaid), \<open>settling\<close> (updates of a sponsor record), \<open>lease_pool\<close> (what a holder of a
  lease relies on), \<open>submit_rel\<close> and \<open>bridge_rel\<close> (relations that every call of the forwarder keeps), \<open>bridge_invariant\<close> and \<open>gasless_invariant\<close> (rule induction over a service's
  steps, interpreted on each invariant), \<open>metered\<close> (a token bucket, interpreted on the rate limiter),
  \<open>tracked_invariant\<close> (tasks of the tracker, interpreted on the watchers' workers), \<open>ticked\<close> (a loop's rounds, interpreted on the three
  ticker loops). \<open>bridge_rel\<close> is interpreted once more in \<open>Watcher_Laws\<close>, on the tables the watchers share.

  \<^bold>\<open>Loops and fuel.\<close> Loops with a bound in the code (retries, attempts, fee retries, memo collisions) recurse on that
  bound. \<open>preflight_loop\<close>, \<open>load_pools\<close> and the waits recurse with termination proofs (the deadline; the finite environment).
  \<open>strip_front\<close> has the length of its text as fuel, which is enough because every round removes a byte. \<open>watcher_run\<close>,
  \<open>poll\<close> and \<open>ticker_loop\<close> count polls, pages and rounds with fuel; a loop still running is a value of its own, every theorem on
  them holds for all fuel, and \<open>backlog_drains\<close> says how many pages a backlog needs. In the step relations one step
  is one round.

  \<^bold>\<open>Assumed.\<close> A statement is atomic and the database's clock is the runtime's; float64 values are the rationals of
  their shortest decimal form (prices) or exact rationals (token buckets). The bridge theorems assume a network that
  includes a transaction at most once and within its time bounds, and an RPC that reports what happened; the gasless
  theorems on outcomes assume the same and runs that end before the resolver's staleness bound.

  \<^bold>\<open>Not modelled.\<close> Logging, alerts and the metrics other than the request counter; \<open>mismatchesExpected\<close> (its result is only logged); scheduling inside a
  call: calls on different deposits write different rows, and interleaving is at the level of whole calls; the timeouts of
  \<open>http.Server\<close>; a process that is killed (a run of the bridge or of the service that goes no further); \<open>internal/testdb\<close>, \<open>chain/rpc.go\<close> (an interface); JSON
  decoding and routing (the standard library's); the other programs under \<open>scripts/\<close>: load generators and live tests that drive a network from outside and print
  what they see.
\<close>

end
